(* ===== verification/Prelude.thy ===== *)
theory Prelude
  imports Complex_Main "HOL-Library.AList" "HOL-Library.List_Lexorder" "HOL-Library.Char_ord"
    "HOL-Library.Product_Lexorder" "HOL-Library.Multiset"
begin

text \<open>
  The vocabulary every component shares: Python dictionaries as insertion-ordered association
  lists, Python's stable sort with and without \<open>reverse\<close>, the exceptions a handler can raise,
  decimal printing and parsing, the string methods the sources call, and the generic state
  machine interface (\<open>state_machine\<close>) through which the invariants of the stateful components
  are proved. Python's \<open>str\<close> is \<open>string\<close>; the sources' non-ASCII text is outside the model.
\<close>

named_theorems dict_simps \<open>equations of the Python dictionary operations\<close>

section \<open>Exceptions\<close>

text \<open>\<open>models/api.py\<close>: the WebSocket error codes the modelled handlers raise.\<close>

datatype ErrorCode =
    INVALID_MESSAGE | UNKNOWN_COMMAND | INVALID_ARGS | NOT_FOUND | ALREADY_EXISTS
  | INTERNAL_ERROR | NOT_AUTHENTICATED | RATE_LIMITED | UNAVAILABLE | PRECONDITION_FAILED
  | NO_PAIRING_WINDOW | NO_COMPATIBLE_PEER

text \<open>
  What a handler can raise: \<open>CommandError\<close> is \<open>helpers/api.py\<close>'s class with its code and message,
  the others are Python's own classes.
\<close>

datatype exn =
    CommandError ErrorCode string
  | ValueError string
  | RuntimeError string
  | TypeError string
  | FileNotFoundError string
  | OSError string

type_synonym 'a result = "exn + 'a"

fun is_command_error :: "ErrorCode \<Rightarrow> 'a result \<Rightarrow> bool" where
  "is_command_error c (Inl (CommandError c' m)) = (c = c')"
| "is_command_error c r = False"

section \<open>Values of the metadata and wire dictionaries\<close>

text \<open>A JSON value, as \<open>json.loads\<close> gives it to the decoders; \<open>isinstance\<close> tests are constructor tests.\<close>

datatype json =
    JNull
  | JBool bool
  | JNum int
  | JStr string
  | JList "json list"
  | JDict "(string \<times> json) list"

section \<open>Python dictionaries\<close>

text \<open>
  A \<open>dict\<close> keeps its insertion order: writing an existing key keeps its place, a new key goes to
  the end. \<open>AList.update\<close> does exactly this.
\<close>

type_synonym ('k, 'v) dict = "('k \<times> 'v) list"

abbreviation dict_get :: "('k, 'v) dict \<Rightarrow> 'k \<Rightarrow> 'v option" where
  "dict_get d k \<equiv> map_of d k"

abbreviation dict_set :: "'k \<Rightarrow> 'v \<Rightarrow> ('k, 'v) dict \<Rightarrow> ('k, 'v) dict" where
  "dict_set \<equiv> AList.update"

abbreviation dict_pop :: "'k \<Rightarrow> ('k, 'v) dict \<Rightarrow> ('k, 'v) dict" where
  "dict_pop \<equiv> AList.delete"

abbreviation dict_keys :: "('k, 'v) dict \<Rightarrow> 'k list" where
  "dict_keys d \<equiv> map fst d"

abbreviation dict_values :: "('k, 'v) dict \<Rightarrow> 'v list" where
  "dict_values d \<equiv> map snd d"

definition dict_ok :: "('k, 'v) dict \<Rightarrow> bool" where
  "dict_ok d \<longleftrightarrow> distinct (dict_keys d)"

lemma dict_ok_Nil [simp, dict_simps]: "dict_ok []"
  by (simp add: dict_ok_def)

lemma dict_ok_set [simp, dict_simps]: "dict_ok d \<Longrightarrow> dict_ok (dict_set k v d)"
  by (simp add: dict_ok_def distinct_update)

lemma dict_ok_pop [simp, dict_simps]: "dict_ok d \<Longrightarrow> dict_ok (dict_pop k d)"
  by (simp add: dict_ok_def distinct_delete)

lemma dict_get_set [simp, dict_simps]:
  "dict_get (dict_set k v d) k' = (if k' = k then Some v else dict_get d k')"
  by (simp add: update_conv')

lemma dict_get_pop [simp, dict_simps]:
  "dict_get (dict_pop k d) k' = (if k' = k then None else dict_get d k')"
  by (simp add: delete_conv')

lemma dict_keys_set [dict_simps]:
  "dict_keys (dict_set k v d) = (if k \<in> set (dict_keys d) then dict_keys d else dict_keys d @ [k])"
  by (simp add: update_keys)

lemma dict_keys_pop [dict_simps]: "dict_keys (dict_pop k d) = filter (\<lambda>k'. k' \<noteq> k) (dict_keys d)"
  by (induction d) (auto simp: AList.delete_eq)

lemma set_dict_pop [dict_simps]: "set (dict_pop k d) = {e \<in> set d. fst e \<noteq> k}"
  by (auto simp: AList.delete_eq)

lemma dict_get_None_iff: "dict_get d k = None \<longleftrightarrow> k \<notin> set (dict_keys d)"
  by (simp add: map_of_eq_None_iff)

lemma fst_image_dict_set: "fst ` set (dict_set k v d) = insert k (fst ` set d)"
proof -
  have "set (dict_keys (dict_set k v d)) = insert k (set (dict_keys d))"
    by (simp add: dict_keys_set insert_absorb del: set_map)
  then show ?thesis by simp
qed

lemma dict_set_member: "(t', x') \<in> set (dict_set t x d) \<Longrightarrow> (t', x') = (t, x) \<or> (t', x') \<in> set d"
  by (induction d) (auto split: if_splits)

text \<open>
  The ordered key list of a dictionary whose values live in an object store: \<open>keys_add\<close> is what
  assigning \<open>d[k]\<close> does to it, \<open>keys_pop\<close> what removing \<open>k\<close> does.
\<close>

definition keys_add :: "'k \<Rightarrow> 'k list \<Rightarrow> 'k list" where
  "keys_add k ks = (if k \<in> set ks then ks else ks @ [k])"

definition keys_pop :: "'k \<Rightarrow> 'k list \<Rightarrow> 'k list" where
  "keys_pop k ks = filter (\<lambda>k'. k' \<noteq> k) ks"

lemma set_keys_add [simp, dict_simps]: "set (keys_add k ks) = insert k (set ks)"
  by (auto simp: keys_add_def)

lemma set_keys_pop [simp, dict_simps]: "set (keys_pop k ks) = set ks - {k}"
  by (auto simp: keys_pop_def)

lemma distinct_keys_add [simp, dict_simps]: "distinct ks \<Longrightarrow> distinct (keys_add k ks)"
  by (auto simp: keys_add_def)

lemma distinct_keys_pop [simp, dict_simps]: "distinct ks \<Longrightarrow> distinct (keys_pop k ks)"
  by (simp add: keys_pop_def)

lemma keys_pop_notin [simp, dict_simps]: "k \<notin> set ks \<Longrightarrow> keys_pop k ks = ks"
  by (auto simp: keys_pop_def intro!: filter_True)

lemma keys_pop_keys_add [simp]: "k \<notin> set ks \<Longrightarrow> keys_pop k (keys_add k ks) = ks"
  by (auto simp: keys_add_def keys_pop_def intro!: filter_True)

lemma length_keys_pop_le: "length (keys_pop k ks) \<le> length ks"
  by (simp add: keys_pop_def)

section \<open>Python's sort\<close>

text \<open>
  \<open>list.sort(key=f)\<close> is stable, and \<open>reverse=True\<close> keeps the order of equal elements: the list is
  reversed, sorted and reversed again.
\<close>

definition sort_by :: "('a \<Rightarrow> 'b::linorder) \<Rightarrow> 'a list \<Rightarrow> 'a list" where
  "sort_by f xs = sort_key f xs"

definition sort_by_desc :: "('a \<Rightarrow> 'b::linorder) \<Rightarrow> 'a list \<Rightarrow> 'a list" where
  "sort_by_desc f xs = rev (sort_key f (rev xs))"

lemma set_sort_by [simp]: "set (sort_by f xs) = set xs"
  by (simp add: sort_by_def)

lemma set_sort_by_desc [simp]: "set (sort_by_desc f xs) = set xs"
  by (simp add: sort_by_desc_def)

lemma distinct_sort_by [simp]: "distinct (sort_by f xs) = distinct xs"
  by (simp add: sort_by_def)

lemma distinct_sort_by_desc [simp]: "distinct (sort_by_desc f xs) = distinct xs"
  by (simp add: sort_by_desc_def)

lemma length_sort_by_desc [simp]: "length (sort_by_desc f xs) = length xs"
  by (simp add: sort_by_desc_def)

lemma mset_sort_by_desc [simp]: "mset (sort_by_desc f xs) = mset xs"
  by (simp add: sort_by_desc_def)

lemma sorted_wrt_sort_by: "sorted_wrt (\<lambda>x y. f x \<le> f y) (sort_by f xs)"
  using sorted_sort_key [of f xs] by (simp add: sort_by_def sorted_map)

lemma sorted_wrt_sort_by_desc: "sorted_wrt (\<lambda>x y. f y \<le> f x) (sort_by_desc f xs)"
  using sorted_sort_key [of f "rev xs"]
  by (simp add: sort_by_desc_def sorted_map sorted_wrt_rev)

text \<open>Stability: elements with the same key keep their relative order, also when reversed.\<close>

lemma sort_by_stable: "filter (\<lambda>x. f x = k) (sort_by f xs) = filter (\<lambda>x. f x = k) xs"
  by (simp add: sort_by_def sort_key_stable)

lemma sort_by_desc_stable: "filter (\<lambda>x. f x = k) (sort_by_desc f xs) = filter (\<lambda>x. f x = k) xs"
  by (simp add: sort_by_desc_def rev_filter [symmetric] sort_key_stable)

lemma sort_by_desc_id: "sorted_wrt (\<lambda>x y. f y \<le> f x) xs \<Longrightarrow> sort_by_desc f xs = xs"
  by (simp add: sort_by_desc_def sort_key_id_if_sorted sorted_map sorted_wrt_rev)

text \<open>With a key that is injective on the elements, the result does not depend on their order.\<close>

lemma map_sort_by: "map f (sort_by f xs) = sort (map f xs)"
  by (rule properties_for_sort [symmetric]) (simp_all add: sort_by_def)

lemma sort_by_perm:
  assumes "set xs = set ys" "distinct xs" "distinct ys" "inj_on f (set xs)"
  shows "sort_by f xs = sort_by f ys"
proof -
  have "mset xs = mset ys" using assms by (simp add: set_eq_iff_mset_eq_distinct)
  then have "sort (map f xs) = sort (map f ys)" by (intro properties_for_sort) simp_all
  then have "map f (sort_by f xs) = map f (sort_by f ys)" by (simp only: map_sort_by)
  then show ?thesis using assms by (auto intro: map_inj_on [of f])
qed

section \<open>Comprehensions with a filter\<close>

text \<open>\<open>[y for x in xs if (y := f(x)) is not None]\<close>, one element at a time.\<close>

lemma map_filter_append [simp]: "List.map_filter f (xs @ ys) = List.map_filter f xs @ List.map_filter f ys"
  by (simp add: List.map_filter_def)

lemma map_filter_Nil [simp]: "List.map_filter f [] = []"
  by (simp add: map_filter_simps)

lemma map_filter_Cons [simp]:
  "List.map_filter f (x # xs) = (case f x of None \<Rightarrow> [] | Some y \<Rightarrow> [y]) @ List.map_filter f xs"
  by (simp add: map_filter_simps split: option.split)

lemma find_SomeD: "List.find P xs = Some x \<Longrightarrow> x \<in> set xs \<and> P x"
  by (auto simp: find_Some_iff)

section \<open>Step relations\<close>

text \<open>
  The states a step relation reaches from its initial ones, and the interface through which the
  stateful components prove their invariants: a component supplies its initial states, its steps and
  an invariant that holds initially and is kept by every step out of a reachable state.
\<close>

inductive reachable :: "('s \<Rightarrow> bool) \<Rightarrow> ('s \<Rightarrow> 's \<Rightarrow> bool) \<Rightarrow> 's \<Rightarrow> bool"
  for init :: "'s \<Rightarrow> bool" and step :: "'s \<Rightarrow> 's \<Rightarrow> bool" where
  reachable_init: "init s \<Longrightarrow> reachable init step s"
| reachable_step: "reachable init step s \<Longrightarrow> step s s' \<Longrightarrow> reachable init step s'"

locale state_machine =
  fixes init :: "'s \<Rightarrow> bool" and step :: "'s \<Rightarrow> 's \<Rightarrow> bool" and inv :: "'s \<Rightarrow> bool"
  assumes inv_init: "init s \<Longrightarrow> inv s"
    and inv_step: "reachable init step s \<Longrightarrow> inv s \<Longrightarrow> step s s' \<Longrightarrow> inv s'"
begin

lemma invariant: "reachable init step s \<Longrightarrow> inv s"
  by (induction rule: reachable.induct) (auto intro: inv_init inv_step)

text \<open>A relation that every step of an invariant state respects holds along every run.\<close>

lemma along:
  assumes "\<And>s. inv s \<Longrightarrow> R s s" "\<And>s t u. inv s \<Longrightarrow> R s t \<Longrightarrow> R t u \<Longrightarrow> R s u"
    "\<And>s s'. inv s \<Longrightarrow> step s s' \<Longrightarrow> R s s'" "step\<^sup>*\<^sup>* s s'" "reachable init step s"
  shows "R s s' \<and> reachable init step s'"
  using assms(4,5)
proof (induction rule: rtranclp_induct)
  case base
  then show ?case using assms(1) invariant by blast
next
  case (step y z)
  then have "R s y" "reachable init step y" by blast+
  then show ?case using assms(2,3) invariant [of s] invariant [of y] step.prems step.hyps(2) reachable_step by metis
qed

end

end
