(* ===== verification/PyRegex.thy ===== *)
theory PyRegex
  imports Strings
begin

text \<open>
  Python's \<open>re\<close> module, as far as the sources use it: a backtracking matcher that returns all
  ways a pattern can match at a position, in the priority order in which \<open>re\<close> tries them (greedy
  or lazy repetition, left alternative first), with capture groups, \<open>^\<close>, \<open>$\<close> and word boundaries.
  \<open>re_match\<close>, \<open>re_fullmatch\<close>, \<open>re_search\<close>, \<open>re_delete\<close> (\<open>sub\<close> with an empty replacement) and
  \<open>re_findall\<close> are the entry points. The main result is that \<open>re_fullmatch\<close> decides membership
  in the regular language of an anchor-free pattern (\<open>re_fullmatch_iff_lang\<close>).
\<close>

section \<open>Patterns and the matcher\<close>

datatype re =
    Eps
  | Chr "char \<Rightarrow> bool"
  | Seq re re
  | Alt re re
  | Star bool re       \<comment> \<open>greedy if True, lazy if False\<close>
  | Cap nat re
  | Bol
  | Eol
  | WordB

text \<open>A position: the character before it, the text after it, the groups captured so far.\<close>

datatype pos = Pos (prev: "char option") (rest: string) (caps: "(nat \<times> string) list")

definition word_at :: "char option \<Rightarrow> bool" where
  "word_at c = (case c of None \<Rightarrow> False | Some x \<Rightarrow> is_word x)"

definition next_char :: "string \<Rightarrow> char option" where
  "next_char s = (case s of [] \<Rightarrow> None | c # _ \<Rightarrow> Some c)"

text \<open>
  Repetition: each round must consume, so the text left bounds the rounds. Greedy tries one more
  round first, lazy tries to stop first.
\<close>

primrec star_from :: "bool \<Rightarrow> (pos \<Rightarrow> pos list) \<Rightarrow> nat \<Rightarrow> pos \<Rightarrow> pos list" where
  "star_from g f 0 p = [p]"
| "star_from g f (Suc n) p =
     (let more = List.concat (map (star_from g f n)
                   (filter (\<lambda>q. length (rest q) < length (rest p)) (f p)))
      in if g then more @ [p] else p # more)"

primrec matches :: "re \<Rightarrow> pos \<Rightarrow> pos list" where
  "matches Eps p = [p]"
| "matches (Chr f) p =
     (case rest p of [] \<Rightarrow> [] | c # cs \<Rightarrow> if f c then [Pos (Some c) cs (caps p)] else [])"
| "matches (Seq r s) p = List.concat (map (matches s) (matches r p))"
| "matches (Alt r s) p = matches r p @ matches s p"
| "matches (Star g r) p = star_from g (matches r) (length (rest p)) p"
| "matches (Cap k r) p =
     map (\<lambda>q. Pos (prev q) (rest q)
                ((k, take (length (rest p) - length (rest q)) (rest p)) # caps q)) (matches r p)"
| "matches Bol p = (if prev p = None then [p] else [])"
| "matches Eol p = (if rest p = [] \<or> rest p = [CHR 0x0A] then [p] else [])"
| "matches WordB p = (if word_at (prev p) \<noteq> word_at (next_char (rest p)) then [p] else [])"

section \<open>Entry points\<close>

definition re_match :: "re \<Rightarrow> string \<Rightarrow> pos option" where
  "re_match r s = (case matches r (Pos None s []) of [] \<Rightarrow> None | q # _ \<Rightarrow> Some q)"

definition re_fullmatch :: "re \<Rightarrow> string \<Rightarrow> pos option" where
  "re_fullmatch r s = List.find (\<lambda>q. rest q = []) (matches r (Pos None s []))"

fun re_search_from :: "re \<Rightarrow> char option \<Rightarrow> string \<Rightarrow> pos option" where
  "re_search_from r pv s =
     (case matches r (Pos pv s []) of
        q # _ \<Rightarrow> Some q
      | [] \<Rightarrow> (case s of [] \<Rightarrow> None | c # cs \<Rightarrow> re_search_from r (Some c) cs))"

declare re_search_from.simps [simp del]

definition re_search :: "re \<Rightarrow> string \<Rightarrow> pos option" where
  "re_search r s = re_search_from r None s"

definition group :: "nat \<Rightarrow> pos \<Rightarrow> string option" where
  "group k q = map_of (caps q) k"

text \<open>\<open>r.sub("", s)\<close> and \<open>r.findall(s)\<close>; a match that consumes nothing is stepped over.\<close>

function re_delete_from :: "re \<Rightarrow> char option \<Rightarrow> string \<Rightarrow> string" where
  "re_delete_from r pv [] = []"
| "re_delete_from r pv (c # cs) =
     (case matches r (Pos pv (c # cs) []) of
        q # _ \<Rightarrow> if length (rest q) < length (c # cs) then re_delete_from r (prev q) (rest q)
                 else c # re_delete_from r (Some c) cs
      | [] \<Rightarrow> c # re_delete_from r (Some c) cs)"
  by pat_completeness auto
termination
  by (relation "measure (\<lambda>(r, pv, s). length s)") auto

definition re_delete :: "re \<Rightarrow> string \<Rightarrow> string" where
  "re_delete r s = re_delete_from r None s"

function re_findall_from :: "re \<Rightarrow> char option \<Rightarrow> string \<Rightarrow> string list" where
  "re_findall_from r pv [] = []"
| "re_findall_from r pv (c # cs) =
     (case matches r (Pos pv (c # cs) []) of
        q # _ \<Rightarrow> if length (rest q) < length (c # cs)
                 then take (length (c # cs) - length (rest q)) (c # cs)
                        # re_findall_from r (prev q) (rest q)
                 else re_findall_from r (Some c) cs
      | [] \<Rightarrow> re_findall_from r (Some c) cs)"
  by pat_completeness auto
termination
  by (relation "measure (\<lambda>(r, pv, s). length s)") auto

definition re_findall :: "re \<Rightarrow> string \<Rightarrow> string list" where
  "re_findall r s = re_findall_from r None s"

section \<open>Pattern abbreviations\<close>

abbreviation Lit :: "char \<Rightarrow> re" where
  "Lit c \<equiv> Chr (\<lambda>x. x = c)"

abbreviation Digit :: re where
  "Digit \<equiv> Chr is_digit"

abbreviation Space :: re where
  "Space \<equiv> Chr is_space"

abbreviation Opt :: "re \<Rightarrow> re" where
  "Opt r \<equiv> Alt r Eps"

abbreviation Plus :: "re \<Rightarrow> re" where
  "Plus r \<equiv> Seq r (Star True r)"

primrec Word :: "string \<Rightarrow> re" where
  "Word [] = Eps"
| "Word (c # cs) = Seq (Lit c) (Word cs)"

primrec Seqs :: "re list \<Rightarrow> re" where
  "Seqs [] = Eps"
| "Seqs (r # rs) = Seq r (Seqs rs)"

text \<open>An alternation without choices matches nothing.\<close>

primrec Alts :: "re list \<Rightarrow> re" where
  "Alts [] = Chr (\<lambda>_. False)"
| "Alts (r # rs) = Alt r (Alts rs)"

text \<open>\<open>r{0,n}\<close>, greedy.\<close>

primrec UpTo :: "nat \<Rightarrow> re \<Rightarrow> re" where
  "UpTo 0 r = Eps"
| "UpTo (Suc n) r = Opt (Seq r (UpTo n r))"

section \<open>The regular language of an anchor-free pattern\<close>

primrec anchor_free :: "re \<Rightarrow> bool" where
  "anchor_free Eps = True"
| "anchor_free (Chr f) = True"
| "anchor_free (Seq r s) = (anchor_free r \<and> anchor_free s)"
| "anchor_free (Alt r s) = (anchor_free r \<and> anchor_free s)"
| "anchor_free (Star g r) = anchor_free r"
| "anchor_free (Cap k r) = anchor_free r"
| "anchor_free Bol = False"
| "anchor_free Eol = False"
| "anchor_free WordB = False"

inductive lang :: "re \<Rightarrow> string \<Rightarrow> bool" where
  lang_Eps: "lang Eps []"
| lang_Chr: "f c \<Longrightarrow> lang (Chr f) [c]"
| lang_Seq: "lang r u \<Longrightarrow> lang s v \<Longrightarrow> lang (Seq r s) (u @ v)"
| lang_AltL: "lang r u \<Longrightarrow> lang (Alt r s) u"
| lang_AltR: "lang s u \<Longrightarrow> lang (Alt r s) u"
| lang_Star0: "lang (Star g r) []"
| lang_Star: "lang r u \<Longrightarrow> lang (Star g r) v \<Longrightarrow> lang (Star g r) (u @ v)"
| lang_Cap: "lang r u \<Longrightarrow> lang (Cap k r) u"

inductive_simps lang_Eps_iff [simp]: "lang Eps w"
inductive_simps lang_Chr_iff: "lang (Chr f) w"
inductive_simps lang_Seq_iff: "lang (Seq r s) w"
inductive_simps lang_Alt_iff [simp]: "lang (Alt r s) w"
inductive_simps lang_Cap_iff [simp]: "lang (Cap k r) w"
inductive_cases lang_StarE: "lang (Star g r) w"

lemmas lang_simps = lang_Chr_iff lang_Seq_iff

lemma lang_Word [simp]: "lang (Word s) w \<longleftrightarrow> w = s"
  by (induction s arbitrary: w) (auto simp: lang_simps)

subsection \<open>Every match is a word of the language\<close>

lemma star_from_sound:
  assumes step: "\<And>p q. q \<in> set (f p) \<Longrightarrow> \<exists>w. rest p = w @ rest q \<and> lang r w"
  shows "q \<in> set (star_from g f n p) \<Longrightarrow> \<exists>w. rest p = w @ rest q \<and> lang (Star g r) w"
proof (induction n arbitrary: p)
  case 0
  then show ?case by (auto intro: lang_Star0)
next
  case (Suc n)
  show ?case
  proof (cases "q = p")
    case True
    then show ?thesis by (auto intro: lang_Star0)
  next
    case False
    with Suc.prems obtain p' where p': "p' \<in> set (f p)" and q: "q \<in> set (star_from g f n p')"
      by (auto simp: Let_def split: if_splits)
    from step [OF p'] obtain u where u: "rest p = u @ rest p'" "lang r u" by blast
    from Suc.IH [OF q] obtain v where v: "rest p' = v @ rest q" "lang (Star g r) v" by blast
    have "rest p = (u @ v) @ rest q" using u v by simp
    moreover have "lang (Star g r) (u @ v)" using u v by (auto intro: lang_Star)
    ultimately show ?thesis by blast
  qed
qed

lemma matches_sound:
  "q \<in> set (matches r p) \<Longrightarrow> anchor_free r \<Longrightarrow> \<exists>w. rest p = w @ rest q \<and> lang r w"
proof (induction r arbitrary: p q)
  case (Chr f)
  then show ?case by (cases "rest p") (auto simp: lang_simps split: if_splits)
next
  case (Seq r s)
  from Seq.prems obtain q' where q': "q' \<in> set (matches r p)" and q: "q \<in> set (matches s q')"
    by auto
  from Seq.IH(1) [OF q'] Seq.prems obtain u where u: "rest p = u @ rest q'" "lang r u" by auto
  from Seq.IH(2) [OF q] Seq.prems obtain v where v: "rest q' = v @ rest q" "lang s v" by auto
  then show ?case using u by (auto intro!: exI [of _ "u @ v"] lang_Seq)
next
  case (Alt r s)
  then consider "q \<in> set (matches r p)" | "q \<in> set (matches s p)" by auto
  then show ?case
    by cases (use Alt.IH(1) [of q p] Alt.IH(2) [of q p] Alt.prems(2) in auto)
next
  case (Star g r)
  then show ?case using star_from_sound [of "matches r" r q g] by auto
qed auto

subsection \<open>Every word of the language is matched\<close>

lemma set_star_from_Suc:
  "set (star_from g f (Suc n) p) =
     insert p (\<Union>p' \<in> {q \<in> set (f p). length (rest q) < length (rest p)}. set (star_from g f n p'))"
  by (auto simp: Let_def)

declare star_from.simps(2) [simp del]

lemma star_from_complete:
  assumes "lang (Star g r) w" "rest p = w @ v" "length w \<le> n"
    and step: "\<And>u p v. lang r u \<Longrightarrow> rest p = u @ v \<Longrightarrow> \<exists>q \<in> set (f p). rest q = v"
  shows "\<exists>q \<in> set (star_from g f n p). rest q = v"
  using assms(1-3)
proof (induction n arbitrary: w p)
  case 0
  then show ?case by auto
next
  case (Suc n)
  have "w = [] \<or> (\<exists>u v'. w = u @ v' \<and> u \<noteq> [] \<and> lang r u \<and> lang (Star g r) v')"
    using Suc.prems(1)
  proof (induction "Star g r" w rule: lang.induct)
    case (lang_Star u v)
    then show ?case by (cases "u = []") auto
  qed simp
  then show ?case
  proof
    assume "w = []"
    then show ?case using Suc.prems(2) by (auto simp: set_star_from_Suc)
  next
    assume "\<exists>u v'. w = u @ v' \<and> u \<noteq> [] \<and> lang r u \<and> lang (Star g r) v'"
    then obtain u v' where w: "w = u @ v'" "u \<noteq> []" "lang r u" "lang (Star g r) v'" by blast
    obtain p' where p': "p' \<in> set (f p)" "rest p' = v' @ v"
      using step [OF w(3), of p "v' @ v"] Suc.prems(2) w(1) by auto
    have "length (rest p') < length (rest p)" using p' Suc.prems(2) w by simp
    moreover have "\<exists>q \<in> set (star_from g f n p'). rest q = v"
      using Suc.IH [OF w(4) p'(2)] Suc.prems(3) w(1,2) by (cases u) auto
    ultimately show ?case using p'(1) by (auto simp: set_star_from_Suc)
  qed
qed

lemma matches_complete:
  "lang r w \<Longrightarrow> rest p = w @ v \<Longrightarrow> \<exists>q \<in> set (matches r p). rest q = v"
proof (induction r arbitrary: w p v)
  case (Seq r s)
  from Seq.prems obtain a b where w: "w = a @ b" "lang r a" "lang s b" by (auto simp: lang_simps)
  obtain p' where p': "p' \<in> set (matches r p)" "rest p' = b @ v"
    using Seq.IH(1) [OF w(2), of p "b @ v"] Seq.prems(2) w(1) by auto
  then show ?case using Seq.IH(2) [OF w(3) p'(2)] by auto
next
  case (Alt r s)
  from Alt.prems(1) consider "lang r w" | "lang s w" by auto
  then show ?case
    by cases (use Alt.IH(1) [of w p v] Alt.IH(2) [of w p v] Alt.prems(2) in auto)
next
  case (Star g r)
  then show ?case using star_from_complete [OF Star.prems, of "length (rest p)" "matches r"] by auto
qed (auto simp: lang_simps elim: lang.cases)

theorem re_fullmatch_iff_lang:
  assumes "anchor_free r"
  shows "re_fullmatch r s \<noteq> None \<longleftrightarrow> lang r s"
proof
  assume "re_fullmatch r s \<noteq> None"
  then obtain q where "q \<in> set (matches r (Pos None s []))" "rest q = []"
    by (auto simp: re_fullmatch_def find_Some_iff in_set_conv_nth)
  then show "lang r s" using matches_sound assms by fastforce
next
  assume "lang r s"
  then obtain q where "q \<in> set (matches r (Pos None s []))" "rest q = []"
    using matches_complete [of r s "Pos None s []" "[]"] by auto
  then show "re_fullmatch r s \<noteq> None"
    by (auto simp: re_fullmatch_def find_None_iff)
qed

text \<open>A full match is one of the matcher's results.\<close>

lemma re_fullmatch_SomeD:
  "re_fullmatch r s = Some q \<Longrightarrow> q \<in> set (matches r (Pos None s [])) \<and> rest q = []"
  by (auto simp: re_fullmatch_def find_Some_iff)

section \<open>Captures\<close>

lemma in_matches_Seq:
  "q \<in> set (matches (Seq r s) p) \<longleftrightarrow> (\<exists>q1 \<in> set (matches r p). q \<in> set (matches s q1))"
  by auto

lemma in_matches_Alt:
  "q \<in> set (matches (Alt r s) p) \<longleftrightarrow> q \<in> set (matches r p) \<or> q \<in> set (matches s p)"
  by auto

lemma in_matches_Eps: "q \<in> set (matches Eps p) \<longleftrightarrow> q = p"
  by auto

lemmas in_matches = in_matches_Seq in_matches_Alt in_matches_Eps

text \<open>A pattern without groups leaves the captures as they are; a group captures what it consumed.\<close>

primrec cap_free :: "re \<Rightarrow> bool" where
  "cap_free Eps = True"
| "cap_free (Chr f) = True"
| "cap_free (Seq r s) = (cap_free r \<and> cap_free s)"
| "cap_free (Alt r s) = (cap_free r \<and> cap_free s)"
| "cap_free (Star g r) = cap_free r"
| "cap_free (Cap k r) = False"
| "cap_free Bol = True"
| "cap_free Eol = True"
| "cap_free WordB = True"

lemma star_from_caps:
  "(\<And>p q. q \<in> set (f p) \<Longrightarrow> caps q = caps p) \<Longrightarrow> q \<in> set (star_from g f n p) \<Longrightarrow> caps q = caps p"
proof (induction n arbitrary: p)
  case (Suc n)
  then show ?case by (auto simp: set_star_from_Suc)
qed simp

lemma matches_caps: "q \<in> set (matches r p) \<Longrightarrow> cap_free r \<Longrightarrow> caps q = caps p"
proof (induction r arbitrary: p q)
  case (Chr f)
  then show ?case by (cases "rest p") (auto split: if_splits)
next
  case (Star g r)
  then show ?case using star_from_caps [of "matches r" q g] by auto
qed (auto split: if_splits)

lemma matches_Cap:
  assumes "q \<in> set (matches (Cap k r) p)" "anchor_free r" "cap_free r"
  shows "\<exists>w. rest p = w @ rest q \<and> lang r w \<and> caps q = (k, w) # caps p"
proof -
  from assms(1) obtain q' where q': "q' \<in> set (matches r p)"
    and q: "q = Pos (prev q') (rest q') ((k, take (length (rest p) - length (rest q')) (rest p)) # caps q')"
    by auto
  from matches_sound [OF q' assms(2)] obtain w where "rest p = w @ rest q'" "lang r w" by blast
  with q matches_caps [OF q' assms(3)] show ?thesis by auto
qed

section \<open>Greedy repetition of a character class\<close>

lemma matches_Chr:
  "matches (Chr f) (Pos pv [] cs) = []"
  "matches (Chr f) (Pos pv (c # s) cs) = (if f c then [Pos (Some c) s cs] else [])"
  by simp_all

lemma star_class:
  "\<forall>c \<in> set d. f c \<Longrightarrow> s = [] \<or> \<not> f (hd s) \<Longrightarrow> length d \<le> n \<Longrightarrow>
     \<exists>qs. star_from True (matches (Chr f)) n (Pos pv (d @ s) cs) =
       Pos (if d = [] then pv else Some (last d)) s cs # qs"
proof (induction d arbitrary: pv n)
  case Nil
  then show ?case by (cases n; cases s) (auto simp: star_from.simps(2))
next
  case (Cons c d)
  then obtain m where n: "n = Suc m" by (cases n) auto
  from Cons obtain qs where
    "star_from True (matches (Chr f)) m (Pos (Some c) (d @ s) cs) =
       Pos (if d = [] then Some c else Some (last d)) s cs # qs"
    by (metis le_Suc_eq length_Cons list.set_intros(2) n Suc_le_mono)
  then show ?case
    using Cons.prems n by (auto simp: star_from.simps(2) matches_Chr simp del: matches.simps)
qed

lemma matches_Star_greedy:
  assumes "\<forall>c \<in> set d. f c" "s = [] \<or> \<not> f (hd s)"
  shows "\<exists>qs. matches (Star True (Chr f)) (Pos pv (d @ s) cs) =
     Pos (if d = [] then pv else Some (last d)) s cs # qs"
  using star_class [OF assms, of "length (d @ s)" pv cs] by simp

lemma matches_Plus_greedy:
  assumes "d \<noteq> []" "\<forall>c \<in> set d. f c" "s = [] \<or> \<not> f (hd s)"
  shows "\<exists>qs. matches (Plus (Chr f)) (Pos pv (d @ s) cs) = Pos (Some (last d)) s cs # qs"
proof -
  obtain c e where d: "d = c # e" using assms(1) by (cases d) auto
  then show ?thesis
    using star_class [of e f s "length (e @ s)" "Some c" cs] assms by auto
qed

lemma matches_Word: "\<exists>pv'. matches (Word w) (Pos pv (w @ s) cs) = [Pos pv' s cs]"
  by (induction w arbitrary: pv) auto

end
