(* ===== verification/Version_Compat.thy ===== *)
theory Version_Compat
  imports PyRegex
begin

text \<open>
  \<open>helpers/version_compat.py\<close>: the recognisers for esphome version strings, the sort key of a
  pinnable version, the release-line and version comparisons, and the offloader's version-match
  policy. The regular expressions are the source's, as terms of \<open>re\<close>. The lemmas relate the
  recognisers (release \<open>\<subseteq>\<close> pinnable \<open>\<subseteq>\<close> PEP 440), show that the sort key is defined exactly on the
  pinnable versions and decodes what was printed, and that the policies are ordered by strictness.
\<close>

section \<open>Recognisers\<close>

definition ci :: "char \<Rightarrow> re" where
  "ci c = Chr (\<lambda>x. char_lower x = c)"

definition ci_word :: "string \<Rightarrow> re" where
  "ci_word s = Seqs (map ci s)"

definition sep_class :: re where
  "sep_class = Chr (\<lambda>x. x \<in> {CHR ''-'', CHR ''_'', CHR ''.''})"

definition alnum_ci :: re where
  "alnum_ci = Chr (\<lambda>x. is_lower (char_lower x) \<or> is_digit x)"

definition release_segment :: re where
  "release_segment = Seq (Plus Digit) (Star True (Seq (Lit CHR ''.'') (Plus Digit)))"

definition PEP440_PRE_RE :: re where
  "PEP440_PRE_RE = Seqs [Opt sep_class,
       Alts [ci_word ''a'', ci_word ''b'', ci_word ''c'', ci_word ''rc'', ci_word ''alpha'',
             ci_word ''beta'', ci_word ''pre'', ci_word ''preview''],
       Opt sep_class, Star True Digit]"

definition PEP440_RE :: re where
  "PEP440_RE = Seqs [
     Opt (ci CHR ''v''),
     Opt (Seq (Plus Digit) (Lit CHR ''!'')),
     release_segment,
     Opt PEP440_PRE_RE,
     Opt (Alt (Seqs [Opt sep_class, ci_word ''post'', Opt sep_class, Star True Digit])
              (Seq (Lit CHR ''-'') (Plus Digit))),
     Opt (Seqs [Opt sep_class, ci_word ''dev'', Opt sep_class, Star True Digit]),
     Opt (Seqs [Lit CHR ''+'', Plus alnum_ci, Star True (Seq sep_class (Plus alnum_ci))])]"

definition is_pep440_version :: "string \<Rightarrow> bool" where
  "is_pep440_version version \<longleftrightarrow> re_fullmatch PEP440_RE version \<noteq> None"

definition coerce_pep440_version :: "json \<Rightarrow> nat \<Rightarrow> string" where
  "coerce_pep440_version value max_len =
     (case value of
        JStr s \<Rightarrow> if length s > max_len \<or> \<not> is_pep440_version s then [] else s
      | _ \<Rightarrow> [])"

definition RELEASE_RE :: re where
  "RELEASE_RE = release_segment"

definition is_release_version :: "string \<Rightarrow> bool" where
  "is_release_version version \<longleftrightarrow> re_fullmatch RELEASE_RE version \<noteq> None"

definition pre_tag :: re where
  "pre_tag = Alts [Word ''a'', Word ''b'', Word ''rc'']"

definition PINNABLE_RE :: re where
  "PINNABLE_RE = Seq release_segment (Opt (Seq pre_tag (Plus Digit)))"

definition is_pinnable_version :: "string \<Rightarrow> bool" where
  "is_pinnable_version version \<longleftrightarrow> re_fullmatch PINNABLE_RE version \<noteq> None"

section \<open>The sort key of a pinnable version\<close>

definition PINNABLE_KEY_RE :: re where
  "PINNABLE_KEY_RE =
     Seq (Cap 1 release_segment) (Opt (Seq (Cap 2 pre_tag) (Cap 3 (Plus Digit))))"

definition PRE_ORDER :: "string \<Rightarrow> nat" where
  "PRE_ORDER tag = (if tag = ''a'' then 0 else if tag = ''b'' then 1 else 2)"

type_synonym version_key = "nat list \<times> nat \<times> nat \<times> nat"

text \<open>The \<open>while\<close> loop that pops trailing zero parts, at least one part staying.\<close>

function drop_trailing_zeros :: "nat list \<Rightarrow> nat list" where
  "drop_trailing_zeros parts =
     (if length parts > 1 \<and> last parts = 0 then drop_trailing_zeros (butlast parts) else parts)"
  by pat_completeness auto
termination
  by (relation "measure length") auto

declare drop_trailing_zeros.simps [simp del]

definition pinnable_version_key :: "string \<Rightarrow> version_key result" where
  "pinnable_version_key version =
     (case re_fullmatch PINNABLE_KEY_RE version of
        None \<Rightarrow> Inl (ValueError (''not a pinnable version: '' @ version))
      | Some q \<Rightarrow>
          let parts = drop_trailing_zeros
                (map read_nat (split_on CHR ''.'' (case group 1 q of Some g \<Rightarrow> g | None \<Rightarrow> [])))
          in (case group 2 q of
                None \<Rightarrow> Inr (parts, 1, 0, 0)
              | Some tag \<Rightarrow>
                  Inr (parts, 0, PRE_ORDER tag,
                       read_nat (case group 3 q of Some g \<Rightarrow> g | None \<Rightarrow> []))))"

section \<open>Release lines and the comparison with a minimum\<close>

definition RELEASE_LINE_RE :: re where
  "RELEASE_LINE_RE = Seqs [Bol, Opt (Lit CHR ''v''), Cap 1 (Plus Digit), Lit CHR ''.'',
     Cap 2 (Plus Digit)]"

definition release_line :: "string \<Rightarrow> (nat \<times> nat) option" where
  "release_line version =
     (case re_match RELEASE_LINE_RE version of
        None \<Rightarrow> None
      | Some q \<Rightarrow> (case (group 1 q, group 2 q) of
                     (Some y, Some m) \<Rightarrow> Some (read_nat y, read_nat m)
                   | _ \<Rightarrow> None))"

definition release_line_at_least :: "string \<Rightarrow> nat \<times> nat \<Rightarrow> bool" where
  "release_line_at_least version minimum =
     (case release_line version of None \<Rightarrow> False | Some line \<Rightarrow> line \<ge> minimum)"

definition strip_local :: "string \<Rightarrow> string" where
  "strip_local version = takeWhile (\<lambda>c. c \<noteq> CHR ''+'') version"

definition version_at_least :: "string \<Rightarrow> string \<Rightarrow> bool" where
  "version_at_least version0 minimum0 =
     (let version = strip_local version0; minimum = strip_local minimum0 in
      if is_pinnable_version version \<and> is_pinnable_version minimum
      then (case (pinnable_version_key version, pinnable_version_key minimum) of
              (Inr kv, Inr km) \<Rightarrow> kv \<ge> km
            | _ \<Rightarrow> False)   \<comment> \<open>not reached: \<open>pinnable_key_iff\<close>\<close>
      else (case release_line minimum of
              None \<Rightarrow> False
            | Some line \<Rightarrow> release_line_at_least version line))"

section \<open>Version-match policy\<close>

datatype VersionMatchPolicy = ANY | RELEASE | EXACT | EXACT_REQUIRED

definition DIGITS_PREFIX_RE :: re where
  "DIGITS_PREFIX_RE = Seq Bol (Cap 1 (Plus Digit))"

definition release_key :: "string \<Rightarrow> string" where
  "release_key version =
     (let parts = split_on CHR ''.'' version;
          year = (case parts of [] \<Rightarrow> [] | p # _ \<Rightarrow> p);
          month_raw = (case parts of _ # m # _ \<Rightarrow> m | _ \<Rightarrow> []);
          month = (case re_match DIGITS_PREFIX_RE month_raw of
                     None \<Rightarrow> month_raw
                   | Some q \<Rightarrow> (case group 1 q of Some g \<Rightarrow> g | None \<Rightarrow> month_raw))
      in year @ ''.'' @ month)"

definition major_versions_match :: "string \<Rightarrow> string \<Rightarrow> bool" where
  "major_versions_match local peer =
     (if local = [] \<or> peer = [] then True
      else if local = peer then True
      else release_key local = release_key peer)"

definition versions_match_exactly :: "string \<Rightarrow> string \<Rightarrow> bool" where
  "versions_match_exactly local peer =
     (if local = [] \<or> peer = [] then True else local = peer)"

fun version_satisfies_policy :: "string \<Rightarrow> string \<Rightarrow> VersionMatchPolicy \<Rightarrow> bool" where
  "version_satisfies_policy local peer ANY = True"
| "version_satisfies_policy local peer RELEASE = major_versions_match local peer"
| "version_satisfies_policy local peer EXACT = versions_match_exactly local peer"
| "version_satisfies_policy local peer EXACT_REQUIRED = (local \<noteq> [] \<and> peer \<noteq> [] \<and> local = peer)"

section \<open>The recognisers as languages\<close>

lemma lang_Seq_Chr:
  "lang (Seq (Chr f) r) w \<longleftrightarrow> (\<exists>c v. w = c # v \<and> f c \<and> lang r v)"
proof
  assume "lang (Seq (Chr f) r) w"
  then show "\<exists>c v. w = c # v \<and> f c \<and> lang r v" by (auto simp: lang_Seq_iff lang_Chr_iff)
next
  assume "\<exists>c v. w = c # v \<and> f c \<and> lang r v"
  then obtain c v where "w = [c] @ v" "f c" "lang r v" by auto
  then show "lang (Seq (Chr f) r) w" by (simp only: lang_Seq lang_Chr)
qed

lemma lang_ci_word: "lang (ci_word s) w \<longleftrightarrow> map char_lower w = s"
proof (induction s arbitrary: w)
  case (Cons c s)
  then show ?case
    by (cases w) (auto simp: ci_word_def ci_def lang_Seq_Chr)
qed (simp add: ci_word_def)

lemma lang_Star_closure: "\<forall>v \<in> set vs. lang r v \<Longrightarrow> lang (Star g r) (List.concat vs)"
  by (induction vs) (auto intro: lang_Star0 lang_Star)

lemma lang_Star_decomp: "lang (Star g r) w \<Longrightarrow> \<exists>vs. w = List.concat vs \<and> (\<forall>v \<in> set vs. lang r v)"
proof (induction "Star g r" w rule: lang.induct)
  case lang_Star0
  then show ?case by (intro exI [of _ "[]"]) simp
next
  case (lang_Star u v)
  then obtain vs where "v = List.concat vs" "\<forall>x \<in> set vs. lang r x" by auto
  then show ?case using lang_Star.hyps(1) by (intro exI [of _ "u # vs"]) simp
qed

lemma lang_Star_Digit [simp]: "lang (Star g Digit) w \<longleftrightarrow> (\<forall>c \<in> set w. is_digit c)"
proof
  assume "lang (Star g Digit) w"
  then obtain vs where "w = List.concat vs" "\<forall>v \<in> set vs. lang Digit v"
    using lang_Star_decomp by blast
  then show "\<forall>c \<in> set w. is_digit c" by (auto simp: lang_Chr_iff)
next
  assume "\<forall>c \<in> set w. is_digit c"
  then have "lang (Star g Digit) (List.concat (map (\<lambda>c. [c]) w))"
    by (intro lang_Star_closure) (auto simp: lang_Chr_iff)
  then show "lang (Star g Digit) w" by simp
qed

lemma lang_Plus_Digit [simp]: "lang (Plus Digit) w \<longleftrightarrow> w \<noteq> [] \<and> (\<forall>c \<in> set w. is_digit c)"
  by (cases w) (auto simp: lang_Seq_Chr)

lemma lang_pre_tag [simp]: "lang pre_tag t \<longleftrightarrow> t \<in> {''a'', ''b'', ''rc''}"
  by (auto simp: pre_tag_def lang_Chr_iff simp del: Word.simps)

lemma anchor_free_word [simp]: "anchor_free (Word s)" "anchor_free (ci_word s)"
  by (induction s) (auto simp: ci_word_def ci_def)

lemma anchor_free_segments [simp]: "anchor_free release_segment" "anchor_free pre_tag"
  by (simp_all add: release_segment_def pre_tag_def del: Word.simps)

lemma is_release_iff: "is_release_version v \<longleftrightarrow> lang release_segment v"
  unfolding is_release_version_def RELEASE_RE_def by (rule re_fullmatch_iff_lang) simp

lemma is_pinnable_iff:
  "is_pinnable_version v \<longleftrightarrow> (\<exists>u w. v = u @ w \<and> lang release_segment u \<and>
     (w = [] \<or> (\<exists>t d. w = t @ d \<and> lang pre_tag t \<and> lang (Plus Digit) d)))"
proof -
  have "is_pinnable_version v \<longleftrightarrow> lang PINNABLE_RE v"
    unfolding is_pinnable_version_def by (rule re_fullmatch_iff_lang) (simp add: PINNABLE_RE_def)
  also have "\<dots> \<longleftrightarrow> (\<exists>u w. v = u @ w \<and> lang release_segment u \<and>
                lang (Opt (Seq pre_tag (Plus Digit))) w)"
    by (simp only: PINNABLE_RE_def lang_Seq_iff [of release_segment])
  also have "\<dots> \<longleftrightarrow> (\<exists>u w. v = u @ w \<and> lang release_segment u \<and>
     (w = [] \<or> (\<exists>t d. w = t @ d \<and> lang pre_tag t \<and> lang (Plus Digit) d)))"
    by (simp only: lang_Alt_iff lang_Eps_iff lang_Seq_iff [of pre_tag] disj_commute)
  finally show ?thesis .
qed

lemma is_pep440_iff: "is_pep440_version v \<longleftrightarrow> lang PEP440_RE v"
  unfolding is_pep440_version_def
  by (rule re_fullmatch_iff_lang) (simp add: PEP440_RE_def PEP440_PRE_RE_def sep_class_def alnum_ci_def ci_def)

lemma release_segment_chars: "lang release_segment u \<Longrightarrow> \<forall>c \<in> set u. is_digit c \<or> c = CHR ''.''"
  by (auto simp: release_segment_def lang_Seq_iff [of "Plus Digit"] lang_Seq_Chr dest!: lang_Star_decomp)
    force

section \<open>The sort key is defined on the pinnable versions and decodes them\<close>

lemma cap_free_segments [simp]: "cap_free release_segment" "cap_free pre_tag"
  by (simp_all add: release_segment_def pre_tag_def)

lemma anchor_free_key [simp]: "anchor_free PINNABLE_KEY_RE"
  by (simp add: PINNABLE_KEY_RE_def)

lemma lang_key_iff: "lang PINNABLE_KEY_RE v \<longleftrightarrow> is_pinnable_version v"
  unfolding is_pinnable_iff PINNABLE_KEY_RE_def lang_Seq_iff lang_Cap_iff lang_Alt_iff lang_Eps_iff
  by blast

text \<open>What the groups of a full match hold.\<close>

lemma key_groups:
  assumes "re_fullmatch PINNABLE_KEY_RE v = Some q"
  shows "\<exists>u. lang release_segment u \<and> group 1 q = Some u \<and>
    ((v = u \<and> group 2 q = None) \<or>
     (\<exists>t d. v = u @ t @ d \<and> lang pre_tag t \<and> lang (Plus Digit) d \<and>
            group 2 q = Some t \<and> group 3 q = Some d))"
proof -
  let ?p = "Pos None v []" and ?Pre = "Seq (Cap 2 pre_tag) (Cap 3 (Plus Digit))"
  from re_fullmatch_SomeD [OF assms] obtain q1 where
    q1: "q1 \<in> set (matches (Cap 1 release_segment) ?p)" and
    q: "q \<in> set (matches (Opt ?Pre) q1)" and end_q: "rest q = []"
    unfolding PINNABLE_KEY_RE_def in_matches_Seq [of q "Cap 1 release_segment"] by blast
  from matches_Cap [OF q1] obtain u where
    u: "v = u @ rest q1" "lang release_segment u" "caps q1 = [(1, u)]" by auto
  from q consider "q = q1" | q2 where "q2 \<in> set (matches (Cap 2 pre_tag) q1)"
      "q \<in> set (matches (Cap 3 (Plus Digit)) q2)"
    unfolding in_matches by blast
  then show ?thesis
  proof cases
    case 1
    then show ?thesis using u end_q by (auto simp: group_def)
  next
    case (2 q2)
    from matches_Cap [OF 2(1)] obtain t where
      t: "rest q1 = t @ rest q2" "lang pre_tag t" "caps q2 = (2, t) # caps q1" by auto
    from matches_Cap [OF 2(2)] obtain d where
      d: "rest q2 = d @ rest q" "lang (Plus Digit) d" "caps q = (3, d) # caps q2" by auto
    show ?thesis using u t d end_q by (auto simp: group_def simp del: lang_pre_tag lang_Plus_Digit)
  qed
qed

text \<open>
  \<open>pinnable_version_key\<close> raises exactly on the strings \<open>is_pinnable_version\<close> rejects: the two
  regular expressions of the source accept the same versions, so no pinnable version lacks a key.
\<close>
lemma pinnable_key_iff:
  "is_pinnable_version v \<longleftrightarrow> (\<exists>k. pinnable_version_key v = Inr k)"
proof -
  have "is_pinnable_version v \<longleftrightarrow> re_fullmatch PINNABLE_KEY_RE v \<noteq> None"
    by (simp only: re_fullmatch_iff_lang [OF anchor_free_key] lang_key_iff)
  then show ?thesis
    by (auto simp: pinnable_version_key_def Let_def split: option.splits)
qed

text \<open>A pinnable version, printed from its release parts and its pre-release.\<close>

definition render_version :: "nat list \<Rightarrow> (string \<times> nat) option \<Rightarrow> string" where
  "render_version parts pre = join_with CHR ''.'' (map show_nat parts) @
     (case pre of None \<Rightarrow> [] | Some (t, n) \<Rightarrow> t @ show_nat n)"

fun key_of_version :: "nat list \<Rightarrow> (string \<times> nat) option \<Rightarrow> version_key" where
  "key_of_version parts None = (drop_trailing_zeros parts, 1, 0, 0)"
| "key_of_version parts (Some (t, n)) = (drop_trailing_zeros parts, 0, PRE_ORDER t, n)"

lemma show_nat_no_dot: "CHR ''.'' \<notin> set (show_nat n)"
  using show_nat_digits [of n] by (auto simp: is_digit_def less_eq_char_def)

lemma lang_release_join:
  "parts \<noteq> [] \<Longrightarrow> lang release_segment (join_with CHR ''.'' (map show_nat parts))"
proof (induction "CHR ''.''" "map show_nat parts" arbitrary: parts rule: join_with.induct)
  case (2 w)
  have "lang (Seq (Plus Digit) (Star True (Seq (Lit CHR ''.'') (Plus Digit)))) (w @ [])"
    using 2 show_nat_digits by (intro lang_Seq lang_Star0) auto
  then show ?case by (simp add: release_segment_def flip: 2(1))
next
  case (3 w v ws)
  then obtain n ms where parts: "parts = n # ms" "w = show_nat n" "map show_nat ms = v # ws"
    by (cases parts) auto
  then have "lang release_segment (join_with CHR ''.'' (v # ws))" using 3(1) [of ms] by auto
  then obtain a b where ab: "join_with CHR ''.'' (v # ws) = a @ b" "lang (Plus Digit) a"
      "lang (Star True (Seq (Lit CHR ''.'') (Plus Digit))) b"
    unfolding release_segment_def lang_Seq_iff [of "Plus Digit"] by blast
  have "lang (Seq (Lit CHR ''.'') (Plus Digit)) ([CHR ''.''] @ a)"
    by (rule lang_Seq [OF _ ab(2)]) (simp add: lang_Chr_iff)
  then have dot: "lang (Seq (Lit CHR ''.'') (Plus Digit)) (CHR ''.'' # a)" by (simp only: append.simps)
  from dot have "lang (Star True (Seq (Lit CHR ''.'') (Plus Digit))) ((CHR ''.'' # a) @ b)"
    using ab(3) by (rule lang_Star)
  moreover have "lang (Plus Digit) w" using parts(2) show_nat_digits by auto
  ultimately have "lang release_segment (w @ (CHR ''.'' # a) @ b)"
    unfolding release_segment_def by (rule lang_Seq [rotated])
  then show ?case using ab(1) parts by simp
qed auto

lemma is_pinnableI:
  "lang release_segment u \<Longrightarrow> lang pre_tag t \<Longrightarrow> lang (Plus Digit) d \<Longrightarrow>
     is_pinnable_version (u @ t @ d)"
  unfolding is_pinnable_iff by blast

lemma is_pinnable_render:
  assumes "parts \<noteq> []" "\<And>t n. pre = Some (t, n) \<Longrightarrow> t \<in> {''a'', ''b'', ''rc''}"
  shows "is_pinnable_version (render_version parts pre)"
proof (cases pre)
  case None
  then show ?thesis
    using lang_release_join [OF assms(1)] by (auto simp: is_pinnable_iff render_version_def)
next
  case (Some tn)
  obtain t n where tn: "tn = (t, n)" by (cases tn)
  have "lang pre_tag t" using assms(2) [of t n] Some tn by simp
  moreover have "lang (Plus Digit) (show_nat n)" using show_nat_digits by simp
  ultimately show ?thesis
    using is_pinnableI [OF lang_release_join [OF assms(1)]] Some tn
    by (simp add: render_version_def del: lang_pre_tag lang_Plus_Digit)
qed

text \<open>The release segment of a text is its longest prefix of digits and dots.\<close>

lemma release_prefix:
  assumes "lang release_segment u" "w = [] \<or> (\<exists>t d. w = t @ d \<and> lang pre_tag t)"
  shows "takeWhile (\<lambda>c. is_digit c \<or> c = CHR ''.'') (u @ w) = u"
proof -
  have "takeWhile (\<lambda>c. is_digit c \<or> c = CHR ''.'') w = []"
    using assms(2) by (auto simp: is_digit_def less_eq_char_def)
  then show ?thesis using release_segment_chars [OF assms(1)] by (simp add: takeWhile_append2)
qed

text \<open>The digits of a pre-release are its longest suffix of digits.\<close>

lemma pre_tag_digits:
  assumes "lang pre_tag t" "lang (Plus Digit) d" "lang pre_tag t'" "lang (Plus Digit) d'"
    "t @ d = t' @ d'"
  shows "t = t' \<and> d = d'"
proof -
  have drop: "dropWhile (\<lambda>c. \<not> is_digit c) (x @ y) = y" if "lang pre_tag x" "lang (Plus Digit) y" for x y
  proof -
    have "\<forall>c \<in> set x. \<not> is_digit c" using that(1) by (auto simp: is_digit_def less_eq_char_def)
    then show ?thesis using that(2) by (cases y) (auto simp: dropWhile_append2)
  qed
  have "d = d'" using drop [OF assms(1,2)] drop [OF assms(3,4)] assms(5) by simp
  then show ?thesis using assms(5) by simp
qed

lemma pinnable_key_render_aux:
  assumes "parts \<noteq> []" "\<And>t n. pre = Some (t, n) \<Longrightarrow> t \<in> {''a'', ''b'', ''rc''}"
  shows "pinnable_version_key (render_version parts pre) = Inr (key_of_version parts pre)"
proof -
  define s where "s = render_version parts pre"
  define r where "r = join_with CHR ''.'' (map show_nat parts)"
  define w where "w = (case pre of None \<Rightarrow> [] | Some (t, n) \<Rightarrow> t @ show_nat n)"
  have s: "s = r @ w" by (simp add: s_def r_def w_def render_version_def)
  have lr: "lang release_segment r" using lang_release_join [OF assms(1)] by (simp add: r_def)
  have lw: "w = [] \<or> (\<exists>t d. w = t @ d \<and> lang pre_tag t)"
    using assms(2) by (auto simp: w_def split: option.splits)
  have "lang PINNABLE_KEY_RE s"
    using is_pinnable_render [OF assms] by (simp only: lang_key_iff s_def)
  then obtain q where q: "re_fullmatch PINNABLE_KEY_RE s = Some q"
    using re_fullmatch_iff_lang [OF anchor_free_key] by blast
  from key_groups [OF q] obtain u where
    u: "lang release_segment u" "group 1 q = Some u" and
    cases_u: "(s = u \<and> group 2 q = None) \<or>
      (\<exists>t d. s = u @ t @ d \<and> lang pre_tag t \<and> lang (Plus Digit) d \<and>
             group 2 q = Some t \<and> group 3 q = Some d)" by blast
  from cases_u obtain w' where "s = u @ w'" "w' = [] \<or> (\<exists>t d. w' = t @ d \<and> lang pre_tag t)"
    by blast
  then have "u = takeWhile (\<lambda>c. is_digit c \<or> c = CHR ''.'') s"
    using release_prefix [OF u(1), of w'] by simp
  then have ur: "u = r" using release_prefix [OF lr lw] s by simp
  have parts: "map read_nat (split_on CHR ''.'' r) = parts"
    using assms(1) show_nat_no_dot by (simp add: r_def split_join comp_def)
  show ?thesis
  proof (cases pre)
    case None
    then have "s = u" using s ur by (simp add: w_def)
    then have "group 2 q = None" using cases_u by auto
    then show ?thesis
      unfolding s_def [symmetric] pinnable_version_key_def
      using q u(2) ur parts None by simp
  next
    case (Some tn)
    obtain t n where tn: "tn = (t, n)" by (cases tn)
    have lt: "lang pre_tag t" "lang (Plus Digit) (show_nat n)"
      using assms(2) [of t n] Some tn show_nat_digits by auto
    have w: "w = t @ show_nat n" using Some tn by (simp add: w_def)
    from cases_u s ur w obtain t' d where td: "t @ show_nat n = t' @ d" "lang pre_tag t'"
        "lang (Plus Digit) d" "group 2 q = Some t'" "group 3 q = Some d" by auto
    from pre_tag_digits [OF lt td(2,3,1)] td(4,5)
    have "group 2 q = Some t" "group 3 q = Some (show_nat n)" by auto
    then show ?thesis
      unfolding s_def [symmetric] pinnable_version_key_def
      using q u(2) ur parts Some tn by simp
  qed
qed

text \<open>
  Round trip of the sort key: the key of a version printed from its release parts and an
  optional pre-release tag and number is those parts (trailing zeros dropped), the pre-release
  below the final release, and the number, whatever their decimal lengths.
\<close>
lemma pinnable_key_render:
  assumes "parts \<noteq> []" "\<And>t n. pre = Some (t, n) \<Longrightarrow> t \<in> {''a'', ''b'', ''rc''}"
  shows "pinnable_version_key (render_version parts pre) = Inr (key_of_version parts pre)"
  by (rule pinnable_key_render_aux [OF assms])

lemma pinnable_key_render_witness:
  "pinnable_version_key ''2026.10.0b2'' = Inr ([2026, 10], 0, 1, 2)"
proof -
  have "render_version [2026, 10, 0] (Some (''b'', 2)) = ''2026.10.0b2''" by code_simp
  moreover have "key_of_version [2026, 10, 0] (Some (''b'', 2)) = ([2026, 10], 0, 1, 2)" by code_simp
  ultimately show ?thesis
    using pinnable_key_render [of "[2026, 10, 0]" "Some (''b'', 2)"] by simp
qed

section \<open>The recognisers are nested\<close>

lemma lang_Opt_Nil: "lang (Opt r) []"
  by (simp add: lang_Alt_iff)

lemma lang_OptI: "lang r w \<Longrightarrow> lang (Opt r) w"
  by (simp add: lang_Alt_iff)

lemma lang_SeqI: "lang r u \<Longrightarrow> lang s v \<Longrightarrow> w = u @ v \<Longrightarrow> lang (Seq r s) w"
  by (simp add: lang_Seq)

lemma release_is_pinnable: "is_release_version v \<Longrightarrow> is_pinnable_version v"
  unfolding is_release_iff is_pinnable_iff by (intro exI [of _ v] exI [of _ "[]"]) simp

lemma char_lower_pre: "t \<in> {''a'', ''b'', ''rc''} \<Longrightarrow> map char_lower t = t"
  by (auto simp: char_lower_def is_upper_def less_eq_char_def)

lemma lang_Seqs: "list_all2 lang rs ws \<Longrightarrow> w = List.concat ws \<Longrightarrow> lang (Seqs rs) w"
  by (induction rs ws arbitrary: w rule: list_all2_induct) (auto intro: lang_Seq)

lemma lang_Alts: "r \<in> set rs \<Longrightarrow> lang r w \<Longrightarrow> lang (Alts rs) w"
  by (induction rs) (auto simp: lang_Alt_iff)

lemma pep440_pre:
  assumes "lang pre_tag t" "lang (Plus Digit) d"
  shows "lang PEP440_PRE_RE (t @ d)"
proof -
  have t: "t \<in> {''a'', ''b'', ''rc''}" "map char_lower t = t"
    using assms(1) char_lower_pre [of t] by simp_all
  have alts: "lang (Alts [ci_word ''a'', ci_word ''b'', ci_word ''c'', ci_word ''rc'',
      ci_word ''alpha'', ci_word ''beta'', ci_word ''pre'', ci_word ''preview'']) t"
    using t by (intro lang_Alts [of "ci_word t"]) (auto simp: lang_ci_word)
  have "lang (Star True Digit) d" using assms(2) by simp
  then show ?thesis
    unfolding PEP440_PRE_RE_def using alts
    by (intro lang_Seqs [of _ "[[], t, [], d]"])
      (simp_all add: lang_Opt_Nil del: Alts.simps)
qed

lemma pep440_release:
  assumes "lang release_segment u"
    "w = [] \<or> (\<exists>t d. w = t @ d \<and> lang pre_tag t \<and> lang (Plus Digit) d)"
  shows "lang PEP440_RE (u @ w)"
proof -
  have "lang (Opt PEP440_PRE_RE) w"
    using assms(2) pep440_pre lang_Opt_Nil lang_OptI by blast
  then show ?thesis
    unfolding PEP440_RE_def using assms(1)
    by (intro lang_Seqs [of _ "[[], [], u, w, [], [], []]"])
      (simp_all add: lang_Opt_Nil del: Seqs.simps Alts.simps)
qed

text \<open>
  Every pinnable version is a PEP 440 version, and every release version is pinnable: a version
  that passes the strict recogniser of the provisioner also passes the wire-side coercion.
\<close>
lemma release_pinnable_pep440:
  "(is_release_version v \<longrightarrow> is_pinnable_version v) \<and>
   (is_pinnable_version v \<longrightarrow> is_pep440_version v)"
  using release_is_pinnable pep440_release unfolding is_pep440_iff is_pinnable_iff by blast

lemma release_pinnable_pep440_witness:
  "is_pinnable_version ''2026.5.0'' \<and> is_pep440_version ''2026.6.0rc12''"
proof -
  have "is_release_version ''2026.5.0''" "is_pinnable_version ''2026.6.0rc12''" by code_simp+
  then show ?thesis
    using release_pinnable_pep440 [of "''2026.5.0''"] release_pinnable_pep440 [of "''2026.6.0rc12''"]
    by blast
qed

section \<open>Comparing versions, and the policies\<close>

lemma takeWhile_local:
  "CHR ''+'' \<notin> set s \<Longrightarrow> l = [] \<or> hd l = CHR ''+'' \<Longrightarrow> strip_local (s @ l) = s"
proof -
  assume s: "CHR ''+'' \<notin> set s" and l: "l = [] \<or> hd l = CHR ''+''"
  have "takeWhile (\<lambda>c. c \<noteq> CHR ''+'') (s @ l) = s @ takeWhile (\<lambda>c. c \<noteq> CHR ''+'') l"
    using s by (intro takeWhile_append2) auto
  then show ?thesis using l by (cases l) (auto simp: strip_local_def)
qed

lemma show_nat_no_plus: "CHR ''+'' \<notin> set (show_nat n)"
  using show_nat_digits [of n] by (auto simp: is_digit_def less_eq_char_def)

lemma join_no_plus: "CHR ''+'' \<notin> set (join_with CHR ''.'' (map show_nat parts))"
proof -
  have "CHR ''+'' \<notin> set (join_with CHR ''.'' ws)" if "\<forall>w \<in> set ws. CHR ''+'' \<notin> set w" for ws
    using that by (induction "CHR ''.''" ws rule: join_with.induct) auto
  then show ?thesis using show_nat_no_plus by simp
qed

definition pre_ok :: "(string \<times> nat) option \<Rightarrow> bool" where
  "pre_ok pre \<longleftrightarrow> (case pre of None \<Rightarrow> True | Some (t, n) \<Rightarrow> t \<in> {''a'', ''b'', ''rc''})"

lemma render_no_plus: "pre_ok pre \<Longrightarrow> CHR ''+'' \<notin> set (render_version parts pre)"
  using join_no_plus show_nat_no_plus
  by (auto simp: render_version_def pre_ok_def split: option.splits)

text \<open>
  \<open>version_at_least\<close> compares printed versions by their keys: release parts as numbers (so
  \<open>2026.10\<close> is above \<open>2026.9\<close>), a pre-release below its final release, trailing zero parts and the
  local segments after \<open>+\<close> ignored.
\<close>
lemma version_at_least_render:
  assumes "parts \<noteq> []" "pre_ok pre" "parts' \<noteq> []" "pre_ok pre'"
    "l = [] \<or> hd l = CHR ''+''" "l' = [] \<or> hd l' = CHR ''+''"
  shows "version_at_least (render_version parts pre @ l) (render_version parts' pre' @ l') \<longleftrightarrow>
           key_of_version parts' pre' \<le> key_of_version parts pre"
proof -
  have ok: "t \<in> {''a'', ''b'', ''rc''}" if "p = Some (t, n)" "pre_ok p" for p t n
    using that by (simp add: pre_ok_def)
  have "pinnable_version_key (render_version parts pre) = Inr (key_of_version parts pre)"
       "pinnable_version_key (render_version parts' pre') = Inr (key_of_version parts' pre')"
    using assms ok by (blast intro: pinnable_key_render_aux)+
  moreover have "is_pinnable_version (render_version parts pre)"
       "is_pinnable_version (render_version parts' pre')"
    using assms ok by (blast intro: is_pinnable_render)+
  ultimately show ?thesis
    using assms render_no_plus by (simp add: version_at_least_def takeWhile_local)
qed

theorem version_at_least_render_witness:
  "version_at_least ''2026.10.0'' ''2026.9.3+g12'' \<and> \<not> version_at_least ''2026.10.0b1'' ''2026.10''"
proof -
  have "render_version [2026, 10, 0] None = ''2026.10.0''" "render_version [2026, 9, 3] None = ''2026.9.3''"
    "render_version [2026, 10, 0] (Some (''b'', 1)) = ''2026.10.0b1''"
    "render_version [2026, 10] None = ''2026.10''" by code_simp+
  moreover have "key_of_version [2026, 9, 3] None \<le> key_of_version [2026, 10, 0] None"
    "\<not> key_of_version [2026, 10] None \<le> key_of_version [2026, 10, 0] (Some (''b'', 1))" by code_simp+
  ultimately show ?thesis
    using version_at_least_render [of "[2026, 10, 0]" None "[2026, 9, 3]" None "[]" "''+g12''"]
      version_at_least_render [of "[2026, 10, 0]" "Some (''b'', 1)" "[2026, 10]" None "[]" "[]"]
    by (simp add: pre_ok_def)
qed

text \<open>
  The policies are ordered by strictness: a peer that satisfies \<open>EXACT_REQUIRED\<close> satisfies
  \<open>EXACT\<close>, one that satisfies \<open>EXACT\<close> satisfies \<open>RELEASE\<close>, and all satisfy \<open>ANY\<close>; an unknown
  version satisfies every policy except \<open>EXACT_REQUIRED\<close>.
\<close>
lemma policy_strictness:
  "(version_satisfies_policy local peer EXACT_REQUIRED \<longrightarrow> version_satisfies_policy local peer EXACT) \<and>
   (version_satisfies_policy local peer EXACT \<longrightarrow> version_satisfies_policy local peer RELEASE) \<and>
   (version_satisfies_policy local peer RELEASE \<longrightarrow> version_satisfies_policy local peer ANY) \<and>
   version_satisfies_policy [] peer EXACT \<and> \<not> version_satisfies_policy [] peer EXACT_REQUIRED"
  by (simp add: versions_match_exactly_def major_versions_match_def)

lemma policy_strictness_witness:
  "version_satisfies_policy ''2026.5.1'' ''2026.5.1'' RELEASE \<and>
   version_satisfies_policy ''2026.5.1'' ''2026.5.2'' RELEASE \<and>
   \<not> version_satisfies_policy ''2026.5.1'' ''2026.5.2'' EXACT"
proof -
  have "version_satisfies_policy ''2026.5.1'' ''2026.5.1'' EXACT_REQUIRED" by code_simp
  moreover have "version_satisfies_policy ''2026.5.1'' ''2026.5.2'' RELEASE"
    "\<not> version_satisfies_policy ''2026.5.1'' ''2026.5.2'' EXACT" by code_simp+
  ultimately show ?thesis using policy_strictness [of "''2026.5.1''" "''2026.5.1''"] by blast
qed

end
