(* ===== verification/JobModel.thy ===== *)
theory JobModel
  imports Strings
begin

text \<open>
  \<open>models/firmware.py\<close>: the firmware job. The enums are datatypes with the source's members, the
  \<open>FirmwareJob\<close> dataclass is a record with the same fields in the same order (timestamps are the
  ISO 8601 strings \<open>_now_iso\<close> returns and are passed in), its properties and its mutating methods are
  functions on the record. The lemmas show which fields a method leaves alone, that exactly the
  terminal statuses can be stamped, and what a restored job looks like.
\<close>

section \<open>Enums\<close>

datatype JobStatus = QUEUED | RUNNING | COMPLETED | FAILED | CANCELLED

datatype JobType = COMPILE | UPLOAD | INSTALL | CLEAN | RESET_BUILD_ENV | RENAME | ANALYZE_MEMORY

datatype JobSource = LOCAL | REMOTE | REMOTE_PENDING

datatype JobFailureReason = NONE | PROVISION

definition COMPILING_JOB_TYPES :: "JobType set" where
  "COMPILING_JOB_TYPES = {COMPILE, INSTALL, ANALYZE_MEMORY}"

record JobBuildSource =
  bs_source :: JobSource
  bs_pin_sha256 :: string
  bs_label :: string
  bs_esphome_version :: string

definition JobBuildSource_for_server :: "string \<Rightarrow> string \<Rightarrow> string \<Rightarrow> JobBuildSource" where
  "JobBuildSource_for_server pin label version =
     \<lparr>bs_source = JobSource.REMOTE, bs_pin_sha256 = pin, bs_label = label,
      bs_esphome_version = version\<rparr>"

definition OTA_PORT :: string where
  "OTA_PORT = ''OTA''"

definition LOCAL_JOB_BUILD_SOURCE :: JobBuildSource where
  "LOCAL_JOB_BUILD_SOURCE =
     \<lparr>bs_source = JobSource.LOCAL, bs_pin_sha256 = [], bs_label = [], bs_esphome_version = []\<rparr>"

definition REMOTE_PENDING_JOB_BUILD_SOURCE :: JobBuildSource where
  "REMOTE_PENDING_JOB_BUILD_SOURCE =
     \<lparr>bs_source = JobSource.REMOTE_PENDING, bs_pin_sha256 = [], bs_label = [],
      bs_esphome_version = []\<rparr>"

definition TERMINAL_JOB_STATUSES :: "JobStatus set" where
  "TERMINAL_JOB_STATUSES = {COMPLETED, FAILED, CANCELLED}"

definition ACTIVE_JOB_STATUSES :: "JobStatus set" where
  "ACTIVE_JOB_STATUSES = {QUEUED, RUNNING}"

section \<open>The job record\<close>

record FirmwareJob =
  job_id :: string
  configuration :: string
  job_type :: JobType
  status :: JobStatus
  created_at :: string
  started_at :: "string option"
  completed_at :: "string option"
  compile_started_at :: "string option"
  compile_ended_at :: "string option"
  exit_code :: "int option"
  "output" :: "string list"
  error :: "string option"
  port :: string
  flash_bootloader :: bool
  skip_bootloader :: bool
  is_deferred_install :: bool
  new_name :: string
  depends_on :: string
  dependency_released :: bool
  progress :: "nat option"
  ninja_total :: nat
  remote_peer :: string
  remote_job_id :: string
  remote_peer_label :: string
  device_name :: string
  device_friendly_name :: string
  source :: JobSource
  source_pin_sha256 :: string
  source_label :: string
  source_esphome_version :: string
  target_esphome_version :: string
  failure_reason :: JobFailureReason

text \<open>The dataclass defaults.\<close>

definition new_FirmwareJob :: "string \<Rightarrow> string \<Rightarrow> JobType \<Rightarrow> FirmwareJob" where
  "new_FirmwareJob jid conf ty =
     \<lparr>job_id = jid, configuration = conf, job_type = ty, status = QUEUED, created_at = [],
      started_at = None, completed_at = None, compile_started_at = None, compile_ended_at = None,
      exit_code = None, output = [], error = None, port = [], flash_bootloader = False,
      skip_bootloader = False, is_deferred_install = False, new_name = [], depends_on = [],
      dependency_released = False, progress = None, ninja_total = 0, remote_peer = [],
      remote_job_id = [], remote_peer_label = [], device_name = [], device_friendly_name = [],
      source = JobSource.LOCAL, source_pin_sha256 = [], source_label = [],
      source_esphome_version = [], target_esphome_version = [], failure_reason = NONE\<rparr>"

section \<open>Properties\<close>

definition is_terminal :: "FirmwareJob \<Rightarrow> bool" where
  "is_terminal j \<longleftrightarrow> status j \<in> TERMINAL_JOB_STATUSES"

definition is_active :: "FirmwareJob \<Rightarrow> bool" where
  "is_active j \<longleftrightarrow> status j \<in> ACTIVE_JOB_STATUSES"

definition is_rename_tail :: "FirmwareJob \<Rightarrow> bool" where
  "is_rename_tail j \<longleftrightarrow> job_type j = RENAME \<and> depends_on j \<noteq> []"

definition is_network_flash :: "FirmwareJob \<Rightarrow> bool" where
  "is_network_flash j \<longleftrightarrow> job_type j = UPLOAD \<or> is_rename_tail j"

definition wipes_local_build_tree :: "FirmwareJob \<Rightarrow> bool" where
  "wipes_local_build_tree j \<longleftrightarrow>
     job_type j \<in> {CLEAN, RESET_BUILD_ENV} \<and> source j \<noteq> JobSource.REMOTE"

definition new_filename :: "FirmwareJob \<Rightarrow> string" where
  "new_filename j = new_name j @ ''.yaml''"

definition flash_configuration :: "FirmwareJob \<Rightarrow> string" where
  "flash_configuration j = (if is_rename_tail j then new_filename j else configuration j)"

definition is_completed_ota_upload :: "FirmwareJob \<Rightarrow> bool" where
  "is_completed_ota_upload j \<longleftrightarrow> job_type j = UPLOAD \<and> port j = OTA_PORT \<and> status j = COMPLETED"

definition is_deferred_compile_success :: "FirmwareJob \<Rightarrow> bool" where
  "is_deferred_compile_success j \<longleftrightarrow>
     job_type j = COMPILE \<and> status j = COMPLETED \<and> is_deferred_install j"

definition is_ota_app_upload :: "FirmwareJob \<Rightarrow> bool" where
  "is_ota_app_upload j \<longleftrightarrow> job_type j = UPLOAD \<and> port j = OTA_PORT \<and> \<not> flash_bootloader j"

definition is_queued_update_armed :: "FirmwareJob \<Rightarrow> bool" where
  "is_queued_update_armed j \<longleftrightarrow>
     is_deferred_compile_success j \<or>
     (is_ota_app_upload j \<and> status j = FAILED \<and> is_deferred_install j)"

section \<open>Methods\<close>

definition RECOVERY_NOTICE :: string where
  "RECOVERY_NOTICE =
     ''... [dashboard restarted mid-build; the previous run's log is above, '' @
     ''the rebuild begins below] ...'' @ [CHR 0x0A]"

definition clear_run_state :: "FirmwareJob \<Rightarrow> FirmwareJob" where
  "clear_run_state j = j\<lparr>
     progress := None, ninja_total := 0, error := None, failure_reason := NONE,
     started_at := None, completed_at := None, compile_started_at := None,
     compile_ended_at := None, exit_code := None\<rparr>"

definition reset :: "FirmwareJob \<Rightarrow> FirmwareJob" where
  "reset j = clear_run_state (j\<lparr>output := output j @ [RECOVERY_NOTICE]\<rparr>)"

definition mark_running :: "string \<Rightarrow> FirmwareJob \<Rightarrow> FirmwareJob" where
  "mark_running now j = j\<lparr>status := RUNNING, started_at := Some now\<rparr>"

definition mark_terminal ::
    "string \<Rightarrow> JobStatus \<Rightarrow> string option \<Rightarrow> FirmwareJob \<Rightarrow> FirmwareJob result" where
  "mark_terminal now st err j =
     (if st \<notin> TERMINAL_JOB_STATUSES
      then Inl (ValueError ''mark_terminal called with non-terminal status'')
      else let j1 = (case err of None \<Rightarrow> j | Some e \<Rightarrow> j\<lparr>error := Some e\<rparr>)
           in Inr (j1\<lparr>status := st, completed_at := Some now\<rparr>))"

definition apply_build_source :: "JobBuildSource \<Rightarrow> FirmwareJob \<Rightarrow> FirmwareJob" where
  "apply_build_source b j = j\<lparr>
     source := bs_source b, source_pin_sha256 := bs_pin_sha256 b,
     source_label := bs_label b, source_esphome_version := bs_esphome_version b\<rparr>"

definition revert_to_pending_remote :: "FirmwareJob \<Rightarrow> FirmwareJob" where
  "revert_to_pending_remote j =
     apply_build_source REMOTE_PENDING_JOB_BUILD_SOURCE ((clear_run_state j)\<lparr>status := QUEUED\<rparr>)"

definition restore_for_requeue :: "FirmwareJob \<Rightarrow> FirmwareJob" where
  "restore_for_requeue j =
     (let j1 = (if status j = RUNNING then reset j else j);
          j2 = j1\<lparr>status := QUEUED\<rparr>
      in if job_type j2 = COMPILE \<and> source j2 \<in> {JobSource.REMOTE, JobSource.REMOTE_PENDING}
         then apply_build_source REMOTE_PENDING_JOB_BUILD_SOURCE j2
         else j2)"

section \<open>Lemmas\<close>

named_theorems job_simps \<open>the properties and methods of a job, unfolded on its fields\<close>

lemma terminal_iff [simp]: "st \<in> TERMINAL_JOB_STATUSES \<longleftrightarrow> st \<noteq> QUEUED \<and> st \<noteq> RUNNING"
  by (cases st) (simp_all add: TERMINAL_JOB_STATUSES_def)

lemma is_active_iff: "is_active j \<longleftrightarrow> status j = QUEUED \<or> status j = RUNNING"
  by (auto simp: is_active_def ACTIVE_JOB_STATUSES_def)

lemma is_terminal_iff_not_active: "is_terminal j \<longleftrightarrow> \<not> is_active j"
  by (simp add: is_terminal_def is_active_iff)

declare is_rename_tail_def [job_simps] is_network_flash_def [job_simps]
  wipes_local_build_tree_def [job_simps] flash_configuration_def [job_simps]
  new_filename_def [job_simps] is_completed_ota_upload_def [job_simps]
  is_deferred_compile_success_def [job_simps] is_ota_app_upload_def [job_simps]
  is_queued_update_armed_def [job_simps] clear_run_state_def [job_simps] reset_def [job_simps]
  mark_running_def [job_simps] apply_build_source_def [job_simps]
  revert_to_pending_remote_def [job_simps]

lemma restore_for_requeue_fields [simp]:
  "job_id (restore_for_requeue j) = job_id j"
  "configuration (restore_for_requeue j) = configuration j"
  "job_type (restore_for_requeue j) = job_type j"
  "status (restore_for_requeue j) = QUEUED"
  "created_at (restore_for_requeue j) = created_at j"
  "depends_on (restore_for_requeue j) = depends_on j"
  "dependency_released (restore_for_requeue j) = dependency_released j"
  "port (restore_for_requeue j) = port j"
  "new_name (restore_for_requeue j) = new_name j"
  "remote_peer (restore_for_requeue j) = remote_peer j"
  by (simp_all add: restore_for_requeue_def Let_def job_simps)

lemma clear_run_state_fields [simp]:
  "job_id (clear_run_state j) = job_id j"
  "configuration (clear_run_state j) = configuration j"
  "job_type (clear_run_state j) = job_type j"
  "status (clear_run_state j) = status j"
  "created_at (clear_run_state j) = created_at j"
  "output (clear_run_state j) = output j"
  "depends_on (clear_run_state j) = depends_on j"
  "source (clear_run_state j) = source j"
  "source_pin_sha256 (clear_run_state j) = source_pin_sha256 j"
  by (simp_all add: clear_run_state_def)

lemma clear_run_state_idem [simp]: "clear_run_state (clear_run_state j) = clear_run_state j"
  by (simp add: clear_run_state_def)

lemma mark_terminal_ok:
  "st \<in> TERMINAL_JOB_STATUSES \<Longrightarrow> \<exists>j'. mark_terminal now st err j = Inr j' \<and> is_terminal j'"
  by (auto simp: mark_terminal_def Let_def is_terminal_def split: option.splits)

text \<open>
  A job restored after a restart is a fresh queued job of the same identity: it is queued, its
  identity fields are untouched, the previous run's log is kept (with the restart marker exactly when
  the run was interrupted), a run that was interrupted has no run state left, and a remote compile is
  pending again with no server pinned while every other job keeps its dispatch origin.
\<close>
lemma restore_for_requeue_spec:
  "let r = restore_for_requeue j in
     status r = QUEUED \<and> job_id r = job_id j \<and> configuration r = configuration j \<and>
     job_type r = job_type j \<and> depends_on r = depends_on j \<and>
     output r = output j @ (if status j = RUNNING then [RECOVERY_NOTICE] else []) \<and>
     (started_at r, progress r, error r, exit_code r, ninja_total r) =
       (if status j = RUNNING then (None, None, None, None, 0)
        else (started_at j, progress j, error j, exit_code j, ninja_total j)) \<and>
     (source r, source_pin_sha256 r) =
       (if job_type j = COMPILE \<and> source j \<noteq> JobSource.LOCAL
        then (JobSource.REMOTE_PENDING, []) else (source j, source_pin_sha256 j))"
  by (cases "source j")
    (auto simp: restore_for_requeue_def Let_def job_simps REMOTE_PENDING_JOB_BUILD_SOURCE_def)

text \<open>What \<open>mark_terminal\<close> returns on each status.\<close>

lemma mark_terminal_spec:
  "mark_terminal now st err j =
     (if st = QUEUED \<or> st = RUNNING
      then Inl (ValueError ''mark_terminal called with non-terminal status'')
      else Inr (j\<lparr>error := (case err of None \<Rightarrow> error j | Some e \<Rightarrow> Some e),
                   status := st, completed_at := Some now\<rparr>))"
  by (cases err) (auto simp: mark_terminal_def Let_def)

end
