(* ===== verification/Scheduler.thy ===== *)
theory Scheduler
  imports JobModel Version_Compat
begin

text \<open>
  \<open>helpers/build_scheduler.py\<close> with the rows it reads (\<open>StoredPairing\<close> and \<open>PeerStatus\<close> of
  \<open>models/remote_build\<close>): the eligibility filter over the pairings, the idle-first pick, the
  submit-time decision (\<open>pick_build_path\<close>) and the dispatch-time decision
  (\<open>pick_dispatch_target\<close>), and the build source stamped on a job bound to a server. The lemmas
  count what the filter drops and why; the properties say which server is picked, when the pool
  waits, and when a compile may fall back to the local lane.
\<close>

section \<open>Rows\<close>

datatype PeerStatus = PENDING | APPROVED

text \<open>
  \<open>paired_at\<close> is a float read from a clock: a rational here (the code only compares it, and NaN is
  rejected by the row's validator). The connection fields the scheduler does not read are left out.
\<close>

record StoredPairing =
  pairing_pin :: string
  pairing_label :: string
  paired_at :: rat
  pairing_status :: PeerStatus
  pairing_version :: string
  enabled :: bool
  auto_provision_supported :: bool
  analyze_memory_supported :: bool
  reset_build_env_supported :: bool

record PeerQueueStatus =
  peer_idle :: bool
  peer_running :: bool
  peer_queue_depth :: nat

record BuildSchedulerInputs =
  remote_builds_enabled :: bool
  pairings :: "(string, StoredPairing) dict"
  open_peer_links :: "string set"
  peer_queue_status :: "(string, PeerQueueStatus) dict"
  offloader_esphome_version :: string
  version_match_policy :: VersionMatchPolicy
  busy_build_server_pins :: "string set"
  include_local_in_pool :: bool
  local_compile_busy :: bool

datatype BuildPath = LOCAL | REMOTE

record BuildPathDecision =
  path :: BuildPath
  path_pin :: "string option"

definition BuildPathDecision_local :: BuildPathDecision where
  "BuildPathDecision_local = \<lparr>path = BuildPath.LOCAL, path_pin = None\<rparr>"

definition BuildPathDecision_remote :: "string \<Rightarrow> BuildPathDecision" where
  "BuildPathDecision_remote pin = \<lparr>path = BuildPath.REMOTE, path_pin = Some pin\<rparr>"

datatype DispatchOutcome = REMOTE | WAIT | LOCAL | NO_COMPATIBLE_PEER

record DispatchDecision =
  outcome :: DispatchOutcome
  decision_pin :: "string option"
  decision_message :: string

definition DispatchDecision_remote :: "string \<Rightarrow> DispatchDecision" where
  "DispatchDecision_remote pin =
     \<lparr>outcome = DispatchOutcome.REMOTE, decision_pin = Some pin, decision_message = []\<rparr>"

definition DispatchDecision_wait :: DispatchDecision where
  "DispatchDecision_wait = \<lparr>outcome = WAIT, decision_pin = None, decision_message = []\<rparr>"

definition DispatchDecision_local :: DispatchDecision where
  "DispatchDecision_local =
     \<lparr>outcome = DispatchOutcome.LOCAL, decision_pin = None, decision_message = []\<rparr>"

definition DispatchDecision_no_compatible_peer :: "string \<Rightarrow> DispatchDecision" where
  "DispatchDecision_no_compatible_peer message =
     \<lparr>outcome = DispatchOutcome.NO_COMPATIBLE_PEER, decision_pin = None,
      decision_message = message\<rparr>"

record FilterResult =
  eligible :: "string list"
  intentional :: nat
  version_filtered :: nat
  disconnected :: nat
  busy_eligible :: nat

section \<open>The filter\<close>

definition can_provision :: "StoredPairing \<Rightarrow> string \<Rightarrow> bool" where
  "can_provision p version \<longleftrightarrow> auto_provision_supported p \<and> is_pinnable_version version"

text \<open>One iteration of the loop of \<open>_eligible_pairings\<close>; each \<open>continue\<close> is a branch.\<close>

definition filter_step ::
    "BuildSchedulerInputs \<Rightarrow> FilterResult \<Rightarrow> string \<times> StoredPairing \<Rightarrow> FilterResult" where
  "filter_step inp r item =
     (case item of (pin, p) \<Rightarrow>
        if pairing_status p \<noteq> APPROVED \<or> \<not> enabled p then r
        else
          let r = r\<lparr>intentional := intentional r + 1\<rparr> in
          if pin \<notin> open_peer_links inp then r\<lparr>disconnected := disconnected r + 1\<rparr>
          else if \<not> version_satisfies_policy (offloader_esphome_version inp) (pairing_version p)
                    (version_match_policy inp)
                  \<and> \<not> can_provision p (offloader_esphome_version inp)
          then r\<lparr>version_filtered := version_filtered r + 1\<rparr>
          else if pin \<in> busy_build_server_pins inp
          then r\<lparr>busy_eligible := busy_eligible r + 1\<rparr>
          else r\<lparr>eligible := eligible r @ [pin]\<rparr>)"

definition ordered_pairings :: "BuildSchedulerInputs \<Rightarrow> (string \<times> StoredPairing) list" where
  "ordered_pairings inp = sort_by (\<lambda>(pin, p). (paired_at p, pin)) (pairings inp)"

definition eligible_pairings :: "BuildSchedulerInputs \<Rightarrow> FilterResult" where
  "eligible_pairings inp =
     foldl (filter_step inp)
       \<lparr>eligible = [], intentional = 0, version_filtered = 0, disconnected = 0, busy_eligible = 0\<rparr>
       (ordered_pairings inp)"

fun pick_idle :: "(string, PeerQueueStatus) dict \<Rightarrow> string list \<Rightarrow> string option" where
  "pick_idle qs [] = None"
| "pick_idle qs (pin # pins) =
     (case dict_get qs pin of
        Some snap \<Rightarrow> if peer_idle snap then Some pin else pick_idle qs pins
      | None \<Rightarrow> pick_idle qs pins)"

definition pick_free_pin :: "FilterResult \<Rightarrow> (string, PeerQueueStatus) dict \<Rightarrow> string option" where
  "pick_free_pin r qs =
     (case pick_idle qs (eligible r) of
        Some pin \<Rightarrow> Some pin
      | None \<Rightarrow> (case eligible r of [] \<Rightarrow> None | pin # _ \<Rightarrow> Some pin))"

definition no_compatible_peer_message :: "FilterResult \<Rightarrow> BuildSchedulerInputs \<Rightarrow> string" where
  "no_compatible_peer_message r inp =
     ''version policy '' @ quoted ''exact_required'' @ '' with '' @ show_nat (intentional r) @
     '' intended peer(s) but none eligible ('' @ show_nat (version_filtered r) @
     '' on version mismatch, '' @ show_nat (disconnected r) @
     '' on closed peer-link; offloader='' @ quoted (offloader_esphome_version inp) @
     ''); refusing to fall back to LOCAL''"

section \<open>The decisions\<close>

definition pick_build_path :: "BuildSchedulerInputs \<Rightarrow> BuildPathDecision result" where
  "pick_build_path inp =
     (if \<not> remote_builds_enabled inp then Inr BuildPathDecision_local
      else
        let r = eligible_pairings inp in
        case pick_free_pin r (peer_queue_status inp) of
          Some pin \<Rightarrow> Inr (BuildPathDecision_remote pin)
        | None \<Rightarrow>
            if intentional r > 0 \<and> version_match_policy inp = EXACT_REQUIRED
            then Inl (CommandError ErrorCode.NO_COMPATIBLE_PEER (no_compatible_peer_message r inp))
            else Inr BuildPathDecision_local)"

definition pick_dispatch_target :: "BuildSchedulerInputs \<Rightarrow> DispatchDecision" where
  "pick_dispatch_target inp =
     (if \<not> remote_builds_enabled inp then DispatchDecision_local
      else
        let r = eligible_pairings inp in
        case pick_free_pin r (peer_queue_status inp) of
          Some pin \<Rightarrow> DispatchDecision_remote pin
        | None \<Rightarrow>
            if busy_eligible r > 0
            then (if include_local_in_pool inp \<and> \<not> local_compile_busy inp
                  then DispatchDecision_local else DispatchDecision_wait)
            else if intentional r > 0 \<and> version_match_policy inp = EXACT_REQUIRED
            then (if disconnected r > 0 then DispatchDecision_wait
                  else DispatchDecision_no_compatible_peer (no_compatible_peer_message r inp))
            else DispatchDecision_local)"

definition inputs_for_job_type :: "BuildSchedulerInputs \<Rightarrow> JobType \<Rightarrow> BuildSchedulerInputs" where
  "inputs_for_job_type inp ty =
     (if ty \<noteq> ANALYZE_MEMORY then inp
      else inp\<lparr>pairings := filter (\<lambda>(pin, p). analyze_memory_supported p) (pairings inp)\<rparr>)"

definition receiver_build_version :: "StoredPairing \<Rightarrow> string \<Rightarrow> string" where
  "receiver_build_version p version =
     (if pairing_version p = version \<or> can_provision p version then [] else pairing_version p)"

definition build_source_for_pairing :: "StoredPairing \<Rightarrow> string \<Rightarrow> JobBuildSource" where
  "build_source_for_pairing p version =
     JobBuildSource_for_server (pairing_pin p) (pairing_label p) (receiver_build_version p version)"

section \<open>What the filter computes\<close>

text \<open>The four conditions of the filter, as predicates on a row.\<close>

definition intended :: "string \<times> StoredPairing \<Rightarrow> bool" where
  "intended it \<longleftrightarrow> pairing_status (snd it) = APPROVED \<and> enabled (snd it)"

definition link_open :: "BuildSchedulerInputs \<Rightarrow> string \<times> StoredPairing \<Rightarrow> bool" where
  "link_open inp it \<longleftrightarrow> fst it \<in> open_peer_links inp"

definition compatible :: "BuildSchedulerInputs \<Rightarrow> string \<times> StoredPairing \<Rightarrow> bool" where
  "compatible inp it \<longleftrightarrow>
     version_satisfies_policy (offloader_esphome_version inp) (pairing_version (snd it))
       (version_match_policy inp) \<or>
     can_provision (snd it) (offloader_esphome_version inp)"

definition busy :: "BuildSchedulerInputs \<Rightarrow> string \<times> StoredPairing \<Rightarrow> bool" where
  "busy inp it \<longleftrightarrow> fst it \<in> busy_build_server_pins inp"

abbreviation usable :: "BuildSchedulerInputs \<Rightarrow> string \<times> StoredPairing \<Rightarrow> bool" where
  "usable inp it \<equiv> intended it \<and> link_open inp it \<and> compatible inp it"

lemmas filter_preds = intended_def link_open_def compatible_def busy_def

abbreviation count :: "('a \<Rightarrow> bool) \<Rightarrow> 'a list \<Rightarrow> nat" where
  "count P xs \<equiv> length (filter P xs)"

lemma foldl_filter_step:
  "foldl (filter_step inp) r its =
     \<lparr>eligible = eligible r @ map fst (filter (\<lambda>it. usable inp it \<and> \<not> busy inp it) its),
      intentional = intentional r + count intended its,
      version_filtered = version_filtered r +
        count (\<lambda>it. intended it \<and> link_open inp it \<and> \<not> compatible inp it) its,
      disconnected = disconnected r + count (\<lambda>it. intended it \<and> \<not> link_open inp it) its,
      busy_eligible = busy_eligible r + count (\<lambda>it. usable inp it \<and> busy inp it) its\<rparr>"
proof (induction its arbitrary: r)
  case (Cons it its)
  have "filter_step inp r it =
     \<lparr>eligible = eligible r @ map fst (filter (\<lambda>it. usable inp it \<and> \<not> busy inp it) [it]),
      intentional = intentional r + count intended [it],
      version_filtered = version_filtered r +
        count (\<lambda>it. intended it \<and> link_open inp it \<and> \<not> compatible inp it) [it],
      disconnected = disconnected r + count (\<lambda>it. intended it \<and> \<not> link_open inp it) [it],
      busy_eligible = busy_eligible r + count (\<lambda>it. usable inp it \<and> busy inp it) [it]\<rparr>"
    by (cases it) (auto simp: filter_step_def Let_def filter_preds)
  then show ?case by (simp add: Cons)
qed simp

lemma eligible_pairings_eq:
  "eligible_pairings inp =
     \<lparr>eligible = map fst (filter (\<lambda>it. usable inp it \<and> \<not> busy inp it) (ordered_pairings inp)),
      intentional = count intended (ordered_pairings inp),
      version_filtered =
        count (\<lambda>it. intended it \<and> link_open inp it \<and> \<not> compatible inp it) (ordered_pairings inp),
      disconnected = count (\<lambda>it. intended it \<and> \<not> link_open inp it) (ordered_pairings inp),
      busy_eligible = count (\<lambda>it. usable inp it \<and> busy inp it) (ordered_pairings inp)\<rparr>"
  by (simp add: eligible_pairings_def foldl_filter_step)

lemma set_ordered_pairings [simp]: "set (ordered_pairings inp) = set (pairings inp)"
  by (simp add: ordered_pairings_def)

lemma count_pos_iff: "0 < count P xs \<longleftrightarrow> (\<exists>x \<in> set xs. P x)"
  by (auto simp: filter_empty_conv)

lemma eligible_Nil_iff:
  "eligible (eligible_pairings inp) = [] \<longleftrightarrow>
     \<not> (\<exists>it \<in> set (pairings inp). usable inp it \<and> \<not> busy inp it)"
  by (auto simp: eligible_pairings_eq filter_empty_conv)

lemma set_eligible:
  "pin \<in> set (eligible (eligible_pairings inp)) \<longleftrightarrow>
     (\<exists>p. (pin, p) \<in> set (pairings inp) \<and> usable inp (pin, p) \<and> \<not> busy inp (pin, p))"
  by (force simp: eligible_pairings_eq)

lemma pick_idle_Some:
  "pick_idle qs pins = Some pin \<Longrightarrow>
     pin \<in> set pins \<and> (\<exists>snap. dict_get qs pin = Some snap \<and> peer_idle snap)"
  by (induction pins) (auto split: option.splits if_splits)

lemma pick_idle_None:
  "pick_idle qs pins = None \<Longrightarrow> pin \<in> set pins \<Longrightarrow> dict_get qs pin = Some snap \<Longrightarrow> \<not> peer_idle snap"
  by (induction pins) (auto split: option.splits if_splits)

lemma pick_free_pin_None_iff: "pick_free_pin r qs = None \<longleftrightarrow> eligible r = []"
  by (auto simp: pick_free_pin_def split: option.splits list.splits dest: pick_idle_Some)

lemma pick_free_pin_in: "pick_free_pin r qs = Some pin \<Longrightarrow> pin \<in> set (eligible r)"
  by (auto simp: pick_free_pin_def split: option.splits list.splits dest: pick_idle_Some)

lemma ordered_pairings_sorted:
  "sorted_wrt (\<lambda>x y. (paired_at (snd x), fst x) \<le> (paired_at (snd y), fst y)) (ordered_pairings inp)"
  unfolding ordered_pairings_def
  using sorted_wrt_sort_by [of "\<lambda>(pin, p). (paired_at p, pin)" "pairings inp"]
  by (simp add: case_prod_unfold)

text \<open>The first of the free servers is the one paired longest ago.\<close>

lemma eligible_head_oldest:
  assumes "eligible (eligible_pairings inp) = pin # pins"
  shows "\<exists>p. (pin, p) \<in> set (pairings inp) \<and> usable inp (pin, p) \<and> \<not> busy inp (pin, p) \<and>
     (\<forall>it \<in> set (pairings inp). usable inp it \<and> \<not> busy inp it \<longrightarrow>
        (paired_at p, pin) \<le> (paired_at (snd it), fst it))"
proof -
  let ?P = "\<lambda>it. usable inp it \<and> \<not> busy inp it"
  obtain it its where its: "filter ?P (ordered_pairings inp) = it # its" "fst it = pin"
    using assms by (auto simp: eligible_pairings_eq)
  have "sorted_wrt (\<lambda>x y. (paired_at (snd x), fst x) \<le> (paired_at (snd y), fst y)) (it # its)"
    using sorted_wrt_filter [OF ordered_pairings_sorted, of ?P inp] its(1) by simp
  moreover have "set (it # its) = {it \<in> set (pairings inp). ?P it}"
    using its(1) by (metis set_filter set_ordered_pairings)
  ultimately show ?thesis using its(2) by (intro exI [of _ "snd it"]) force
qed

lemma pick_free_pin_spec:
  assumes "pick_free_pin (eligible_pairings inp) qs = Some pin"
  shows "\<exists>p. (pin, p) \<in> set (pairings inp) \<and> usable inp (pin, p) \<and> \<not> busy inp (pin, p) \<and>
     ((\<exists>snap. dict_get qs pin = Some snap \<and> peer_idle snap) \<or>
      (\<forall>it \<in> set (pairings inp). usable inp it \<and> \<not> busy inp it \<longrightarrow>
         (\<forall>snap. dict_get qs (fst it) = Some snap \<longrightarrow> \<not> peer_idle snap) \<and>
         (paired_at p, pin) \<le> (paired_at (snd it), fst it)))"
proof (cases "pick_idle qs (eligible (eligible_pairings inp))")
  case None
  then obtain pins where hd: "eligible (eligible_pairings inp) = pin # pins"
    using assms by (auto simp: pick_free_pin_def split: list.splits)
  have "\<forall>it \<in> set (pairings inp). usable inp it \<and> \<not> busy inp it \<longrightarrow>
         (\<forall>snap. dict_get qs (fst it) = Some snap \<longrightarrow> \<not> peer_idle snap)"
    using pick_idle_None [OF None] set_eligible [of _ inp] by (metis prod.collapse)
  then show ?thesis using eligible_head_oldest [OF hd] by blast
next
  case (Some q)
  then have "q = pin" using assms by (simp add: pick_free_pin_def)
  then show ?thesis using pick_idle_Some [OF Some] set_eligible [of pin inp] by blast
qed

section \<open>The decisions, stated on the pairings\<close>

text \<open>
  C36. A compile is only ever dispatched to a server the operator intends (approved and enabled) whose
  link is open, whose esphome is compatible under the policy or provisionable, and that drives no
  other job; the server is an idle one, or, when no such server is idle, the one paired longest ago.
\<close>
theorem dispatch_remote_sound:
  assumes "outcome (pick_dispatch_target inp) = DispatchOutcome.REMOTE"
  shows "remote_builds_enabled inp \<and>
    (\<exists>pin p. decision_pin (pick_dispatch_target inp) = Some pin \<and> (pin, p) \<in> set (pairings inp) \<and>
       usable inp (pin, p) \<and> \<not> busy inp (pin, p) \<and>
       ((\<exists>snap. dict_get (peer_queue_status inp) pin = Some snap \<and> peer_idle snap) \<or>
        (\<forall>it \<in> set (pairings inp). usable inp it \<and> \<not> busy inp it \<longrightarrow>
           (\<forall>snap. dict_get (peer_queue_status inp) (fst it) = Some snap \<longrightarrow> \<not> peer_idle snap) \<and>
           (paired_at p, pin) \<le> (paired_at (snd it), fst it))))"
proof -
  obtain pin where "pick_free_pin (eligible_pairings inp) (peer_queue_status inp) = Some pin"
    and "decision_pin (pick_dispatch_target inp) = Some pin" and "remote_builds_enabled inp"
    using assms
    by (auto simp: pick_dispatch_target_def Let_def DispatchDecision_local_def DispatchDecision_wait_def
        DispatchDecision_remote_def DispatchDecision_no_compatible_peer_def
        split: if_splits option.splits)
  then show ?thesis using pick_free_pin_spec by blast
qed

text \<open>Two servers for the witnesses: an old one that is busy and a newer one.\<close>

definition ex_pairing :: "string \<Rightarrow> rat \<Rightarrow> string \<Rightarrow> StoredPairing" where
  "ex_pairing pin t v =
     \<lparr>pairing_pin = pin, pairing_label = pin, paired_at = t, pairing_status = APPROVED,
      pairing_version = v, enabled = True, auto_provision_supported = False,
      analyze_memory_supported = True, reset_build_env_supported = True\<rparr>"

definition ex_inputs :: "(string, StoredPairing) dict \<Rightarrow> string set \<Rightarrow> bool \<Rightarrow> BuildSchedulerInputs" where
  "ex_inputs ps busy_pins share =
     \<lparr>remote_builds_enabled = True, pairings = ps, open_peer_links = fst ` set ps,
      peer_queue_status = [], offloader_esphome_version = ''2026.5.0'',
      version_match_policy = EXACT_REQUIRED, busy_build_server_pins = busy_pins,
      include_local_in_pool = share, local_compile_busy = False\<rparr>"

lemma dispatch_remote_sound_witness:
  "(\<exists>pin p. decision_pin (pick_dispatch_target
       (ex_inputs [(''pa'', ex_pairing ''pa'' 1 ''2026.5.0'')] {} False)) = Some pin)"
proof -
  have "outcome (pick_dispatch_target
       (ex_inputs [(''pa'', ex_pairing ''pa'' 1 ''2026.5.0'')] {} False)) = DispatchOutcome.REMOTE"
    by code_simp
  from dispatch_remote_sound [OF this] show ?thesis by blast
qed

lemma dispatch_outcome_iff_aux:
  "outcome (pick_dispatch_target inp) =
    (if \<not> remote_builds_enabled inp then DispatchOutcome.LOCAL
     else if \<exists>it \<in> set (pairings inp). usable inp it \<and> \<not> busy inp it then DispatchOutcome.REMOTE
     else if \<exists>it \<in> set (pairings inp). usable inp it
     then (if include_local_in_pool inp \<and> \<not> local_compile_busy inp
           then DispatchOutcome.LOCAL else DispatchOutcome.WAIT)
     else if version_match_policy inp = EXACT_REQUIRED \<and> (\<exists>it \<in> set (pairings inp). intended it)
     then (if \<exists>it \<in> set (pairings inp). intended it \<and> \<not> link_open inp it
           then DispatchOutcome.WAIT else DispatchOutcome.NO_COMPATIBLE_PEER)
     else DispatchOutcome.LOCAL)"
proof (cases "\<exists>it \<in> set (pairings inp). usable inp it \<and> \<not> busy inp it")
  case True
  then obtain pin where "pick_free_pin (eligible_pairings inp) (peer_queue_status inp) = Some pin"
    using pick_free_pin_None_iff eligible_Nil_iff by (metis not_Some_eq)
  then show ?thesis
    using True by (simp add: pick_dispatch_target_def DispatchDecision_remote_def
        DispatchDecision_local_def)
next
  case False
  then have none: "pick_free_pin (eligible_pairings inp) (peer_queue_status inp) = None"
    by (simp only: pick_free_pin_None_iff eligible_Nil_iff not_False_eq_True)
  have "0 < busy_eligible (eligible_pairings inp) \<longleftrightarrow> (\<exists>it \<in> set (pairings inp). usable inp it)"
    using False unfolding eligible_pairings_eq FilterResult.simps count_pos_iff set_ordered_pairings
    by blast
  moreover have "0 < intentional (eligible_pairings inp) \<longleftrightarrow> (\<exists>it \<in> set (pairings inp). intended it)"
    unfolding eligible_pairings_eq FilterResult.simps count_pos_iff set_ordered_pairings by (rule refl)
  moreover have "0 < disconnected (eligible_pairings inp) \<longleftrightarrow>
      (\<exists>it \<in> set (pairings inp). intended it \<and> \<not> link_open inp it)"
    unfolding eligible_pairings_eq FilterResult.simps count_pos_iff set_ordered_pairings by (rule refl)
  ultimately show ?thesis
    using False
    by (simp only: pick_dispatch_target_def Let_def none option.simps if_distrib [of outcome]
        DispatchDecision_local_def DispatchDecision_wait_def DispatchDecision_remote_def
        DispatchDecision_no_compatible_peer_def DispatchDecision.simps if_False
        conj_commute [of "version_match_policy inp = EXACT_REQUIRED"])
qed

text \<open>
  The outcome of a dispatch, decided by which pairings exist: a free usable server takes the
  compile; with usable servers that are all busy the pool waits, or shares the load with the free
  local lane when the operator opted in; under \<open>EXACT_REQUIRED\<close> an intended server that is merely
  disconnected is waited for and only connected but incompatible ones fail the job; otherwise, and
  whenever remote builds are off, the compile goes local.
\<close>
lemma dispatch_outcome_iff:
  "outcome (pick_dispatch_target inp) =
    (if \<not> remote_builds_enabled inp then DispatchOutcome.LOCAL
     else if \<exists>it \<in> set (pairings inp). usable inp it \<and> \<not> busy inp it then DispatchOutcome.REMOTE
     else if \<exists>it \<in> set (pairings inp). usable inp it
     then (if include_local_in_pool inp \<and> \<not> local_compile_busy inp
           then DispatchOutcome.LOCAL else DispatchOutcome.WAIT)
     else if version_match_policy inp = EXACT_REQUIRED \<and> (\<exists>it \<in> set (pairings inp). intended it)
     then (if \<exists>it \<in> set (pairings inp). intended it \<and> \<not> link_open inp it
           then DispatchOutcome.WAIT else DispatchOutcome.NO_COMPATIBLE_PEER)
     else DispatchOutcome.LOCAL)"
  by (rule dispatch_outcome_iff_aux)



text \<open>
  With no server busy, submit time and dispatch time agree: the submit-time decision is a server
  exactly when the dispatch-time decision is that server, and is an error exactly when the dispatch
  would wait for, or fail on, intended servers that cannot take the compile.
\<close>
lemma submit_dispatch_agree:
  assumes "busy_build_server_pins inp = {}"
  shows "(case pick_build_path inp of
            Inr d \<Rightarrow> (case path d of
                BuildPath.REMOTE \<Rightarrow> outcome (pick_dispatch_target inp) = DispatchOutcome.REMOTE \<and>
                  decision_pin (pick_dispatch_target inp) = path_pin d \<and> path_pin d \<noteq> None
              | BuildPath.LOCAL \<Rightarrow> pick_dispatch_target inp = DispatchDecision_local \<and> path_pin d = None)
          | Inl e \<Rightarrow> is_command_error ErrorCode.NO_COMPATIBLE_PEER (Inl e :: unit result) \<and>
              outcome (pick_dispatch_target inp)
                \<in> {DispatchOutcome.WAIT, DispatchOutcome.NO_COMPATIBLE_PEER})"
proof -
  have "busy_eligible (eligible_pairings inp) = 0"
    using assms by (simp add: eligible_pairings_eq busy_def)
  then show ?thesis
    by (auto simp: pick_build_path_def pick_dispatch_target_def Let_def BuildPathDecision_local_def
        BuildPathDecision_remote_def DispatchDecision_local_def DispatchDecision_wait_def
        DispatchDecision_remote_def DispatchDecision_no_compatible_peer_def split: option.splits)
qed

lemma submit_dispatch_agree_witness:
  "decision_pin (pick_dispatch_target
     (ex_inputs [(''pb'', ex_pairing ''pb'' 2 ''2026.5.0''), (''pa'', ex_pairing ''pa'' 1 ''2026.5.0'')]
        {} True)) = Some ''pa''"
proof -
  let ?inp = "ex_inputs [(''pb'', ex_pairing ''pb'' 2 ''2026.5.0''),
     (''pa'', ex_pairing ''pa'' 1 ''2026.5.0'')] {} True"
  have "busy_build_server_pins ?inp = {}" by (simp add: ex_inputs_def)
  moreover have "pick_build_path ?inp = Inr (BuildPathDecision_remote ''pa'')" by code_simp
  ultimately show ?thesis
    using submit_dispatch_agree [of ?inp] by (simp add: BuildPathDecision_remote_def)
qed

text \<open>
  The order in which pairings were inserted in the sidecar never matters: two inputs that hold
  the same pairings give the same dispatch decision and the same build path.
\<close>
lemma dispatch_order_irrelevant:
  assumes "dict_ok (pairings inp)" "dict_ok ps" "set ps = set (pairings inp)"
  shows "pick_dispatch_target (inp\<lparr>pairings := ps\<rparr>) = pick_dispatch_target inp \<and>
         pick_build_path (inp\<lparr>pairings := ps\<rparr>) = pick_build_path inp"
proof -
  have inj: "inj_on (\<lambda>(pin, p). (paired_at p, pin)) (set ps)"
  proof (rule inj_onI, clarsimp)
    fix pin p p' assume "(pin, p) \<in> set ps" "(pin, p') \<in> set ps"
    then show "p = p'" using assms(2) eq_key_imp_eq_value by (fastforce simp: dict_ok_def)
  qed
  have "ordered_pairings (inp\<lparr>pairings := ps\<rparr>) = ordered_pairings inp"
    using assms sort_by_perm [OF assms(3) _ _ inj]
    by (simp add: ordered_pairings_def dict_ok_def distinct_map)
  then have "eligible_pairings (inp\<lparr>pairings := ps\<rparr>) = eligible_pairings inp"
    by (simp add: eligible_pairings_eq filter_preds)
  moreover have "no_compatible_peer_message r (inp\<lparr>pairings := ps\<rparr>) = no_compatible_peer_message r inp" for r
    by (simp add: no_compatible_peer_message_def)
  ultimately show ?thesis
    by (simp add: pick_dispatch_target_def pick_build_path_def Let_def cong: option.case_cong if_cong)
qed

lemma dispatch_order_irrelevant_witness:
  "pick_dispatch_target
     (ex_inputs [(''pb'', ex_pairing ''pb'' 2 ''2026.5.0''), (''pa'', ex_pairing ''pa'' 1 ''2026.5.0'')]
        {} True) = DispatchDecision_remote ''pa''"
proof -
  let ?ps = "[(''pb'', ex_pairing ''pb'' 2 ''2026.5.0''), (''pa'', ex_pairing ''pa'' 1 ''2026.5.0'')]"
  let ?inp = "ex_inputs (rev ?ps) {} True"
  have "dict_ok (pairings ?inp)" "dict_ok ?ps" "set ?ps = set (pairings ?inp)"
    by (simp_all add: ex_inputs_def dict_ok_def insert_commute)
  from dispatch_order_irrelevant [OF this]
  have "pick_dispatch_target (?inp\<lparr>pairings := ?ps\<rparr>) = pick_dispatch_target ?inp" ..
  moreover have "pick_dispatch_target ?inp = DispatchDecision_remote ''pa''" by code_simp
  moreover have "?inp\<lparr>pairings := ?ps\<rparr> = ex_inputs ?ps {} True"
    by (auto simp: ex_inputs_def)
  ultimately show ?thesis by simp
qed

text \<open>A memory analysis is only ever sent to a server that accepts it.\<close>

lemma analyze_memory_supported_remote:
  assumes "outcome (pick_dispatch_target (inputs_for_job_type inp ANALYZE_MEMORY)) = DispatchOutcome.REMOTE"
  shows "\<exists>pin p. decision_pin (pick_dispatch_target (inputs_for_job_type inp ANALYZE_MEMORY)) = Some pin \<and>
     (pin, p) \<in> set (pairings inp) \<and> analyze_memory_supported p"
proof -
  obtain pin where
    "pick_free_pin (eligible_pairings (inputs_for_job_type inp ANALYZE_MEMORY))
       (peer_queue_status (inputs_for_job_type inp ANALYZE_MEMORY)) = Some pin"
    "decision_pin (pick_dispatch_target (inputs_for_job_type inp ANALYZE_MEMORY)) = Some pin"
    using assms
    by (auto simp: pick_dispatch_target_def Let_def DispatchDecision_local_def DispatchDecision_wait_def
        DispatchDecision_remote_def DispatchDecision_no_compatible_peer_def
        split: if_splits option.splits)
  then show ?thesis using pick_free_pin_spec by (fastforce simp: inputs_for_job_type_def)
qed

end
