(* ===== verification/EventBus.thy ===== *)
theory EventBus
  imports Prelude "HOL-Library.Sublist"
begin

text \<open>
  \<open>helpers/event_bus.py\<close>: the synchronous bus (listener buckets, \<open>fire\<close> over a snapshot of the bucket
  with each listener's exception swallowed, the \<open>listening\<close> block) and the bounded queue between the
  bus and a WebSocket client with its four push primitives and its drain loop. A listener is an
  opaque callback: \<open>call\<close> says what it does to the bus and the world around it, and whether it raises.
  The lemmas show that every subscribed listener is called whatever the others raise, that a
  \<open>listening\<close> block leaves the subscriptions as it found them, that the stream queue stays bounded
  and in order, and what each push primitive guarantees.
\<close>

section \<open>Event types\<close>

datatype EventType =
    DEVICE_ADDED | DEVICE_REMOVED | DEVICE_UPDATED | DEVICE_YAML_UPDATED | DEVICE_STATE_CHANGED
    | DEVICE_REACHABILITY | IMPORTABLE_DEVICE_ADDED | IMPORTABLE_DEVICE_REMOVED | LABEL_CREATED
    | LABEL_UPDATED | LABEL_DELETED | JOB_QUEUED | JOB_STARTED | JOB_OUTPUT | JOB_PROGRESS
    | JOB_COMPLETED | JOB_FAILED | JOB_CANCELLED | REMOTE_BUILD_IDENTITY_ROTATED
    | REMOTE_BUILD_LISTENER_CHANGED | REMOTE_BUILD_PAIR_REQUEST_RECEIVED
    | REMOTE_BUILD_PAIR_STATUS_CHANGED | REMOTE_BUILD_PEER_REFRESHED
    | OFFLOADER_PAIR_STATUS_CHANGED | OFFLOADER_PAIRING_ADDED | OFFLOADER_PAIR_ENDPOINT_REBOUND
    | REMOTE_BUILD_PAIRING_WINDOW_CHANGED | REMOTE_BUILD_HOST_ADDED | REMOTE_BUILD_HOST_REMOVED
    | OFFLOADER_PEER_LINK_OPENED | OFFLOADER_PEER_LINK_CLOSED
    | RECEIVER_PEER_LINK_SESSION_OPENED | RECEIVER_PEER_LINK_SESSION_CLOSED
    | OFFLOADER_PAIR_PIN_MISMATCH | OFFLOADER_PAIR_PEER_REVOKED
    | OFFLOADER_PAIR_ALERT_DISMISSED | OFFLOADER_QUEUE_STATUS_CHANGED
    | OFFLOADER_JOB_STATE_CHANGED | OFFLOADER_JOB_OUTPUT | OFFLOADER_REMOTE_BUILDS_TOGGLED
    | OFFLOADER_PAIRING_ENABLED_CHANGED | OFFLOADER_VERSION_MATCH_POLICY_CHANGED
    | OFFLOADER_INCLUDE_LOCAL_CHANGED

definition TERMINAL_JOB_EVENTS :: "EventType set" where
  "TERMINAL_JOB_EVENTS = {JOB_COMPLETED, JOB_FAILED, JOB_CANCELLED}"

section \<open>The bus\<close>

text \<open>A bucket is a Python set: a list without repetition, its order left to the implementation.\<close>

type_synonym ('e, 'l) EventBus = "('e, 'l list) dict"

definition listeners_of :: "('e, 'l) EventBus \<Rightarrow> 'e \<Rightarrow> 'l list" where
  "listeners_of b e = (case dict_get b e of None \<Rightarrow> [] | Some ls \<Rightarrow> ls)"

definition add_listener :: "'e \<Rightarrow> 'l \<Rightarrow> ('e, 'l) EventBus \<Rightarrow> ('e, 'l) EventBus" where
  "add_listener e l b = dict_set e (keys_add l (listeners_of b e)) b"

definition has_listeners :: "('e, 'l) EventBus \<Rightarrow> 'e \<Rightarrow> bool" where
  "has_listeners b e \<longleftrightarrow> listeners_of b e \<noteq> []"

definition remove_listener :: "'e \<Rightarrow> 'l \<Rightarrow> ('e, 'l) EventBus \<Rightarrow> ('e, 'l) EventBus" where
  "remove_listener e l b =
     (case dict_get b e of None \<Rightarrow> b | Some ls \<Rightarrow> dict_set e (keys_pop l ls) b)"

text \<open>
  What calling a listener does: it may change the bus and the world, and then returns or raises; the
  changes made before a raise stay.
\<close>

type_synonym ('e, 'd, 'l, 'w) callback =
  "'l \<Rightarrow> 'e \<times> 'd \<Rightarrow> ('e, 'l) EventBus \<times> 'w \<Rightarrow> exn option \<times> (('e, 'l) EventBus \<times> 'w)"

fun call_all ::
    "('e, 'd, 'l, 'w) callback \<Rightarrow> 'e \<times> 'd \<Rightarrow> 'l list \<Rightarrow> ('e, 'l) EventBus \<times> 'w \<Rightarrow> ('e, 'l) EventBus \<times> 'w"
where
  "call_all call ev [] st = st"
| "call_all call ev (l # ls) st =
     (case call l ev st of
        (None, st') \<Rightarrow> call_all call ev ls st'
      | (Some exc, st') \<Rightarrow> call_all call ev ls st')"   \<comment> \<open>logged, not raised\<close>

definition fire ::
    "('e, 'd, 'l, 'w) callback \<Rightarrow> 'e \<Rightarrow> 'd \<Rightarrow> ('e, 'l) EventBus \<times> 'w \<Rightarrow> ('e, 'l) EventBus \<times> 'w"
where
  "fire call e d st = call_all call (e, d) (listeners_of (fst st) e) st"

text \<open>
  The \<open>listening\<close> block: subscribe to every event type in turn, run the body, unsubscribe from all of
  them whether the body returned or raised.
\<close>

definition listening ::
    "'e list \<Rightarrow> 'l \<Rightarrow> (('e, 'l) EventBus \<times> 'w \<Rightarrow> 'r result \<times> (('e, 'l) EventBus \<times> 'w)) \<Rightarrow>
     ('e, 'l) EventBus \<times> 'w \<Rightarrow> 'r result \<times> (('e, 'l) EventBus \<times> 'w)"
where
  "listening es l body st =
     (case body (fold (\<lambda>e. add_listener e l) es (fst st), snd st) of
        (r, (b, w)) \<Rightarrow> (r, (fold (\<lambda>e. remove_listener e l) es b, w)))"

lemma listeners_of_Nil [simp]: "listeners_of [] e = []"
  by (simp add: listeners_of_def)

lemma listeners_of_add [simp]:
  "listeners_of (add_listener e l b) e' = (if e' = e then keys_add l (listeners_of b e) else listeners_of b e')"
  by (simp add: listeners_of_def add_listener_def)

lemma listeners_of_remove [simp]:
  "listeners_of (remove_listener e l b) e' =
     (if e' = e then keys_pop l (listeners_of b e) else listeners_of b e')"
  by (auto simp: listeners_of_def remove_listener_def keys_pop_def split: option.splits)

lemma listeners_of_fold_add:
  "listeners_of (fold (\<lambda>e. add_listener e l) es b) e' =
     (if e' \<in> set es then keys_add l (listeners_of b e') else listeners_of b e')"
  by (induction es arbitrary: b) (auto simp: keys_add_def)

lemma listeners_of_fold_remove:
  "listeners_of (fold (\<lambda>e. remove_listener e l) es b) e' =
     (if e' \<in> set es then keys_pop l (listeners_of b e') else listeners_of b e')"
  by (induction es arbitrary: b) (auto simp: keys_pop_def)

text \<open>The same listeners, each call logged.\<close>

definition logged :: "('e, 'd, 'l, 'w) callback \<Rightarrow> ('e, 'd, 'l, 'w \<times> 'l list) callback" where
  "logged call l ev st =
     (case st of (b, (w, tr)) \<Rightarrow> case call l ev (b, w) of (x, (b', w')) \<Rightarrow> (x, (b', (w', tr @ [l]))))"

lemma call_all_logged:
  "call_all (logged call) ev ls (b, (w, tr)) =
     (let (b', w') = call_all call ev ls (b, w) in (b', (w', tr @ ls)))"
  by (induction ls arbitrary: b w tr) (auto simp: logged_def split: option.splits prod.splits)

text \<open>
  Firing an event calls every listener subscribed at that moment exactly once, in the order of the
  bucket, whatever the listeners raise and however they change the subscriptions while it runs; the
  logging itself changes nothing.
\<close>
lemma fire_reaches_all:
  "snd (snd (fire (logged call) e d (b, (w, [])))) = listeners_of b e \<and>
   (fst (fire (logged call) e d (b, (w, []))), fst (snd (fire (logged call) e d (b, (w, []))))) =
     fire call e d (b, w)"
  by (simp add: fire_def call_all_logged case_prod_unfold Let_def)

text \<open>
  A \<open>listening\<close> block that starts without the listener's subscription leaves every bucket as it
  found it, when its body leaves the buckets alone, also when the body raises; while the body runs the
  listener is subscribed to each of the event types.
\<close>
lemma listening_restores:
  assumes "\<forall>e \<in> set es. l \<notin> set (listeners_of b e)"
    and "\<And>st e. listeners_of (fst (snd (body st))) e = listeners_of (fst st) e"
  shows "listeners_of (fst (snd (listening es l body (b, w)))) e = listeners_of b e \<and>
         (\<forall>e \<in> set es. l \<in> set (listeners_of (fold (\<lambda>e. add_listener e l) es b) e)) \<and>
         fst (listening es l body (b, w)) = fst (body (fold (\<lambda>e. add_listener e l) es b, w))"
  using assms(1) assms(2) [of "(fold (\<lambda>e. add_listener e l) es b, w)" e]
  by (auto simp: listening_def listeners_of_fold_add listeners_of_fold_remove case_prod_unfold)

lemma listening_restores_witness:
  "listeners_of (fst (snd (listening [JOB_OUTPUT, JOB_FAILED] (7::nat)
      (\<lambda>st. (Inl (RuntimeError ''x'') :: unit result, st)) ([(JOB_FAILED, [3])], ())))) JOB_FAILED = [3]"
proof -
  let ?b = "[(JOB_FAILED, [3::nat])]"
  have "\<forall>e \<in> set [JOB_OUTPUT, JOB_FAILED]. 7 \<notin> set (listeners_of ?b e)"
    by (simp add: listeners_of_def)
  then show ?thesis
    using listening_restores [of "[JOB_OUTPUT, JOB_FAILED]" 7 ?b
        "\<lambda>st. (Inl (RuntimeError ''x'') :: unit result, st)" "()" JOB_FAILED]
    by (simp add: listeners_of_def)
qed

section \<open>The stream queue\<close>

text \<open>\<open>asyncio.Queue\<close>: full only when a positive \<open>maxsize\<close> is reached.\<close>

definition q_full :: "int \<Rightarrow> 'a list \<Rightarrow> bool" where
  "q_full maxsize q \<longleftrightarrow> 0 < maxsize \<and> maxsize \<le> int (length q)"

definition put_nowait :: "int \<Rightarrow> 'a \<Rightarrow> 'a list \<Rightarrow> 'a list option" where
  "put_nowait maxsize x q = (if q_full maxsize q then None else Some (q @ [x]))"

fun get_nowait :: "'a list \<Rightarrow> ('a \<times> 'a list) option" where
  "get_nowait [] = None"
| "get_nowait (x # q) = Some (x, q)"

text \<open>What travels in the queue: an event for the client, the terminate sentinel, or \<open>None\<close>.\<close>

datatype 'p stream_item = Item string 'p | Terminate | EndOfStream

definition DEFAULT_STREAM_QUEUE_MAX :: int where
  "DEFAULT_STREAM_QUEUE_MAX = 4000"

function force_enqueue :: "int \<Rightarrow> 'a \<Rightarrow> 'a list \<Rightarrow> 'a list" where
  "force_enqueue maxsize x q =
     (case put_nowait maxsize x q of
        Some q' \<Rightarrow> q'
      | None \<Rightarrow> (case get_nowait q of
                   None \<Rightarrow> q
                 | Some (_, q') \<Rightarrow> force_enqueue maxsize x q'))"
  by pat_completeness auto
termination
  by (relation "measure (\<lambda>(m, x, q). length q)") (auto elim: get_nowait.elims)

declare force_enqueue.simps [simp del]

definition push :: "int \<Rightarrow> string \<Rightarrow> 'p \<Rightarrow> 'p stream_item list \<Rightarrow> 'p stream_item list" where
  "push maxsize name p q = (case put_nowait maxsize (Item name p) q of None \<Rightarrow> q | Some q' \<Rightarrow> q')"

definition push_priority :: "int \<Rightarrow> string \<Rightarrow> 'p \<Rightarrow> 'p stream_item list \<Rightarrow> 'p stream_item list" where
  "push_priority maxsize name p q = force_enqueue maxsize (Item name p) q"

definition push_or_terminate :: "int \<Rightarrow> string \<Rightarrow> 'p \<Rightarrow> 'p stream_item list \<Rightarrow> 'p stream_item list" where
  "push_or_terminate maxsize name p q =
     (case put_nowait maxsize (Item name p) q of
        Some q' \<Rightarrow> q'
      | None \<Rightarrow> force_enqueue maxsize Terminate q)"

definition end_stream :: "int \<Rightarrow> 'p stream_item list \<Rightarrow> 'p stream_item list" where
  "end_stream maxsize q = force_enqueue maxsize EndOfStream q"

text \<open>How the drain loop stands: waiting for items, returned, or raised.\<close>

datatype stream_state = Draining | Returned | Raised

record 'p stream =
  queue :: "'p stream_item list"
  sent :: "(string \<times> 'p) list"
  drain_state :: stream_state

text \<open>One turn of the drain loop; on an empty queue \<open>queue.get()\<close> waits.\<close>

definition drain_one :: "'p stream \<Rightarrow> 'p stream" where
  "drain_one s =
     (if drain_state s \<noteq> Draining then s
      else (case get_nowait (queue s) of
              None \<Rightarrow> s
            | Some (EndOfStream, q) \<Rightarrow> s\<lparr>queue := q, drain_state := Returned\<rparr>
            | Some (Terminate, q) \<Rightarrow> s\<lparr>queue := q, drain_state := Raised\<rparr>
            | Some (Item name p, q) \<Rightarrow> s\<lparr>queue := q, sent := sent s @ [(name, p)]\<rparr>))"

section \<open>The queue as a first-in first-out interface\<close>

text \<open>
  What the clients of an \<open>asyncio.Queue\<close> rely on: a put appends unless the queue is full, a get takes
  the front unless it is empty. \<open>fifo_run\<close> plays a sequence of operations, \<open>Some x\<close> a put that is
  given up when the queue is full, \<open>None\<close> a get that is given up when it is empty.
\<close>

fun fifo_run ::
    "('a \<Rightarrow> 'q \<Rightarrow> 'q option) \<Rightarrow> ('q \<Rightarrow> ('a \<times> 'q) option) \<Rightarrow> 'a option list \<Rightarrow> 'a list \<times> 'q \<Rightarrow> 'a list \<times> 'q"
where
  "fifo_run put get [] st = st"
| "fifo_run put get (Some x # ops) (taken, q) =
     fifo_run put get ops (taken, case put x q of None \<Rightarrow> q | Some q' \<Rightarrow> q')"
| "fifo_run put get (None # ops) (taken, q) =
     fifo_run put get ops (case get q of None \<Rightarrow> (taken, q) | Some (x, q') \<Rightarrow> (taken @ [x], q'))"

definition puts :: "'a option list \<Rightarrow> 'a list" where
  "puts ops = List.map_filter id ops"

lemma puts_simps [simp]: "puts [] = []" "puts (Some x # ops) = x # puts ops" "puts (None # ops) = puts ops"
  by (simp_all add: puts_def map_filter_simps)

locale fifo =
  fixes put :: "'a \<Rightarrow> 'q \<Rightarrow> 'q option" and get :: "'q \<Rightarrow> ('a \<times> 'q) option"
    and contents :: "'q \<Rightarrow> 'a list" and full :: "'q \<Rightarrow> bool"
  assumes put_None: "put x q = None \<longleftrightarrow> full q"
    and put_Some: "put x q = Some q' \<Longrightarrow> contents q' = contents q @ [x]"
    and get_None: "get q = None \<longleftrightarrow> contents q = []"
    and get_Some: "get q = Some (x, q') \<Longrightarrow> contents q = x # contents q'"
begin

text \<open>Nothing is duplicated or reordered: what was taken and what is left were put in this order.\<close>

lemma fifo_run_subseq:
  "fifo_run put get ops (taken, q) = (taken', q') \<Longrightarrow>
     subseq (taken' @ contents q') ((taken @ contents q) @ puts ops)"
proof (induction ops arbitrary: taken q)
  case (Cons op ops)
  show ?case
  proof (cases op)
    case None
    show ?thesis
    proof (cases "get q")
      case None
      then show ?thesis using Cons \<open>op = None\<close> by simp
    next
      case (Some xr)
      obtain x r where "xr = (x, r)" by (cases xr)
      then show ?thesis
        using Cons \<open>op = None\<close> Some get_Some [of q x r] Cons.IH [of "taken @ [x]" r] by simp
    qed
  next
    case (Some x)
    show ?thesis
    proof (cases "put x q")
      case None
      then have "subseq (taken' @ contents q') ((taken @ contents q) @ puts ops)"
        using Cons Some by simp
      moreover have "subseq ((taken @ contents q) @ puts ops) ((taken @ contents q) @ x # puts ops)"
        by (intro list_emb_append_mono) auto
      ultimately show ?thesis using \<open>op = Some x\<close> by (simp del: append_assoc)
    next
      case (Some r)
      then show ?thesis using Cons \<open>op = Some x\<close> put_Some [OF Some] Cons.IH [of taken r] by simp
    qed
  qed
qed simp

text \<open>While it is never full, nothing is lost either.\<close>

lemma fifo_run_exact:
  "fifo_run put get ops (taken, q) = (taken', q') \<Longrightarrow> (\<And>r. \<not> full r) \<Longrightarrow>
     taken' @ contents q' = (taken @ contents q) @ puts ops"
proof (induction ops arbitrary: taken q)
  case (Cons op ops)
  show ?case
  proof (cases op)
    case None
    show ?thesis
    proof (cases "get q")
      case None
      then show ?thesis using Cons \<open>op = None\<close> by simp
    next
      case (Some xr)
      obtain x r where "xr = (x, r)" by (cases xr)
      then show ?thesis
        using Cons \<open>op = None\<close> Some get_Some [of q x r] Cons.IH [of "taken @ [x]" r] by simp
    qed
  next
    case (Some x)
    then obtain r where "put x q = Some r" using put_None [of x q] Cons.prems(2) by (cases "put x q") auto
    then show ?thesis using Cons Some put_Some by simp
  qed
qed simp

end

text \<open>The bounded queue of a stream, and the unbounded queue (\<open>asyncio.Queue()\<close>) of a lane.\<close>

interpretation stream_q: fifo "put_nowait maxsize" get_nowait "\<lambda>q. q" "q_full maxsize" for maxsize :: int
proof
  show "get_nowait q = None \<longleftrightarrow> q = []" for q :: "'a list" by (cases q) auto
  show "get_nowait q = Some (x, q') \<Longrightarrow> q = x # q'" for q q' :: "'a list" and x by (cases q) auto
qed (auto simp: put_nowait_def split: if_splits)

lemma unbounded_not_full [simp]: "\<not> q_full 0 q"
  by (simp add: q_full_def)

section \<open>Forced items\<close>

lemma force_enqueue_not_full: "\<not> q_full m q \<Longrightarrow> force_enqueue m x q = q @ [x]"
  by (subst force_enqueue.simps) (simp add: put_nowait_def)

lemma force_enqueue_full:
  assumes "q_full m q"
  shows "force_enqueue m x q = drop (Suc (length q) - nat m) q @ [x]"
  using assms
proof (induction q)
  case (Cons y q)
  have step: "force_enqueue m x (y # q) = force_enqueue m x q"
    using Cons.prems by (subst force_enqueue.simps) (simp add: put_nowait_def)
  show ?case
  proof (cases "q_full m q")
    case True
    moreover from True have "nat m \<le> length q" by (auto simp: q_full_def nat_le_iff)
    ultimately show ?thesis using Cons.IH step by (simp add: Suc_diff_le)
  next
    case False
    then have "m = int (length (y # q))" using Cons.prems by (auto simp: q_full_def)
    then show ?thesis using force_enqueue_not_full [OF False] step by (simp add: nat_add_distrib)
  qed
qed (auto simp: q_full_def)

lemma force_enqueue_eq:
  "force_enqueue m x q = (if q_full m q then drop (Suc (length q) - nat m) q else q) @ [x]"
  by (simp add: force_enqueue_full force_enqueue_not_full)

lemma length_force_enqueue:
  "0 < m \<Longrightarrow> int (length q) \<le> m \<Longrightarrow> int (length (force_enqueue m x q)) \<le> m"
  by (auto simp: force_enqueue_eq q_full_def)

text \<open>
  With a bounded queue exactly the last \<open>maxsize\<close> forced items survive until the drain loop runs:
  \<open>push_priority\<close> always lands its own item, and a further priority push evicts the oldest one, a
  priority item included.
\<close>
lemma push_priority_keeps_last:
  assumes "0 < maxsize"
  shows "foldl (\<lambda>q (name, p). push_priority maxsize name p q) [] items =
           map (\<lambda>(name, p). Item name p) (drop (length items - nat maxsize) items)"
proof (induction items rule: rev_induct)
  case (snoc it items)
  define q where "q = map (\<lambda>(name, p). Item name p) (drop (length items - nat maxsize) items)"
  have q: "length q = (if length items \<le> nat maxsize then length items else nat maxsize)"
    by (auto simp: q_def)
  show ?case
  proof (cases "length items < nat maxsize")
    case True
    then have "\<not> q_full maxsize q" using q by (auto simp: q_full_def)
    then show ?thesis using True snoc
      by (simp add: push_priority_def force_enqueue_not_full case_prod_unfold q_def)
  next
    case False
    then have len: "length q = nat maxsize" using q by auto
    then have "q_full maxsize q" using assms by (simp add: q_full_def)
    then have "force_enqueue maxsize x q = drop 1 q @ [x]" for x
      using len by (simp add: force_enqueue_full)
    moreover have "drop 1 q = map (\<lambda>(name, p). Item name p) (drop (Suc (length items) - nat maxsize) items)"
      using False by (simp add: q_def drop_map Suc_diff_le)
    moreover have "Suc (length items) - nat maxsize \<le> length items" using assms by auto
    ultimately show ?thesis using snoc unfolding q_def [symmetric]
      by (simp add: push_priority_def case_prod_unfold)
  qed
qed simp

lemma push_priority_keeps_last_witness:
  "foldl (\<lambda>q (name, p). push_priority 2 name p q) [] [(''result'', 1::nat), (''state'', 2), (''state'', 3)] =
     [Item ''state'' 2, Item ''state'' 3]"
  using push_priority_keeps_last [of 2 "[(''result'', 1::nat), (''state'', 2), (''state'', 3)]"] by simp

section \<open>The stream as a state machine\<close>

text \<open>
  The operations on a stream: the three pushes and \<open>end()\<close>, which the synchronous bus runs between
  turns of the drain loop, and the turns. Once the drain loop has returned or raised, the \<open>listening\<close>
  block has ended and nothing is pushed any more.
\<close>

datatype 'p stream_op = Push string 'p | PushPriority string 'p | PushOrTerminate string 'p | End | Drain

fun stream_step :: "int \<Rightarrow> 'p stream \<Rightarrow> 'p stream_op \<Rightarrow> 'p stream" where
  "stream_step m s op =
     (if drain_state s \<noteq> Draining then s
      else case op of
        Push n p \<Rightarrow> s\<lparr>queue := push m n p (queue s)\<rparr>
      | PushPriority n p \<Rightarrow> s\<lparr>queue := push_priority m n p (queue s)\<rparr>
      | PushOrTerminate n p \<Rightarrow> s\<lparr>queue := push_or_terminate m n p (queue s)\<rparr>
      | End \<Rightarrow> s\<lparr>queue := end_stream m (queue s)\<rparr>
      | Drain \<Rightarrow> drain_one s)"

declare stream_step.simps [simp del]

definition stream_start :: "'p stream" where
  "stream_start = \<lparr>queue = [], sent = [], drain_state = Draining\<rparr>"

abbreviation stream_run :: "int \<Rightarrow> 'p stream_op list \<Rightarrow> 'p stream" where
  "stream_run m ops \<equiv> foldl (stream_step m) stream_start ops"

text \<open>The events in a queue and the events offered to it.\<close>

fun item_event :: "'p stream_item \<Rightarrow> (string \<times> 'p) option" where
  "item_event (Item n p) = Some (n, p)"
| "item_event Terminate = None"
| "item_event EndOfStream = None"

fun op_event :: "'p stream_op \<Rightarrow> (string \<times> 'p) option" where
  "op_event (Push n p) = Some (n, p)"
| "op_event (PushPriority n p) = Some (n, p)"
| "op_event (PushOrTerminate n p) = Some (n, p)"
| "op_event End = None"
| "op_event Drain = None"

abbreviation queued_events :: "'p stream_item list \<Rightarrow> (string \<times> 'p) list" where
  "queued_events q \<equiv> List.map_filter item_event q"

abbreviation offered :: "'p stream_op list \<Rightarrow> (string \<times> 'p) list" where
  "offered ops \<equiv> List.map_filter op_event ops"

lemma subseq_appendI [simp]: "subseq xs (xs @ ys)"
  by (simp add: prefix_imp_subseq)

lemma subseq_map_filter: "subseq xs ys \<Longrightarrow> subseq (List.map_filter f xs) (List.map_filter f ys)"
  by (simp add: List.map_filter_def subseq_map subseq_filter)

lemma subseq_drop: "subseq (drop n xs) xs"
  using suffix_drop [of n xs] suffix_imp_subseq by blast

lemma drain_one_cases:
  "drain_one s = s \<or>
   (\<exists>x q. drain_state s = Draining \<and> queue s = x # q \<and> queue (drain_one s) = q \<and>
      sent (drain_one s) = sent s @ List.map_filter item_event [x] \<and>
      drain_state (drain_one s) =
        (case x of Item _ _ \<Rightarrow> Draining | Terminate \<Rightarrow> Raised | EndOfStream \<Rightarrow> Returned))"
  by (cases "queue s")
    (auto simp: drain_one_def split: stream_item.splits)

lemmas push_defs = push_def push_priority_def push_or_terminate_def end_stream_def put_nowait_def

text \<open>What every push does to the queue: it stays in its bound, and only the offered event is new.\<close>

lemma bounded_push:
  assumes "0 < m" "int (length q) \<le> m"
  shows "int (length (push m n p q)) \<le> m" "int (length (push_priority m n p q)) \<le> m"
    "int (length (push_or_terminate m n p q)) \<le> m" "int (length (end_stream m q)) \<le> m"
  using assms length_force_enqueue [OF assms]
  by (auto simp: push_defs q_full_def)

lemma force_subseq:
  "subseq (queued_events (force_enqueue m x q)) (queued_events q @ List.map_filter item_event [x])"
  by (auto simp: force_enqueue_eq subseq_map_filter subseq_drop intro!: list_emb_append_mono)

lemma subseq_push:
  "subseq (queued_events (push m n p q)) (queued_events q @ [(n, p)])"
  "subseq (queued_events (push_priority m n p q)) (queued_events q @ [(n, p)])"
  "subseq (queued_events (push_or_terminate m n p q)) (queued_events q @ [(n, p)])"
  "subseq (queued_events (end_stream m q)) (queued_events q)"
proof -
  show "subseq (queued_events (push m n p q)) (queued_events q @ [(n, p)])"
    by (simp add: push_defs)
  show "subseq (queued_events (push_priority m n p q)) (queued_events q @ [(n, p)])"
    using force_subseq [of m "Item n p" q] by (simp add: push_defs)
  show "subseq (queued_events (end_stream m q)) (queued_events q)"
    using force_subseq [of m EndOfStream q] by (simp add: push_defs)
  have "subseq (queued_events (force_enqueue m Terminate q)) (queued_events q)"
    using force_subseq [of m Terminate q] by simp
  then show "subseq (queued_events (push_or_terminate m n p q)) (queued_events q @ [(n, p)])"
    by (auto simp: push_defs intro: subseq_order.trans)
qed

lemma bounded_step:
  assumes "0 < m" "int (length (queue s)) \<le> m"
  shows "int (length (queue (stream_step m s op))) \<le> m"
  using drain_one_cases [of s] bounded_push [OF assms] assms
  by (cases op) (auto simp: stream_step.simps)

lemma order_step:
  assumes "subseq (sent s @ queued_events (queue s)) evs"
  shows "subseq (sent (stream_step m s op) @ queued_events (queue (stream_step m s op)))
           (evs @ List.map_filter op_event [op])"
proof -
  have more: "subseq zs (evs @ x)" if "subseq zs evs" for zs x
    using that by (auto intro: subseq_order.trans)
  have app: "subseq (sent s @ qe) (evs @ x)" if "subseq qe (queued_events (queue s) @ x)" for qe x
  proof -
    have "subseq (sent s @ qe) (sent s @ queued_events (queue s) @ x)"
      using that by (intro list_emb_append_mono) auto
    moreover have "subseq ((sent s @ queued_events (queue s)) @ x) (evs @ x)"
      using assms by (intro list_emb_append_mono) auto
    ultimately show ?thesis by (simp del: subseq_append)
  qed
  show ?thesis
  proof (cases "drain_state s = Draining")
    case True
    then show ?thesis
    proof (cases op)
      case Drain
      then show ?thesis
        using True drain_one_cases [of s] assms
        by (auto simp: stream_step.simps split: option.splits)
    qed (use True app [OF subseq_push(1)] app [OF subseq_push(2)] app [OF subseq_push(3)]
        app [of _ "[]", simplified, OF subseq_push(4)] in \<open>auto simp: stream_step.simps\<close>)
  next
    case False
    then show ?thesis using more [OF assms] by (simp add: stream_step.simps)
  qed
qed

text \<open>
  C39. Bounded memory and order: whatever is pushed, in whatever interleaving with the drain loop, the
  queue never exceeds its bound, and what the client was sent followed by what still waits is a
  subsequence of the events offered, in the order they were offered and without repetition.
\<close>
theorem stream_bounded_in_order:
  assumes "0 < maxsize"
  shows "int (length (queue (stream_run maxsize ops))) \<le> maxsize \<and>
         subseq (sent (stream_run maxsize ops) @ queued_events (queue (stream_run maxsize ops)))
           (offered ops)"
proof (induction ops rule: rev_induct)
  case Nil
  then show ?case using assms by (simp add: stream_start_def)
next
  case (snoc op ops)
  then show ?case
    using bounded_step [OF assms, of "stream_run maxsize ops" op]
      order_step [of "stream_run maxsize ops" "offered ops" maxsize op]
    by (simp del: map_filter_Cons map_filter_Nil)
qed

lemma stream_bounded_in_order_witness:
  "int (length (queue (stream_run 2 [Push ''a'' (1::nat), Push ''b'' 2, Push ''c'' 3, Drain]))) \<le> 2 \<and>
   sent (stream_run 2 [Push ''a'' (1::nat), Push ''b'' 2, Push ''c'' 3, Drain]) = [(''a'', 1)]"
proof
  show "int (length (queue (stream_run 2 [Push ''a'' (1::nat), Push ''b'' 2, Push ''c'' 3, Drain]))) \<le> 2"
    using stream_bounded_in_order [of 2 "[Push ''a'' (1::nat), Push ''b'' 2, Push ''c'' 3, Drain]"] by simp
  show "sent (stream_run 2 [Push ''a'' (1::nat), Push ''b'' 2, Push ''c'' 3, Drain]) = [(''a'', 1)]"
    by code_simp
qed

text \<open>Streams that only use \<open>push_or_terminate\<close> (\<open>subscribe_events\<close>): no silent loss.\<close>

definition lossless_or_ending :: "(string \<times> 'p) list \<Rightarrow> 'p stream \<Rightarrow> bool" where
  "lossless_or_ending evs s \<longleftrightarrow>
     drain_state s = Raised \<or>
     (drain_state s = Draining \<and> EndOfStream \<notin> set (queue s) \<and>
      (Terminate \<in> set (queue s) \<or> sent s @ queued_events (queue s) = evs))"

lemma lossless_step:
  assumes "lossless_or_ending evs s" "op = Drain \<or> (\<exists>n p. op = PushOrTerminate n p)"
  shows "lossless_or_ending (evs @ List.map_filter op_event [op]) (stream_step m s op)"
proof (cases "drain_state s = Draining")
  case True
  from assms(2) show ?thesis
  proof
    assume "op = Drain"
    then show ?thesis
      using True assms(1) drain_one_cases [of s]
      by (auto simp: lossless_or_ending_def stream_step.simps split: stream_item.splits option.splits
          elim: item_event.elims)
  next
    assume "\<exists>n p. op = PushOrTerminate n p"
    moreover have "set (drop k q) \<subseteq> set q" for k and q :: "'a stream_item list" by (rule set_drop_subset)
    ultimately show ?thesis
      using True assms(1)
      by (fastforce simp: lossless_or_ending_def stream_step.simps push_defs force_enqueue_eq)
  qed
next
  case False
  then show ?thesis using assms(1) by (simp add: lossless_or_ending_def stream_step.simps)
qed

text \<open>
  C40. A stream that pushes with \<open>push_or_terminate\<close> never loses an event silently: as long as the
  connection is not being closed (the drain loop has not raised and no terminate marker waits), the
  events sent and waiting are exactly the events offered.
\<close>
theorem push_or_terminate_lossless:
  assumes "\<forall>op \<in> set ops. op = Drain \<or> (\<exists>n p. op = PushOrTerminate n p)"
  shows "drain_state (stream_run maxsize ops) = Raised \<or>
         Terminate \<in> set (queue (stream_run maxsize ops)) \<or>
         sent (stream_run maxsize ops) @ queued_events (queue (stream_run maxsize ops)) = offered ops"
proof -
  have "lossless_or_ending (offered ops) (stream_run maxsize ops)" using assms
  proof (induction ops rule: rev_induct)
    case Nil
    then show ?case by (simp add: lossless_or_ending_def stream_start_def)
  next
    case (snoc op ops)
    then show ?case using lossless_step [of "offered ops" "stream_run maxsize ops" op] by simp
  qed
  then show ?thesis by (auto simp: lossless_or_ending_def)
qed

lemma push_or_terminate_lossless_witness:
  "Terminate \<in> set (queue (stream_run 1 [PushOrTerminate ''a'' (1::nat), PushOrTerminate ''b'' 2]))"
proof -
  let ?ops = "[PushOrTerminate ''a'' (1::nat), PushOrTerminate ''b'' 2]"
  have "\<forall>op \<in> set ?ops. op = Drain \<or> (\<exists>n p. op = PushOrTerminate n p)" by simp
  moreover have "drain_state (stream_run 1 ?ops) \<noteq> Raised" "sent (stream_run 1 ?ops) = []"
    "queued_events (queue (stream_run 1 ?ops)) = []" by code_simp+
  moreover have "offered ?ops \<noteq> []" by simp
  ultimately show ?thesis using push_or_terminate_lossless [of ?ops 1] by auto
qed

text \<open>The drain loop stops once a sentinel is reached.\<close>

lemma drain_to_sentinel:
  "drain_state s = Draining \<Longrightarrow> \<exists>x \<in> set (queue s). item_event x = None \<Longrightarrow>
     drain_state ((drain_one ^^ length (queue s)) s) \<noteq> Draining"
proof (induction "queue s" arbitrary: s)
  case (Cons x q)
  have stop: "drain_state ((drain_one ^^ k) t) = drain_state t" if "drain_state t \<noteq> Draining"
    for k and t :: "'a stream"
    using that by (induction k) (auto simp: drain_one_def)
  have eq: "(drain_one ^^ length (queue s)) s = (drain_one ^^ length q) (drain_one s)"
    by (simp add: funpow_swap1 flip: Cons.hyps(2))
  show ?case
  proof (cases x)
    case (Item n p)
    have "queue (drain_one s) = q" "drain_state (drain_one s) = Draining"
      using Cons.prems Item Cons.hyps(2) [symmetric] by (simp_all add: drain_one_def)
    moreover have "\<exists>x \<in> set q. item_event x = None"
      using Cons.prems(2) Cons.hyps(2) [symmetric] Item by auto
    ultimately show ?thesis using Cons.hyps(1) [of "drain_one s"] eq by simp
  qed (use Cons eq stop in \<open>simp_all add: drain_one_def flip: Cons.hyps(2)\<close>)
qed simp

text \<open>
  \<open>end()\<close> always ends the stream: after it, however full the queue was, the drain loop stops after
  at most as many turns as items wait, provided nothing more is forced in.
\<close>
lemma end_stream_ends:
  assumes "drain_state s = Draining"
  shows "let s' = s\<lparr>queue := end_stream maxsize (queue s)\<rparr> in
           EndOfStream \<in> set (queue s') \<and>
           drain_state ((drain_one ^^ length (queue s')) s') \<noteq> Draining"
proof -
  have "EndOfStream \<in> set (end_stream maxsize (queue s))"
    by (simp add: end_stream_def force_enqueue_eq)
  then show ?thesis
    unfolding Let_def using drain_to_sentinel [of "s\<lparr>queue := end_stream maxsize (queue s)\<rparr>"] assms
    by fastforce
qed

lemma end_stream_ends_witness:
  "drain_state ((drain_one ^^ 2) \<lparr>queue = end_stream 2 [Item ''a'' (1::nat), Item ''b'' 2],
     sent = [], drain_state = Draining\<rparr>) \<noteq> Draining"
  using end_stream_ends [of "\<lparr>queue = [Item ''a'' (1::nat), Item ''b'' 2], sent = [],
      drain_state = Draining\<rparr>" 2]
  by (simp add: end_stream_def force_enqueue_eq q_full_def numeral_2_eq_2)

end
