(* ===== verification/JobOutput.thy ===== *)
theory JobOutput
  imports JobModel PyRegex EventBus
begin

text \<open>
  \<open>controllers/firmware/constants.py\<close> and the output helpers of
  \<open>controllers/firmware/helpers.py\<close>: the retention limits, the progress and compile-phase patterns,
  trimming a job's log, ingesting one line of build output (collapse of carriage-return progress
  lines, in-flight trim, compile-phase stamps, progress latch) and the events it fires. The lemmas
  account for every line of the log (kept or counted as elided), bound the buffer, and show that the
  progress gauge only climbs and stays within 0 to 100.
\<close>

section \<open>Events the firmware controller fires\<close>

datatype fw_event =
    Lifecycle EventType FirmwareJob
  | OutputEvent string string
  | ProgressEvent string nat

section \<open>Limits\<close>

definition MAX_OUTPUT_LINES_RETAINED :: nat where
  "MAX_OUTPUT_LINES_RETAINED = 2000"

definition INFLIGHT_TRIM_KEEP :: nat where
  "INFLIGHT_TRIM_KEEP = MAX_OUTPUT_LINES_RETAINED"

definition INFLIGHT_HYSTERESIS :: nat where
  "INFLIGHT_HYSTERESIS = 2"

definition inflight_keep :: "JobType \<Rightarrow> nat" where
  "inflight_keep ty = (if ty = ANALYZE_MEMORY then 20000 else INFLIGHT_TRIM_KEEP)"

definition OUTPUT_TRIM_NOTICE_PREFIX :: string where
  "OUTPUT_TRIM_NOTICE_PREFIX = ''... [output trimmed:''"

definition PREREQUISITE_FAILED_ERROR :: string where
  "PREREQUISITE_FAILED_ERROR = ''prerequisite job did not complete successfully''"

definition TARGET_OFFLINE_DEFERRED_ERROR :: string where
  "TARGET_OFFLINE_DEFERRED_ERROR = ''device is offline; update queued for when it reconnects''"

definition NINJA_MIN_TOTAL :: nat where
  "NINJA_MIN_TOTAL = 100"

section \<open>Patterns\<close>

abbreviation Dot :: re where
  "Dot \<equiv> Chr (\<lambda>c. c \<noteq> CHR 0x0A)"

abbreviation Spaces :: re where
  "Spaces \<equiv> Star True Space"

definition Digits13 :: re where
  "Digits13 = Seq Digit (UpTo 2 Digit)"

definition ANSI_CSI_RE :: re where
  "ANSI_CSI_RE = Seqs [
     Alt (Lit CHR 0x1B) (Word [CHR 0x5C, CHR ''0'', CHR ''3'', CHR ''3'']),
     Lit CHR ''['',
     Star True (Chr (\<lambda>c. is_digit c \<or> c = CHR '';'' \<or> c = CHR ''?'')),
     Chr (\<lambda>c. is_upper c \<or> is_lower c)]"

definition BRACKET_PERCENT_RE :: re where
  "BRACKET_PERCENT_RE =
     Seqs [Bol, Spaces, Lit CHR ''['', Spaces, Cap 1 Digits13, Spaces, Lit CHR ''%'', Spaces, Lit CHR '']'']"

definition PAREN_PERCENT_RE :: re where
  "PAREN_PERCENT_RE =
     Seqs [Lit CHR ''('', Spaces, Cap 1 Digits13, Spaces, Lit CHR ''%'', Spaces, Lit CHR '')'']"

definition WRITING_AT_RE :: re where
  "WRITING_AT_RE =
     Seqs [Word ''Writing at'', WordB, Star False Dot, Cap 1 Digits13,
           Opt (Seq (Lit CHR ''.'') (Plus Digit)), Spaces, Lit CHR ''%'']"

definition UPLOADING_RE :: re where
  "UPLOADING_RE =
     Seqs [Bol, Spaces, Word ''Uploading:'', Star False Dot, WordB, Cap 1 Digits13, Spaces, Lit CHR ''%'']"

definition PROGRESS_PATTERNS :: "re list" where
  "PROGRESS_PATTERNS = [BRACKET_PERCENT_RE, PAREN_PERCENT_RE, WRITING_AT_RE, UPLOADING_RE]"

definition NINJA_PROGRESS_RE :: re where
  "NINJA_PROGRESS_RE =
     Seqs [Bol, Star True ANSI_CSI_RE, Spaces, Lit CHR ''['', Spaces, Cap 1 (Plus Digit), Spaces,
           Lit CHR ''/'', Spaces, Cap 2 (Plus Digit), Spaces, Lit CHR '']'', Lit CHR '' '']"

definition COMPILE_PHASE_WORD_RE :: re where
  "COMPILE_PHASE_WORD_RE =
     Seqs [Bol, Spaces,
       Alts [Word ''Compiling '', Word ''Archiving '', Word ''Linking '', Word ''Indexing '',
             Word ''Generating '', Word ''Building in '', Word ''Reading CMake configuration'']]"

definition COMPILE_BRACKET_PERCENT_RE :: re where
  "COMPILE_BRACKET_PERCENT_RE =
     Seqs [Bol, Spaces, Lit CHR ''['', Spaces, Digits13, Spaces, Lit CHR ''%'', Spaces, Lit CHR '']'']"

definition COMPILE_END_RE :: re where
  "COMPILE_END_RE =
     Alts [Seqs [Lit CHR ''['', Alt (Word ''SUCCESS'') (Word ''FAILED''), Word ''] Took ''],
           Word ''Successfully compiled program'', Word ''ninja: build stopped'']"

section \<open>Trimming a log\<close>

definition EARLIER_RE :: re where
  "EARLIER_RE = Seq (Cap 1 (Plus Digit)) (Word '' earlier'')"

definition trim_notice :: "nat \<Rightarrow> string" where
  "trim_notice n = OUTPUT_TRIM_NOTICE_PREFIX @ '' '' @ show_nat n @ '' earlier line(s) elided]'' @ [CHR 0x0A]"

text \<open>The notice at the head of a trimmed log, and the count it carries.\<close>

definition has_notice :: "string list \<Rightarrow> bool" where
  "has_notice out \<longleftrightarrow> (case out of [] \<Rightarrow> False | l # _ \<Rightarrow> starts_with l OUTPUT_TRIM_NOTICE_PREFIX)"

definition notice_count :: "string \<Rightarrow> nat" where
  "notice_count l =
     (case re_search EARLIER_RE l of
        None \<Rightarrow> 0
      | Some q \<Rightarrow> (case group 1 q of Some g \<Rightarrow> read_nat g | None \<Rightarrow> 0))"

definition last_lines :: "nat \<Rightarrow> 'a list \<Rightarrow> 'a list" where
  "last_lines keep xs = (if keep = 0 then xs else drop (length xs - keep) xs)"   \<comment> \<open>\<open>xs[-keep:]\<close>\<close>

definition trim_output :: "nat \<Rightarrow> string list \<Rightarrow> string list" where
  "trim_output keep out =
     (let (extra_elided, body) =
            (if has_notice out then (notice_count (hd out), tl out) else (0, out))
      in if length body \<le> keep then out
         else trim_notice (extra_elided + (length body - keep)) # last_lines keep body)"

definition trim_job_output :: "nat \<Rightarrow> FirmwareJob \<Rightarrow> FirmwareJob" where
  "trim_job_output keep j = j\<lparr>output := trim_output keep (output j)\<rparr>"

section \<open>Names and progress\<close>

definition names_touched_by_job :: "FirmwareJob \<Rightarrow> string set" where
  "names_touched_by_job j =
     (if configuration j \<noteq> [] then {configuration j} else {}) \<union>
     (if job_type j = RENAME \<and> new_name j \<noteq> [] then {new_filename j} else {})"

fun parse_progress_with :: "re list \<Rightarrow> string \<Rightarrow> nat option" where
  "parse_progress_with [] line = None"
| "parse_progress_with (p # ps) line =
     (case re_search p line of
        None \<Rightarrow> parse_progress_with ps line
      | Some q \<Rightarrow>
          let v = read_nat (case group 1 q of Some g \<Rightarrow> g | None \<Rightarrow> [])
          in if v \<le> 100 then Some v else parse_progress_with ps line)"

definition parse_progress :: "string \<Rightarrow> nat option" where
  "parse_progress line = parse_progress_with PROGRESS_PATTERNS line"

definition parse_ninja_counter :: "string \<Rightarrow> (nat \<times> nat) option" where
  "parse_ninja_counter line =
     (case re_match NINJA_PROGRESS_RE line of
        None \<Rightarrow> None
      | Some q \<Rightarrow>
          (case (group 1 q, group 2 q) of
             (Some a, Some b) \<Rightarrow>
               if read_nat a \<le> read_nat b then Some (read_nat a, read_nat b) else None
           | _ \<Rightarrow> None))"

definition ninja_progress :: "FirmwareJob \<Rightarrow> string \<Rightarrow> nat option \<times> FirmwareJob" where
  "ninja_progress j line =
     (case parse_ninja_counter line of
        None \<Rightarrow> (None, j)
      | Some (finished, steps) \<Rightarrow>
          if steps < NINJA_MIN_TOTAL \<or> steps < ninja_total j then (None, j)
          else (Some (finished * 100 div steps), j\<lparr>ninja_total := steps\<rparr>))"

section \<open>Compile-phase stamps\<close>

definition is_compile_start_line :: "string \<Rightarrow> bool" where
  "is_compile_start_line line \<longleftrightarrow>
     re_match COMPILE_PHASE_WORD_RE line \<noteq> None \<or>
     re_match COMPILE_BRACKET_PERCENT_RE line \<noteq> None \<or>
     re_match NINJA_PROGRESS_RE line \<noteq> None"

definition stamp_compile_phase :: "string \<Rightarrow> FirmwareJob \<Rightarrow> string \<Rightarrow> FirmwareJob" where
  "stamp_compile_phase now j line =
     (if compile_ended_at j \<noteq> None then j
      else if compile_started_at j = None
      then (if is_compile_start_line (re_delete ANSI_CSI_RE line)
            then j\<lparr>compile_started_at := Some now\<rparr> else j)
      else if (contains line ''Took '' \<or> contains line ''Successfully compiled'' \<or>
               contains line ''build stopped'')
              \<and> re_search COMPILE_END_RE (re_delete ANSI_CSI_RE line) \<noteq> None
      then j\<lparr>compile_ended_at := Some now\<rparr> else j)"

section \<open>Ingesting a line\<close>

definition fire_job_progress :: "FirmwareJob \<Rightarrow> nat \<Rightarrow> FirmwareJob \<times> fw_event list" where
  "fire_job_progress j v = (j\<lparr>progress := Some v\<rparr>, [ProgressEvent (job_id j) v])"

definition buffer_line :: "string list \<Rightarrow> string \<Rightarrow> string list" where
  "buffer_line out line =
     (if out \<noteq> [] \<and> ends_with (last out) [CHR 0x0D] \<and> line \<noteq> [CHR 0x0A]
      then butlast out @ [line] else out @ [line])"

definition ingest_output_line ::
    "string \<Rightarrow> FirmwareJob \<Rightarrow> string \<Rightarrow> FirmwareJob \<times> fw_event list" where
  "ingest_output_line now j line =
     (let j1 = j\<lparr>output := buffer_line (output j) line\<rparr>;
          keep = inflight_keep (job_type j1);
          j2 = (if length (output j1) > keep * INFLIGHT_HYSTERESIS
                then trim_job_output keep j1 else j1);
          ev = [OutputEvent (job_id j2) line];
          j3 = stamp_compile_phase now j2 line;
          (v, j4) = (case parse_progress line of
                       Some v \<Rightarrow> (Some v, j3)
                     | None \<Rightarrow> ninja_progress j3 line)
      in case v of
           None \<Rightarrow> (j4, ev)
         | Some v \<Rightarrow>
             if v \<le> (case progress j4 of None \<Rightarrow> 0 | Some p \<Rightarrow> p) then (j4, ev)
             else (case fire_job_progress j4 v of (j5, ev') \<Rightarrow> (j5, ev @ ev')))"

definition ingest_notice_line ::
    "string \<Rightarrow> FirmwareJob \<Rightarrow> string \<Rightarrow> FirmwareJob \<times> fw_event list" where
  "ingest_notice_line now j text =
     (let prefix = (if output j \<noteq> [] \<and> \<not> (ends_with (last (output j)) [CHR 0x0A] \<or>
                                              ends_with (last (output j)) [CHR 0x0D])
                    then [CHR 0x0A] else [])
      in ingest_output_line now j (prefix @ ''*** '' @ text @ '' ***'' @ [CHR 0x0A]))"

section \<open>The count a notice carries\<close>

lemma search_skip:
  "\<not> is_digit c \<Longrightarrow> re_search_from (Seq (Cap k (Plus Digit)) r) pv (c # s) =
     re_search_from (Seq (Cap k (Plus Digit)) r) (Some c) s"
  by (subst re_search_from.simps) simp

lemma notice_count_trim_notice [simp]: "notice_count (trim_notice n) = n"
proof -
  let ?d = "show_nat n" and ?s = "'' earlier'' @ '' line(s) elided]'' @ [CHR 0x0A]"
  have d: "?d \<noteq> []" "\<forall>c \<in> set ?d. is_digit c" using show_nat_digits by auto
  have hd_s: "?s = [] \<or> \<not> is_digit (hd ?s)" by (simp add: is_digit_def less_eq_char_def)
  obtain qs where qs: "matches (Plus Digit) (Pos (Some CHR '' '') (?d @ ?s) []) =
      Pos (Some (last ?d)) ?s [] # qs"
    using matches_Plus_greedy [OF d hd_s, of "Some CHR '' ''" "[]"] by blast
  obtain pv' where w: "matches (Word '' earlier'') (Pos (Some (last ?d)) ?s [(1, ?d)]) =
      [Pos pv' ('' line(s) elided]'' @ [CHR 0x0A]) [(1, ?d)]]"
    using matches_Word [of "'' earlier''" "Some (last ?d)" "'' line(s) elided]'' @ [CHR 0x0A]" "[(1, ?d)]"]
    by blast
  have "matches EARLIER_RE (Pos (Some CHR '' '') (?d @ ?s) []) \<noteq> [] \<and>
      hd (matches EARLIER_RE (Pos (Some CHR '' '') (?d @ ?s) [])) =
        Pos pv' ('' line(s) elided]'' @ [CHR 0x0A]) [(1, ?d)]"
    unfolding EARLIER_RE_def matches.simps(3) [of "Cap 1 (Plus Digit)"] matches.simps(6) qs
    using w by simp
  then obtain rs where rs: "matches EARLIER_RE (Pos (Some CHR '' '') (?d @ ?s) []) =
      Pos pv' ('' line(s) elided]'' @ [CHR 0x0A]) [(1, ?d)] # rs"
    by (cases "matches EARLIER_RE (Pos (Some CHR '' '') (?d @ ?s) [])") auto
  have "re_search EARLIER_RE (trim_notice n) = re_search_from EARLIER_RE (Some CHR '' '') (?d @ ?s)"
    unfolding re_search_def trim_notice_def OUTPUT_TRIM_NOTICE_PREFIX_def EARLIER_RE_def
    by (simp add: search_skip is_digit_def less_eq_char_def del: matches.simps)
  also have "\<dots> = Some (Pos pv' ('' line(s) elided]'' @ [CHR 0x0A]) [(1, ?d)])"
    using rs by (subst re_search_from.simps) simp
  finally show ?thesis by (simp add: notice_count_def group_def)
qed

section \<open>A trimmed log accounts for every line\<close>

lemma starts_with_notice [simp]: "starts_with (trim_notice n) OUTPUT_TRIM_NOTICE_PREFIX"
  unfolding trim_notice_def append_assoc by (rule starts_with_append)

lemma has_notice_simps [simp]:
  "\<not> has_notice []" "has_notice (trim_notice n # xs)"
  "has_notice (l # xs) = starts_with l OUTPUT_TRIM_NOTICE_PREFIX"
  by (simp_all add: has_notice_def)

text \<open>The lines of a log without its notice, and the lines the notice counts as elided.\<close>

definition log_body :: "string list \<Rightarrow> string list" where
  "log_body out = (if has_notice out then tl out else out)"

definition log_elided :: "string list \<Rightarrow> nat" where
  "log_elided out = (if has_notice out then notice_count (hd out) else 0)"

definition logged_lines :: "string list \<Rightarrow> nat" where
  "logged_lines out = log_elided out + length (log_body out)"

lemma trim_output_alt:
  "trim_output keep out =
     (if length (log_body out) \<le> keep then out
      else trim_notice (log_elided out + (length (log_body out) - keep)) # last_lines keep (log_body out))"
  by (simp add: trim_output_def log_body_def log_elided_def)

lemma log_of_notice [simp]:
  "log_body (trim_notice n # xs) = xs" "log_elided (trim_notice n # xs) = n"
  "logged_lines (trim_notice n # xs) = n + length xs"
  by (simp_all add: log_body_def log_elided_def logged_lines_def)

lemma length_le_log_body: "length out \<le> Suc (length (log_body out))"
  by (cases out) (simp_all add: log_body_def)

lemma log_body_suffix: "\<exists>dropped. out = dropped @ log_body out"
  by (cases out) (auto simp: log_body_def intro: exI [of _ "[hd out]"])

lemma length_last_lines [simp]: "0 < keep \<Longrightarrow> length (last_lines keep xs) = min keep (length xs)"
  by (simp add: last_lines_def min_def)

lemma length_trim_output: "0 < keep \<Longrightarrow> length (trim_output keep out) \<le> Suc keep"
  using length_le_log_body [of out] by (auto simp: trim_output_alt)

text \<open>
  Trimming a log loses no count and is stable: the lines it reports as elided and the lines it
  keeps add up to what they added up to before, at most \<open>keep\<close> lines and the notice remain, the
  remaining lines are the last ones, and trimming again changes nothing.
\<close>
lemma trim_output_accounts:
  assumes "0 < keep"
  shows "logged_lines (trim_output keep out) = logged_lines out \<and>
         length (trim_output keep out) \<le> Suc keep \<and>
         (\<exists>dropped. out = dropped @ log_body (trim_output keep out)) \<and>
         trim_output keep (trim_output keep out) = trim_output keep out"
proof -
  have suffix: "\<exists>dropped. xs = dropped @ last_lines keep xs" for xs :: "string list"
    using append_take_drop_id [of "length xs - keep" xs] assms by (metis last_lines_def nat_neq_iff)
  show ?thesis
  proof (cases "length (log_body out) \<le> keep")
    case True
    then show ?thesis
      using length_le_log_body [of out] log_body_suffix [of out] by (simp add: trim_output_alt)
  next
    case False
    then have eq: "trim_output keep out =
        trim_notice (log_elided out + (length (log_body out) - keep)) # last_lines keep (log_body out)"
      by (simp add: trim_output_alt)
    have "\<exists>dropped. out = dropped @ last_lines keep (log_body out)"
      using suffix [of "log_body out"] log_body_suffix [of out] by (metis append.assoc)
    moreover have "logged_lines (trim_output keep out) = logged_lines out"
      unfolding eq using False assms by (simp add: logged_lines_def)
    moreover have "trim_output keep (trim_output keep out) = trim_output keep out"
      unfolding eq using assms by (simp add: trim_output_alt)
    ultimately show ?thesis unfolding eq using assms by simp
  qed
qed

lemma trim_output_accounts_witness:
  "logged_lines (trim_output 2 [trim_notice 7, ''a'', ''b'', ''c'']) = 10"
  using trim_output_accounts [of 2 "[trim_notice 7, ''a'', ''b'', ''c'']"] by simp

section \<open>The log of a running build\<close>

lemma ninja_progress_fields [simp]:
  "output (snd (ninja_progress j line)) = output j"
  "job_id (snd (ninja_progress j line)) = job_id j"
  "job_type (snd (ninja_progress j line)) = job_type j"
  "status (snd (ninja_progress j line)) = status j"
  "progress (snd (ninja_progress j line)) = progress j"
  by (auto simp: ninja_progress_def split: option.splits)

lemma stamp_compile_phase_fields [simp]:
  "output (stamp_compile_phase now j line) = output j"
  "job_id (stamp_compile_phase now j line) = job_id j"
  "job_type (stamp_compile_phase now j line) = job_type j"
  "status (stamp_compile_phase now j line) = status j"
  "progress (stamp_compile_phase now j line) = progress j"
  "ninja_total (stamp_compile_phase now j line) = ninja_total j"
  by (auto simp: stamp_compile_phase_def)

text \<open>The two halves of an ingest: the buffer with the clock stamps, and the progress latch.\<close>

definition ingest_buffer :: "string \<Rightarrow> FirmwareJob \<Rightarrow> string \<Rightarrow> FirmwareJob" where
  "ingest_buffer now j line =
     stamp_compile_phase now
       (j\<lparr>output := (let o1 = buffer_line (output j) line in
                     if length o1 > inflight_keep (job_type j) * INFLIGHT_HYSTERESIS
                     then trim_output (inflight_keep (job_type j)) o1 else o1)\<rparr>) line"

definition ingest_parse :: "FirmwareJob \<Rightarrow> string \<Rightarrow> nat option \<times> FirmwareJob" where
  "ingest_parse j line =
     (case parse_progress line of Some v \<Rightarrow> (Some v, j) | None \<Rightarrow> ninja_progress j line)"

abbreviation gauge :: "FirmwareJob \<Rightarrow> nat" where
  "gauge j \<equiv> (case progress j of None \<Rightarrow> 0 | Some p \<Rightarrow> p)"

lemma ingest_eq:
  "ingest_output_line now j line =
     (case ingest_parse (ingest_buffer now j line) line of
        (None, j') \<Rightarrow> (j', [OutputEvent (job_id j) line])
      | (Some v, j') \<Rightarrow>
          if v \<le> gauge j' then (j', [OutputEvent (job_id j) line])
          else (j'\<lparr>progress := Some v\<rparr>, [OutputEvent (job_id j) line, ProgressEvent (job_id j') v]))"
  by (auto simp: ingest_output_line_def ingest_buffer_def ingest_parse_def Let_def
      trim_job_output_def fire_job_progress_def split: option.splits prod.splits)

lemma ingest_buffer_fields [simp]:
  "job_id (ingest_buffer now j line) = job_id j"
  "job_type (ingest_buffer now j line) = job_type j"
  "status (ingest_buffer now j line) = status j"
  "progress (ingest_buffer now j line) = progress j"
  "ninja_total (ingest_buffer now j line) = ninja_total j"
  by (simp_all add: ingest_buffer_def)

lemma ingest_parse_fields:
  "ingest_parse j line = (v, j') \<Longrightarrow>
     output j' = output j \<and> job_id j' = job_id j \<and> job_type j' = job_type j \<and> status j' = status j \<and>
     progress j' = progress j \<and> ninja_total j \<le> ninja_total j'"
  by (auto simp: ingest_parse_def ninja_progress_def split: option.splits if_splits)

lemma parse_progress_with_le: "parse_progress_with ps line = Some v \<Longrightarrow> v \<le> 100"
  by (induction ps) (auto simp: Let_def split: option.splits if_splits)

lemma parse_ninja_counter_le: "parse_ninja_counter line = Some (a, b) \<Longrightarrow> a \<le> b"
  by (auto simp: parse_ninja_counter_def split: option.splits if_splits)

lemma ingest_parse_le: "ingest_parse j line = (Some v, j') \<Longrightarrow> v \<le> 100"
proof -
  have "a * 100 div b \<le> 100" if "a \<le> b" for a b :: nat
    using div_le_mono [OF mult_le_mono1 [OF that, of 100], of b] by (cases "b = 0") auto
  then show "ingest_parse j line = (Some v, j') \<Longrightarrow> v \<le> 100"
    using parse_progress_with_le parse_ninja_counter_le
    by (auto simp: ingest_parse_def ninja_progress_def parse_progress_def split: option.splits if_splits)
qed

text \<open>
  Ingesting a line never lowers the progress gauge, keeps it within 0 to 100, never lowers the
  largest ninja total, leaves the job's identity and status alone, and fires exactly one output event
  for the line followed by a progress event exactly when the gauge moved, carrying its new value.
\<close>
lemma ingest_progress_monotone:
  "let j' = fst (ingest_output_line now j line) in
     gauge j \<le> gauge j' \<and> (gauge j' = gauge j \<or> gauge j' \<le> 100) \<and> ninja_total j \<le> ninja_total j' \<and>
     job_id j' = job_id j \<and> job_type j' = job_type j \<and> status j' = status j \<and>
     snd (ingest_output_line now j line) =
       OutputEvent (job_id j) line #
         (if gauge j' = gauge j then [] else [ProgressEvent (job_id j) (gauge j')])"
proof -
  obtain v j' where p: "ingest_parse (ingest_buffer now j line) line = (v, j')" by fastforce
  show ?thesis
    using ingest_parse_fields [OF p] ingest_parse_le [of "ingest_buffer now j line" line _ j'] p
    by (cases v) (auto simp: ingest_eq Let_def)
qed

lemma ingest_fields [simp]:
  "job_id (fst (ingest_output_line now j line)) = job_id j"
  "job_type (fst (ingest_output_line now j line)) = job_type j"
  "status (fst (ingest_output_line now j line)) = status j"
proof -
  obtain v j' where p: "ingest_parse (ingest_buffer now j line) line = (v, j')" by fastforce
  show "job_id (fst (ingest_output_line now j line)) = job_id j"
    "job_type (fst (ingest_output_line now j line)) = job_type j"
    "status (fst (ingest_output_line now j line)) = status j"
    using ingest_parse_fields [OF p] p by (cases v; simp add: ingest_eq)+
qed

lemma ingest_output:
  "output (fst (ingest_output_line now j line)) =
     (let o1 = buffer_line (output j) line; keep = inflight_keep (job_type j) in
      if length o1 > keep * INFLIGHT_HYSTERESIS then trim_output keep o1 else o1)"
proof -
  obtain v j' where p: "ingest_parse (ingest_buffer now j line) line = (v, j')" by fastforce
  show ?thesis
    using ingest_parse_fields [OF p] p
    by (cases v) (simp_all add: ingest_eq ingest_buffer_def Let_def)
qed

lemma inflight_keep_pos [simp]: "0 < inflight_keep ty"
  by (simp add: inflight_keep_def INFLIGHT_TRIM_KEEP_def MAX_OUTPUT_LINES_RETAINED_def)

text \<open>A build's stream of lines, ingested one by one with the clock at each line.\<close>

definition ingest_all :: "FirmwareJob \<Rightarrow> (string \<times> string) list \<Rightarrow> FirmwareJob" where
  "ingest_all j ls = foldl (\<lambda>j (now, line). fst (ingest_output_line now j line)) j ls"

text \<open>
  The reference log \<open>U\<close> of a stream keeps every line that is not overwritten; a real log shows it
  whole, or its last lines behind a notice that counts the others.
\<close>

definition shows_log :: "nat \<Rightarrow> string list \<Rightarrow> string list \<Rightarrow> bool" where
  "shows_log keep out U \<longleftrightarrow>
     out = U \<or> (\<exists>e. 0 < e \<and> e + keep \<le> length U \<and> out = trim_notice e # drop e U)"

lemma buffer_line_drop: "e < length U \<Longrightarrow> buffer_line (drop e U) l = drop e (buffer_line U l)"
  by (auto simp: buffer_line_def drop_butlast last_drop)

lemma length_buffer_line: "length U \<le> length (buffer_line U l)"
  by (auto simp: buffer_line_def)

lemma buffer_line_notice: "xs \<noteq> [] \<Longrightarrow> buffer_line (trim_notice e # xs) l = trim_notice e # buffer_line xs l"
  by (auto simp: buffer_line_def)

lemma shows_log_trim:
  assumes "0 < keep" "\<not> has_notice U" "shows_log keep out U"
  shows "shows_log keep (trim_output keep out) U"
  using assms(3) unfolding shows_log_def
proof
  assume "out = U"
  then show "trim_output keep out = U \<or>
      (\<exists>e. 0 < e \<and> e + keep \<le> length U \<and> trim_output keep out = trim_notice e # drop e U)"
    using assms(1,2)
    by (cases "length U \<le> keep")
      (auto simp: trim_output_alt log_body_def log_elided_def last_lines_def
        intro: exI [of _ "length U - keep"])
next
  assume "\<exists>e. 0 < e \<and> e + keep \<le> length U \<and> out = trim_notice e # drop e U"
  then obtain e where e: "0 < e" "e + keep \<le> length U" "out = trim_notice e # drop e U" by blast
  have "trim_output keep out = (if length U - e \<le> keep then out
      else trim_notice (length U - keep) # drop (length U - keep) U)"
    using e assms(1) by (simp add: trim_output_alt last_lines_def)
  then show "trim_output keep out = U \<or>
      (\<exists>e. 0 < e \<and> e + keep \<le> length U \<and> trim_output keep out = trim_notice e # drop e U)"
    using e by (auto intro: exI [of _ "length U - keep"])
qed



end
