(* ===== verification/FwState.thy ===== *)
theory FwState
  imports JobOutput Scheduler
begin

text \<open>
  \<open>controllers/firmware/_state.py\<close> and the parts of the dashboard the firmware controller reads: the
  three lanes, the remote-dispatch pool, the job dictionary with its cancel flags, the build gate, the
  devices controller's rows, the offloader's snapshot and the files on disk. Job objects live in a
  store keyed by their id (a queue, the job dictionary and the pool hold references, that is ids), so
  a change to a job is seen through every reference to it. The lemmas frame each operation: which jobs,
  queues and pool entries it touches.
\<close>

section \<open>Lanes and the dispatch pool\<close>

record Lane =
  max_concurrency :: nat
  lane_queue :: "string list"
  active :: "string list"

definition UPLOAD_SLOTS :: nat where
  "UPLOAD_SLOTS = 4"

definition UPLOAD_SLOTS_LEAN_SUBPROCESS :: nat where
  "UPLOAD_SLOTS_LEAN_SUBPROCESS = 9"

definition max_concurrent_uploads :: "string \<Rightarrow> nat" where
  "max_concurrent_uploads esphome_version =
     (if release_line_at_least esphome_version (2026, 8) then UPLOAD_SLOTS_LEAN_SUBPROCESS
      else UPLOAD_SLOTS)"

definition new_lane :: "nat \<Rightarrow> Lane" where
  "new_lane n = \<lparr>max_concurrency = n, lane_queue = [], active = []\<rparr>"

text \<open>\<open>in_flight\<close> maps a job to its driver task; the task itself is opaque, its keys matter.\<close>

record RemoteDispatchState =
  pending :: "string list"
  in_flight :: "string list"
  job_peer :: "(string, string) dict"
  wake :: bool
  retries :: "(string, nat) dict"

definition new_pool :: RemoteDispatchState where
  "new_pool = \<lparr>pending = [], in_flight = [], job_peer = [], wake = False, retries = []\<rparr>"

definition busy_pins :: "RemoteDispatchState \<Rightarrow> string set" where
  "busy_pins d = set (dict_values (job_peer d))"

definition is_in_flight :: "RemoteDispatchState \<Rightarrow> string \<Rightarrow> bool" where
  "is_in_flight d jid \<longleftrightarrow> jid \<in> set (in_flight d)"

definition hold :: "string \<Rightarrow> RemoteDispatchState \<Rightarrow> RemoteDispatchState" where
  "hold jid d = d\<lparr>pending := keys_add jid (pending d), wake := True\<rparr>"

definition drop_waiting :: "string \<Rightarrow> RemoteDispatchState \<Rightarrow> RemoteDispatchState" where
  "drop_waiting jid d = d\<lparr>pending := keys_pop jid (pending d), retries := dict_pop jid (retries d)\<rparr>"

definition release :: "string \<Rightarrow> RemoteDispatchState \<Rightarrow> RemoteDispatchState" where
  "release jid d = d\<lparr>in_flight := keys_pop jid (in_flight d), job_peer := dict_pop jid (job_peer d),
     wake := True\<rparr>"

definition discard :: "string \<Rightarrow> RemoteDispatchState \<Rightarrow> RemoteDispatchState" where
  "discard jid d = release jid (drop_waiting jid d)"

definition start :: "string \<Rightarrow> string \<Rightarrow> RemoteDispatchState \<Rightarrow> RemoteDispatchState" where
  "start jid pin d = d\<lparr>pending := keys_pop jid (pending d), job_peer := dict_set jid pin (job_peer d),
     in_flight := keys_add jid (in_flight d)\<rparr>"

definition rearm_if_pending :: "RemoteDispatchState \<Rightarrow> RemoteDispatchState" where
  "rearm_if_pending d = (if pending d \<noteq> [] then d\<lparr>wake := True\<rparr> else d)"

definition losses :: "RemoteDispatchState \<Rightarrow> string \<Rightarrow> nat" where
  "losses d jid = (case dict_get (retries d) jid of None \<Rightarrow> 0 | Some n \<Rightarrow> n)"

definition record_loss :: "string \<Rightarrow> RemoteDispatchState \<Rightarrow> nat \<times> RemoteDispatchState" where
  "record_loss jid d =
     (let n = losses d jid + 1 in (n, d\<lparr>retries := dict_set jid n (retries d)\<rparr>))"

definition forget_losses :: "string \<Rightarrow> RemoteDispatchState \<Rightarrow> RemoteDispatchState" where
  "forget_losses jid d = d\<lparr>retries := dict_pop jid (retries d)\<rparr>"

lemmas pool_defs = hold_def drop_waiting_def release_def discard_def start_def rearm_if_pending_def
  record_loss_def forget_losses_def

section \<open>Devices and files\<close>

datatype DeviceState = UNKNOWN | ONLINE | OFFLINE

record Device =
  device_state :: DeviceState
  queued_update :: bool
  loads_openthread :: bool
  device_address :: string
  device_ip :: string

section \<open>The controller's state\<close>

text \<open>
  Background tasks that have been created and wait for their next turn on the loop: the rest of an
  enqueue after its synchronous part, a rename revert that waits for \<open>rename_fs_lock\<close>, and the driver
  of a dispatched remote compile.
\<close>

datatype task = FinishEnqueue string string | RevertRename string | DriveRemote string

text \<open>
  \<open>store\<close> is the heap of job objects and \<open>jobs\<close> the keys of \<open>state.jobs\<close> in dictionary order.
  \<open>devices\<close> and \<open>offloader\<close> are \<open>None\<close> when that controller is absent. \<open>clock\<close> and \<open>uuids\<close> are the
  successive results of \<open>_now_iso()\<close> and \<open>uuid4().hex[:12]\<close>, of which \<open>ticks\<close> and \<open>next_uuid\<close> have been
  used. \<open>disk_jobs\<close> is the persisted job list, \<open>sidecars\<close> the per-job logs, \<open>yaml_files\<close> the device
  configurations. \<open>bus\<close> is the log of the events fired, \<open>signalled\<close> of the jobs whose process tree was
  told to terminate.
\<close>

record fw =
  store :: "string \<Rightarrow> FirmwareJob"
  jobs :: "string list"
  compile_lane :: Lane
  upload_lane :: Lane
  thread_upload_lane :: Lane
  cancel_requested :: "string set"
  cancel_events :: "(string, bool) dict"
  spawns :: "string list"
  signalled :: "string list"
  build_gate :: bool
  rename_fs_lock :: bool
  remote_dispatch :: RemoteDispatchState
  devices :: "(string, Device) dict option"
  offloader :: "BuildSchedulerInputs option"
  clock :: "nat \<Rightarrow> string"
  ticks :: nat
  uuids :: "nat \<Rightarrow> string"
  next_uuid :: nat
  bus :: "fw_event list"
  tasks :: "task list"
  disk_jobs :: "FirmwareJob list"
  sidecars :: "(string, string) dict"
  yaml_files :: "(string, string) dict"

text \<open>The state \<open>__init__\<close> builds; \<open>version\<close> is the installed esphome's.\<close>

definition new_fw ::
    "(string, Device) dict option \<Rightarrow> BuildSchedulerInputs option \<Rightarrow> (nat \<Rightarrow> string) \<Rightarrow> (nat \<Rightarrow> string) \<Rightarrow>
     string \<Rightarrow> fw" where
  "new_fw ds off clk ids version =
     \<lparr>store = (\<lambda>i. new_FirmwareJob i [] COMPILE), jobs = [], compile_lane = new_lane 1,
      upload_lane = new_lane (max_concurrent_uploads version), thread_upload_lane = new_lane 1,
      cancel_requested = {}, cancel_events = [], spawns = [], signalled = [], build_gate = False,
      rename_fs_lock = False, remote_dispatch = new_pool, devices = ds, offloader = off,
      clock = clk, ticks = 0, uuids = ids, next_uuid = 0, bus = [], tasks = [], disk_jobs = [],
      sidecars = [], yaml_files = []\<rparr>"

definition now_iso :: "fw \<Rightarrow> string \<times> fw" where
  "now_iso s = (clock s (ticks s), s\<lparr>ticks := Suc (ticks s)\<rparr>)"

definition fresh_uuid :: "fw \<Rightarrow> string \<times> fw" where
  "fresh_uuid s = (uuids s (next_uuid s), s\<lparr>next_uuid := Suc (next_uuid s)\<rparr>)"

definition upd_job :: "string \<Rightarrow> (FirmwareJob \<Rightarrow> FirmwareJob) \<Rightarrow> fw \<Rightarrow> fw" where
  "upd_job jid f s = s\<lparr>store := (store s)(jid := f (store s jid))\<rparr>"

definition upd_pool :: "(RemoteDispatchState \<Rightarrow> RemoteDispatchState) \<Rightarrow> fw \<Rightarrow> fw" where
  "upd_pool f s = s\<lparr>remote_dispatch := f (remote_dispatch s)\<rparr>"

definition get_job_obj :: "fw \<Rightarrow> string \<Rightarrow> FirmwareJob option" where
  "get_job_obj s jid = (if jid \<in> set (jobs s) then Some (store s jid) else None)"

definition fire_event :: "fw_event \<Rightarrow> fw \<Rightarrow> fw" where
  "fire_event e s = s\<lparr>bus := bus s @ [e]\<rparr>"

text \<open>The controller's thread lookup; without a devices controller every flash is a normal one.\<close>

definition is_thread_configuration :: "fw \<Rightarrow> string \<Rightarrow> bool" where
  "is_thread_configuration s conf =
     (case devices s of
        None \<Rightarrow> False
      | Some ds \<Rightarrow> (case dict_get ds conf of None \<Rightarrow> False | Some d \<Rightarrow> loads_openthread d))"

definition device_for_configuration :: "fw \<Rightarrow> string \<Rightarrow> Device option" where
  "device_for_configuration s conf =
     (case devices s of None \<Rightarrow> None | Some ds \<Rightarrow> dict_get ds conf)"

definition target_is_offline :: "fw \<Rightarrow> string \<Rightarrow> bool" where
  "target_is_offline s conf \<longleftrightarrow>
     (case device_for_configuration s conf of None \<Rightarrow> False | Some d \<Rightarrow> device_state d = OFFLINE)"

text \<open>\<open>devices.set_queued_update\<close> and \<open>clear_queued_update\<close>: no row, no change.\<close>

definition set_queued_update :: "bool \<Rightarrow> string \<Rightarrow> fw \<Rightarrow> fw" where
  "set_queued_update q conf s =
     (case devices s of
        None \<Rightarrow> s
      | Some ds \<Rightarrow> (case dict_get ds conf of
                      None \<Rightarrow> s
                    | Some d \<Rightarrow> s\<lparr>devices := Some (dict_set conf (d\<lparr>queued_update := q\<rparr>) ds)\<rparr>))"

section \<open>Routing\<close>

datatype lane_name = CompileLane | UploadLane | ThreadUploadLane

definition lane_for :: "fw \<Rightarrow> FirmwareJob \<Rightarrow> lane_name" where
  "lane_for s j =
     (if \<not> is_network_flash j then CompileLane
      else if is_thread_configuration s (configuration j) then ThreadUploadLane
      else UploadLane)"

fun get_lane :: "lane_name \<Rightarrow> fw \<Rightarrow> Lane" where
  "get_lane CompileLane s = compile_lane s"
| "get_lane UploadLane s = upload_lane s"
| "get_lane ThreadUploadLane s = thread_upload_lane s"

fun upd_lane :: "lane_name \<Rightarrow> (Lane \<Rightarrow> Lane) \<Rightarrow> fw \<Rightarrow> fw" where
  "upd_lane CompileLane f s = s\<lparr>compile_lane := f (compile_lane s)\<rparr>"
| "upd_lane UploadLane f s = s\<lparr>upload_lane := f (upload_lane s)\<rparr>"
| "upd_lane ThreadUploadLane f s = s\<lparr>thread_upload_lane := f (thread_upload_lane s)\<rparr>"

definition lane_names :: "lane_name list" where
  "lane_names = [CompileLane, UploadLane, ThreadUploadLane]"

definition lane_put :: "string \<Rightarrow> Lane \<Rightarrow> Lane" where
  "lane_put jid l =
     l\<lparr>lane_queue := (case put_nowait 0 jid (lane_queue l) of None \<Rightarrow> lane_queue l | Some q \<Rightarrow> q)\<rparr>"

definition REMOTE_POOL_JOB_TYPES :: "JobType set" where
  "REMOTE_POOL_JOB_TYPES = {COMPILE, ANALYZE_MEMORY}"

definition place_on_lane :: "string \<Rightarrow> fw \<Rightarrow> fw" where
  "place_on_lane jid s0 =
     (let s = (if depends_on (store s0 jid) \<noteq> []
               then upd_job jid (\<lambda>j. j\<lparr>dependency_released := True\<rparr>) s0 else s0);
          j = store s jid
      in if source j = JobSource.REMOTE_PENDING \<and> job_type j \<in> REMOTE_POOL_JOB_TYPES
         then upd_pool (hold jid) s
         else upd_lane (lane_for s j) (lane_put jid) (upd_pool (drop_waiting jid) s))"

definition request_cancel :: "string \<Rightarrow> fw \<Rightarrow> fw" where
  "request_cancel jid s =
     s\<lparr>cancel_requested := insert jid (cancel_requested s),
       cancel_events := (if dict_get (cancel_events s) jid = None then cancel_events s
                         else dict_set jid True (cancel_events s))\<rparr>"

definition active_jobs :: "fw \<Rightarrow> string list" where
  "active_jobs s = filter (\<lambda>i. is_active (store s i)) (jobs s)"

definition dependents :: "fw \<Rightarrow> string \<Rightarrow> string list" where
  "dependents s jid = (if jid = [] then [] else filter (\<lambda>i. depends_on (store s i) = jid) (jobs s))"

definition dependency_satisfied :: "fw \<Rightarrow> FirmwareJob \<Rightarrow> bool" where
  "dependency_satisfied s j =
     (if depends_on j = [] then True
      else (case get_job_obj s (depends_on j) of None \<Rightarrow> False | Some p \<Rightarrow> status p = COMPLETED))"

definition upload_blocked :: "fw \<Rightarrow> FirmwareJob \<Rightarrow> bool" where
  "upload_blocked s j \<longleftrightarrow>
     is_network_flash j \<and>
     (\<exists>i \<in> set (active_jobs s).
        let other = store s i in
          wipes_local_build_tree other \<and>
          (job_type other = RESET_BUILD_ENV \<or> configuration other = flash_configuration j))"

text \<open>A spawn is registered for its job and released; nesting restores the earlier registration.\<close>

definition register_spawn :: "string \<Rightarrow> fw \<Rightarrow> fw" where
  "register_spawn jid s = s\<lparr>spawns := keys_add jid (spawns s)\<rparr>"

definition release_spawn :: "string \<Rightarrow> fw \<Rightarrow> fw" where
  "release_spawn jid s = s\<lparr>spawns := keys_pop jid (spawns s)\<rparr>"

section \<open>Framing\<close>

text \<open>What each primitive leaves alone, one equation per untouched field.\<close>

lemma upd_job_frame [simp]:
  "jobs (upd_job jid f s) = jobs s"
  "compile_lane (upd_job jid f s) = compile_lane s"
  "upload_lane (upd_job jid f s) = upload_lane s"
  "thread_upload_lane (upd_job jid f s) = thread_upload_lane s"
  "cancel_requested (upd_job jid f s) = cancel_requested s"
  "cancel_events (upd_job jid f s) = cancel_events s"
  "spawns (upd_job jid f s) = spawns s"
  "signalled (upd_job jid f s) = signalled s"
  "build_gate (upd_job jid f s) = build_gate s"
  "rename_fs_lock (upd_job jid f s) = rename_fs_lock s"
  "remote_dispatch (upd_job jid f s) = remote_dispatch s"
  "devices (upd_job jid f s) = devices s"
  "offloader (upd_job jid f s) = offloader s"
  "clock (upd_job jid f s) = clock s"
  "ticks (upd_job jid f s) = ticks s"
  "uuids (upd_job jid f s) = uuids s"
  "next_uuid (upd_job jid f s) = next_uuid s"
  "bus (upd_job jid f s) = bus s"
  "tasks (upd_job jid f s) = tasks s"
  "disk_jobs (upd_job jid f s) = disk_jobs s"
  "sidecars (upd_job jid f s) = sidecars s"
  "yaml_files (upd_job jid f s) = yaml_files s"
  by (simp_all add: upd_job_def)

lemma upd_job_store [simp]: "store (upd_job jid f s) i = (if i = jid then f (store s i) else store s i)"
  by (simp add: upd_job_def)

lemma upd_pool_frame [simp]:
  "store (upd_pool f s) = store s"
  "jobs (upd_pool f s) = jobs s"
  "compile_lane (upd_pool f s) = compile_lane s"
  "upload_lane (upd_pool f s) = upload_lane s"
  "thread_upload_lane (upd_pool f s) = thread_upload_lane s"
  "cancel_requested (upd_pool f s) = cancel_requested s"
  "cancel_events (upd_pool f s) = cancel_events s"
  "spawns (upd_pool f s) = spawns s"
  "signalled (upd_pool f s) = signalled s"
  "build_gate (upd_pool f s) = build_gate s"
  "rename_fs_lock (upd_pool f s) = rename_fs_lock s"
  "devices (upd_pool f s) = devices s"
  "offloader (upd_pool f s) = offloader s"
  "clock (upd_pool f s) = clock s"
  "ticks (upd_pool f s) = ticks s"
  "uuids (upd_pool f s) = uuids s"
  "next_uuid (upd_pool f s) = next_uuid s"
  "bus (upd_pool f s) = bus s"
  "tasks (upd_pool f s) = tasks s"
  "disk_jobs (upd_pool f s) = disk_jobs s"
  "sidecars (upd_pool f s) = sidecars s"
  "yaml_files (upd_pool f s) = yaml_files s"
  by (simp_all add: upd_pool_def)

lemma upd_pool_pool [simp]: "remote_dispatch (upd_pool f s) = f (remote_dispatch s)"
  by (simp add: upd_pool_def)

lemma upd_lane_frame [simp]:
  "store (upd_lane n f s) = store s"
  "jobs (upd_lane n f s) = jobs s"
  "cancel_requested (upd_lane n f s) = cancel_requested s"
  "cancel_events (upd_lane n f s) = cancel_events s"
  "spawns (upd_lane n f s) = spawns s"
  "signalled (upd_lane n f s) = signalled s"
  "build_gate (upd_lane n f s) = build_gate s"
  "rename_fs_lock (upd_lane n f s) = rename_fs_lock s"
  "remote_dispatch (upd_lane n f s) = remote_dispatch s"
  "devices (upd_lane n f s) = devices s"
  "offloader (upd_lane n f s) = offloader s"
  "clock (upd_lane n f s) = clock s"
  "ticks (upd_lane n f s) = ticks s"
  "uuids (upd_lane n f s) = uuids s"
  "next_uuid (upd_lane n f s) = next_uuid s"
  "bus (upd_lane n f s) = bus s"
  "tasks (upd_lane n f s) = tasks s"
  "disk_jobs (upd_lane n f s) = disk_jobs s"
  "sidecars (upd_lane n f s) = sidecars s"
  "yaml_files (upd_lane n f s) = yaml_files s"
  by (cases n; simp)+

lemma get_upd_lane [simp]: "get_lane m (upd_lane n f s) = (if m = n then f (get_lane m s) else get_lane m s)"
  by (cases m; cases n) simp_all

lemma get_lane_frame [simp]:
  "get_lane m (upd_job jid g s) = get_lane m s" "get_lane m (upd_pool h s) = get_lane m s"
  by (cases m; simp)+

lemma fire_event_frame [simp]:
  "store (fire_event e s) = store s"
  "jobs (fire_event e s) = jobs s"
  "compile_lane (fire_event e s) = compile_lane s"
  "upload_lane (fire_event e s) = upload_lane s"
  "thread_upload_lane (fire_event e s) = thread_upload_lane s"
  "cancel_requested (fire_event e s) = cancel_requested s"
  "cancel_events (fire_event e s) = cancel_events s"
  "spawns (fire_event e s) = spawns s"
  "signalled (fire_event e s) = signalled s"
  "build_gate (fire_event e s) = build_gate s"
  "rename_fs_lock (fire_event e s) = rename_fs_lock s"
  "remote_dispatch (fire_event e s) = remote_dispatch s"
  "devices (fire_event e s) = devices s"
  "offloader (fire_event e s) = offloader s"
  "clock (fire_event e s) = clock s"
  "ticks (fire_event e s) = ticks s"
  "uuids (fire_event e s) = uuids s"
  "next_uuid (fire_event e s) = next_uuid s"
  "tasks (fire_event e s) = tasks s"
  "disk_jobs (fire_event e s) = disk_jobs s"
  "sidecars (fire_event e s) = sidecars s"
  "yaml_files (fire_event e s) = yaml_files s"
  by (simp_all add: fire_event_def)

lemma set_queued_update_frame [simp]:
  "store (set_queued_update q conf s) = store s"
  "jobs (set_queued_update q conf s) = jobs s"
  "compile_lane (set_queued_update q conf s) = compile_lane s"
  "upload_lane (set_queued_update q conf s) = upload_lane s"
  "thread_upload_lane (set_queued_update q conf s) = thread_upload_lane s"
  "cancel_requested (set_queued_update q conf s) = cancel_requested s"
  "cancel_events (set_queued_update q conf s) = cancel_events s"
  "spawns (set_queued_update q conf s) = spawns s"
  "signalled (set_queued_update q conf s) = signalled s"
  "build_gate (set_queued_update q conf s) = build_gate s"
  "rename_fs_lock (set_queued_update q conf s) = rename_fs_lock s"
  "remote_dispatch (set_queued_update q conf s) = remote_dispatch s"
  "offloader (set_queued_update q conf s) = offloader s"
  "clock (set_queued_update q conf s) = clock s"
  "ticks (set_queued_update q conf s) = ticks s"
  "uuids (set_queued_update q conf s) = uuids s"
  "next_uuid (set_queued_update q conf s) = next_uuid s"
  "bus (set_queued_update q conf s) = bus s"
  "tasks (set_queued_update q conf s) = tasks s"
  "disk_jobs (set_queued_update q conf s) = disk_jobs s"
  "sidecars (set_queued_update q conf s) = sidecars s"
  "yaml_files (set_queued_update q conf s) = yaml_files s"
  by (auto simp: set_queued_update_def split: option.splits)

lemma release_spawn_frame [simp]:
  "store (release_spawn jid s) = store s"
  "jobs (release_spawn jid s) = jobs s"
  "compile_lane (release_spawn jid s) = compile_lane s"
  "upload_lane (release_spawn jid s) = upload_lane s"
  "thread_upload_lane (release_spawn jid s) = thread_upload_lane s"
  "cancel_requested (release_spawn jid s) = cancel_requested s"
  "cancel_events (release_spawn jid s) = cancel_events s"
  "signalled (release_spawn jid s) = signalled s"
  "build_gate (release_spawn jid s) = build_gate s"
  "rename_fs_lock (release_spawn jid s) = rename_fs_lock s"
  "remote_dispatch (release_spawn jid s) = remote_dispatch s"
  "devices (release_spawn jid s) = devices s"
  "offloader (release_spawn jid s) = offloader s"
  "clock (release_spawn jid s) = clock s"
  "ticks (release_spawn jid s) = ticks s"
  "uuids (release_spawn jid s) = uuids s"
  "next_uuid (release_spawn jid s) = next_uuid s"
  "bus (release_spawn jid s) = bus s"
  "tasks (release_spawn jid s) = tasks s"
  "disk_jobs (release_spawn jid s) = disk_jobs s"
  "sidecars (release_spawn jid s) = sidecars s"
  "yaml_files (release_spawn jid s) = yaml_files s"
  by (simp_all add: release_spawn_def)

lemma get_lane_frame2 [simp]:
  "get_lane m (fire_event e s) = get_lane m s"
  "get_lane m (set_queued_update q conf s) = get_lane m s"
  "get_lane m (release_spawn jid s) = get_lane m s"
  by (cases m; simp)+

lemma lane_put_fields [simp]:
  "lane_queue (lane_put jid l) = lane_queue l @ [jid]" "active (lane_put jid l) = active l"
  "max_concurrency (lane_put jid l) = max_concurrency l"
  by (simp_all add: lane_put_def put_nowait_def)

lemma pool_fields [simp]:
  "pending (hold jid d) = keys_add jid (pending d)" "in_flight (hold jid d) = in_flight d"
  "job_peer (hold jid d) = job_peer d" "retries (hold jid d) = retries d"
  "pending (drop_waiting jid d) = keys_pop jid (pending d)" "in_flight (drop_waiting jid d) = in_flight d"
  "job_peer (drop_waiting jid d) = job_peer d" "retries (drop_waiting jid d) = dict_pop jid (retries d)"
  "pending (release jid d) = pending d" "in_flight (release jid d) = keys_pop jid (in_flight d)"
  "job_peer (release jid d) = dict_pop jid (job_peer d)" "retries (release jid d) = retries d"
  "pending (start jid pin d) = keys_pop jid (pending d)" "in_flight (start jid pin d) = keys_add jid (in_flight d)"
  "job_peer (start jid pin d) = dict_set jid pin (job_peer d)" "retries (start jid pin d) = retries d"
  by (simp_all add: pool_defs)

lemma place_on_lane_frame [simp]:
  "jobs (place_on_lane jid s) = jobs s"
  "cancel_requested (place_on_lane jid s) = cancel_requested s"
  "cancel_events (place_on_lane jid s) = cancel_events s"
  "spawns (place_on_lane jid s) = spawns s"
  "signalled (place_on_lane jid s) = signalled s"
  "build_gate (place_on_lane jid s) = build_gate s"
  "rename_fs_lock (place_on_lane jid s) = rename_fs_lock s"
  "devices (place_on_lane jid s) = devices s"
  "offloader (place_on_lane jid s) = offloader s"
  "clock (place_on_lane jid s) = clock s"
  "ticks (place_on_lane jid s) = ticks s"
  "uuids (place_on_lane jid s) = uuids s"
  "next_uuid (place_on_lane jid s) = next_uuid s"
  "bus (place_on_lane jid s) = bus s"
  "tasks (place_on_lane jid s) = tasks s"
  "disk_jobs (place_on_lane jid s) = disk_jobs s"
  "sidecars (place_on_lane jid s) = sidecars s"
  "yaml_files (place_on_lane jid s) = yaml_files s"
  by (simp_all add: place_on_lane_def Let_def)

lemma place_on_lane_store:
  "store (place_on_lane jid s) i =
     (if i = jid \<and> depends_on (store s jid) \<noteq> [] then (store s i)\<lparr>dependency_released := True\<rparr>
      else store s i)"
  by (simp add: place_on_lane_def Let_def)

section \<open>Where a job is tracked\<close>

definition placed :: "fw \<Rightarrow> string \<Rightarrow> bool" where
  "placed s i \<longleftrightarrow>
     (\<exists>n. i \<in> set (lane_queue (get_lane n s)) \<or> i \<in> set (active (get_lane n s))) \<or>
     i \<in> set (pending (remote_dispatch s)) \<or> i \<in> set (in_flight (remote_dispatch s))"

lemma placed_place_on_lane: "placed (place_on_lane jid s) i \<Longrightarrow> i = jid \<or> placed s i"
  unfolding placed_def place_on_lane_def Let_def by (auto split: if_splits)

lemma placed_placed: "placed (place_on_lane jid s) jid"
  unfolding placed_def place_on_lane_def Let_def by auto

text \<open>A running job holds a slot: on its lane, or with its remote driver.\<close>

definition occupied :: "fw \<Rightarrow> string \<Rightarrow> bool" where
  "occupied s i \<longleftrightarrow>
     (\<exists>n. i \<in> set (active (get_lane n s))) \<or> i \<in> set (in_flight (remote_dispatch s))"

lemma occupied_placed: "occupied s i \<Longrightarrow> placed s i"
  unfolding occupied_def placed_def by blast

lemma active_place_on_lane [simp]: "active (get_lane n (place_on_lane jid s)) = active (get_lane n s)"
  by (simp add: place_on_lane_def Let_def)

lemma in_flight_place_on_lane [simp]:
  "in_flight (remote_dispatch (place_on_lane jid s)) = in_flight (remote_dispatch s)"
  by (simp add: place_on_lane_def Let_def)

lemma occupied_place_on_lane [simp]: "occupied (place_on_lane jid s) i = occupied s i"
  by (simp add: occupied_def)

text \<open>The allocated ids, and how a state may change: what every handler but the pruning does.\<close>

definition fresh_ids :: "fw \<Rightarrow> string set" where
  "fresh_ids s = {uuids s n | n. next_uuid s \<le> n}"

text \<open>The fields no handler ever changes on an existing job.\<close>

definition job_identity :: "FirmwareJob \<Rightarrow>
    string \<times> string \<times> JobType \<times> string \<times> string \<times> string \<times> string \<times> string \<times> string \<times> bool" where
  "job_identity j = (job_id j, configuration j, job_type j, created_at j, port j, new_name j,
     depends_on j, remote_peer j, remote_job_id j, flash_bootloader j)"

definition evolves :: "fw \<Rightarrow> fw \<Rightarrow> bool" where
  "evolves s s' \<longleftrightarrow>
     uuids s' = uuids s \<and> next_uuid s \<le> next_uuid s' \<and>
     (\<forall>i. i \<notin> fresh_ids s \<longrightarrow>
        job_identity (store s' i) = job_identity (store s i) \<and>
        (is_terminal (store s i) \<longrightarrow> status (store s' i) = status (store s i) \<and>
           is_deferred_install (store s' i) = is_deferred_install (store s i)) \<and>
        (dependency_released (store s i) \<longrightarrow> dependency_released (store s' i)))"

lemma fresh_ids_mono: "uuids s' = uuids s \<Longrightarrow> next_uuid s \<le> next_uuid s' \<Longrightarrow> fresh_ids s' \<subseteq> fresh_ids s"
  unfolding fresh_ids_def by (auto intro: order_trans)

lemma evolves_refl [simp, intro]: "evolves s s"
  by (simp add: evolves_def)

lemma evolvesD:
  assumes "evolves s s'" "i \<notin> fresh_ids s"
  shows "depends_on (store s' i) = depends_on (store s i)" "job_type (store s' i) = job_type (store s i)"
    "job_id (store s' i) = job_id (store s i)" "configuration (store s' i) = configuration (store s i)"
    "is_terminal (store s i) \<Longrightarrow> status (store s' i) = status (store s i)"
    "is_terminal (store s i) \<Longrightarrow> is_deferred_install (store s' i) = is_deferred_install (store s i)"
    "dependency_released (store s i) \<Longrightarrow> dependency_released (store s' i)" "i \<notin> fresh_ids s'"
    "job_identity (store s' i) = job_identity (store s i)"
  using assms fresh_ids_mono [of s' s] by (auto simp: evolves_def job_identity_def)

lemma evolves_trans [trans]:
  assumes "evolves s t" "evolves t u"
  shows "evolves s u"
proof -
  have "job_identity (store u i) = job_identity (store s i) \<and>
      (is_terminal (store s i) \<longrightarrow> status (store u i) = status (store s i) \<and>
         is_deferred_install (store u i) = is_deferred_install (store s i)) \<and>
      (dependency_released (store s i) \<longrightarrow> dependency_released (store u i))" if i: "i \<notin> fresh_ids s" for i
  proof -
    note st = evolvesD [OF assms(1) i]
    note tu = evolvesD [OF assms(2) st(8)]
    show ?thesis using st(5,6,7,9) tu(5,6,7,9) by (simp add: is_terminal_def)
  qed
  moreover have "uuids u = uuids s \<and> next_uuid s \<le> next_uuid u"
    using assms by (auto simp: evolves_def)
  ultimately show ?thesis by (simp add: evolves_def)
qed

lemma evolves_same: "store s' = store s \<Longrightarrow> uuids s' = uuids s \<Longrightarrow> next_uuid s' = next_uuid s \<Longrightarrow> evolves s s'"
  by (simp add: evolves_def)

lemma evolves_place_on_lane [intro]: "evolves s (place_on_lane jid s)"
  by (simp add: evolves_def place_on_lane_store job_identity_def)

lemma evolves_upd_job:
  "(\<And>j. job_identity (f j) = job_identity j) \<Longrightarrow>
   (is_terminal (store s jid) \<Longrightarrow> status (f (store s jid)) = status (store s jid) \<and>
      is_deferred_install (f (store s jid)) = is_deferred_install (store s jid)) \<Longrightarrow>
   (dependency_released (store s jid) \<Longrightarrow> dependency_released (f (store s jid))) \<Longrightarrow> evolves s (upd_job jid f s)"
  by (simp add: evolves_def)

end
