(* ===== verification/History.thy ===== *)
theory History
  imports FwState
begin

text \<open>
  \<open>controllers/firmware/persistence.py\<close>, the saving half: pruning the job history, flushing the logs of
  terminal jobs to their sidecar files, reaping sidecars of dropped jobs, and the job rows written to
  the metadata file. Disk writes succeed here; the row of a job is what \<open>from_dict (to_dict job)\<close>
  gives back. The lemmas show what pruning keeps and drops, that a log survives the sidecar byte for
  byte, and that nothing but output moves to disk.
\<close>

section \<open>Pruning\<close>

definition MAX_PRIMARY_TERMINAL_JOBS :: nat where
  "MAX_PRIMARY_TERMINAL_JOBS = 500"

definition MAX_AUX_TERMINAL_JOBS :: nat where
  "MAX_AUX_TERMINAL_JOBS = 5"

definition PRIMARY_JOB_TYPES :: "JobType set" where
  "PRIMARY_JOB_TYPES = {COMPILE, UPLOAD, INSTALL}"

definition EPHEMERAL_JOB_TYPES :: "JobType set" where
  "EPHEMERAL_JOB_TYPES = {ANALYZE_MEMORY}"

definition prune_active :: "FirmwareJob \<Rightarrow> bool" where
  "prune_active j \<longleftrightarrow> \<not> is_terminal j"

definition prune_primary :: "FirmwareJob \<Rightarrow> bool" where
  "prune_primary j \<longleftrightarrow>
     is_terminal j \<and> job_type j \<notin> EPHEMERAL_JOB_TYPES \<and> job_type j \<in> PRIMARY_JOB_TYPES"

definition prune_aux :: "FirmwareJob \<Rightarrow> bool" where
  "prune_aux j \<longleftrightarrow>
     is_terminal j \<and> job_type j \<notin> EPHEMERAL_JOB_TYPES \<and> job_type j \<notin> PRIMARY_JOB_TYPES"

text \<open>The dedup loop, \<open>seen\<close> the keys met so far; a job without a configuration is always kept.\<close>

fun dedup_jobs :: "(string \<times> JobType) set \<Rightarrow> FirmwareJob list \<Rightarrow> FirmwareJob list" where
  "dedup_jobs seen [] = []"
| "dedup_jobs seen (j # js) =
     (if configuration j \<noteq> []
      then (if (configuration j, job_type j) \<in> seen then dedup_jobs seen js
            else j # dedup_jobs (insert (configuration j, job_type j) seen) js)
      else j # dedup_jobs seen js)"

definition prune_list :: "FirmwareJob list \<Rightarrow> FirmwareJob list" where
  "prune_list js =
     filter prune_active js @
     take MAX_PRIMARY_TERMINAL_JOBS (dedup_jobs {} (sort_by_desc created_at (filter prune_primary js))) @
     take MAX_AUX_TERMINAL_JOBS (sort_by_desc created_at (filter prune_aux js))"

definition job_values :: "fw \<Rightarrow> FirmwareJob list" where
  "job_values s = map (store s) (jobs s)"

definition prune_history :: "fw \<Rightarrow> fw" where
  "prune_history s = s\<lparr>jobs := map job_id (prune_list (job_values s))\<rparr>"

section \<open>Saving\<close>

text \<open>A job's row: \<open>ninja_total\<close> is never serialised, a terminal job's output lives in its sidecar.\<close>

definition metadata_row :: "FirmwareJob \<Rightarrow> FirmwareJob" where
  "metadata_row j = j\<lparr>ninja_total := 0, output := (if is_terminal j then [] else output j)\<rparr>"

definition write_job_sidecar :: "string \<Rightarrow> string list \<Rightarrow> fw \<Rightarrow> fw" where
  "write_job_sidecar jid lines s = s\<lparr>sidecars := dict_set jid (List.concat lines) (sidecars s)\<rparr>"

definition flush_output :: "string \<Rightarrow> fw \<Rightarrow> fw" where
  "flush_output jid s =
     (if is_terminal (store s jid) \<and> output (store s jid) \<noteq> []
      then upd_job jid (\<lambda>j. j\<lparr>output := []\<rparr>) (write_job_sidecar jid (output (store s jid)) s)
      else s)"

definition reconcile_sidecars :: "string list \<Rightarrow> fw \<Rightarrow> fw" where
  "reconcile_sidecars valid s = s\<lparr>sidecars := filter (\<lambda>(stem, text). stem \<in> set valid) (sidecars s)\<rparr>"

definition persisted_ids :: "fw \<Rightarrow> string list" where
  "persisted_ids s = filter (\<lambda>i. job_type (store s i) \<notin> EPHEMERAL_JOB_TYPES) (jobs s)"

definition persist_jobs :: "fw \<Rightarrow> fw" where
  "persist_jobs s =
     (let ids = persisted_ids s;
          s1 = fold flush_output ids s;
          s2 = reconcile_sidecars ids s1
      in s2\<lparr>disk_jobs := map (\<lambda>i. metadata_row (store s2 i)) ids\<rparr>)"

section \<open>Reading a log back\<close>

definition line_char :: "char \<Rightarrow> bool" where
  "line_char c \<longleftrightarrow> c \<noteq> CHR 0x0D \<and> c \<noteq> CHR 0x0A"

definition LINE_RE :: re where
  "LINE_RE = Alt (Seq (Star True (Chr line_char)) (Chr (\<lambda>c. c = CHR 0x0D \<or> c = CHR 0x0A)))
                 (Plus (Chr line_char))"

definition read_job_output :: "fw \<Rightarrow> string \<Rightarrow> string list" where
  "read_job_output s jid =
     (case dict_get (sidecars s) jid of None \<Rightarrow> [] | Some text \<Rightarrow> re_findall LINE_RE text)"

section \<open>What pruning keeps\<close>

lemma job_classes:
  "prune_active j \<or> prune_primary j \<or> prune_aux j \<or> (is_terminal j \<and> job_type j \<in> EPHEMERAL_JOB_TYPES)"
  by (auto simp: prune_active_def prune_primary_def prune_aux_def)

lemma set_dedup: "set (dedup_jobs seen js) \<subseteq> set js"
  by (induction seen js rule: dedup_jobs.induct) auto

lemma subseq_dedup: "subseq (dedup_jobs seen js) js"
  by (induction seen js rule: dedup_jobs.induct) auto

lemma set_prune_list: "set (prune_list js) \<subseteq> set js"
proof -
  have "set (dedup_jobs {} (sort_by_desc created_at (filter prune_primary js))) \<subseteq> set js"
    using set_dedup [of "{}" "sort_by_desc created_at (filter prune_primary js)"] by auto
  moreover have "set (sort_by_desc created_at (filter prune_aux js)) \<subseteq> set js" by auto
  ultimately show ?thesis
    unfolding prune_list_def by (auto dest!: in_set_takeD)
qed

text \<open>The first job with a key is kept, and it is the newest one when the list is sorted.\<close>

lemma dedup_covers:
  "j \<in> set js \<Longrightarrow> configuration j \<noteq> [] \<Longrightarrow> (configuration j, job_type j) \<notin> seen \<Longrightarrow>
   sorted_wrt (\<lambda>x y. created_at y \<le> created_at x) js \<Longrightarrow>
     \<exists>k \<in> set (dedup_jobs seen js). configuration k = configuration j \<and> job_type k = job_type j \<and>
        created_at j \<le> created_at k"
proof (induction seen js rule: dedup_jobs.induct)
  case (2 seen x js)
  show ?case
  proof (cases "configuration x \<noteq> [] \<and> (configuration x, job_type x) = (configuration j, job_type j)")
    case True
    then show ?thesis using 2 by auto
  next
    case False
    then show ?thesis using 2 by (auto split: if_splits)
  qed
qed simp

lemma dedup_unique:
  "i < k \<Longrightarrow> k < length (dedup_jobs seen js) \<Longrightarrow> configuration (dedup_jobs seen js ! k) \<noteq> [] \<Longrightarrow>
     (configuration (dedup_jobs seen js ! i), job_type (dedup_jobs seen js ! i)) \<noteq>
     (configuration (dedup_jobs seen js ! k), job_type (dedup_jobs seen js ! k))"
proof -
  have seen: "x \<in> set (dedup_jobs seen js) \<Longrightarrow> configuration x \<noteq> [] \<Longrightarrow>
      (configuration x, job_type x) \<notin> seen" for x seen js
    by (induction seen js rule: dedup_jobs.induct) (auto split: if_splits)
  have "sorted_wrt (\<lambda>x y. configuration y \<noteq> [] \<longrightarrow>
      (configuration x, job_type x) \<noteq> (configuration y, job_type y)) (dedup_jobs seen js)" for seen js
    by (induction seen js rule: dedup_jobs.induct) (auto dest: seen)
  then show "i < k \<Longrightarrow> k < length (dedup_jobs seen js) \<Longrightarrow> configuration (dedup_jobs seen js ! k) \<noteq> [] \<Longrightarrow>
     (configuration (dedup_jobs seen js ! i), job_type (dedup_jobs seen js ! i)) \<noteq>
     (configuration (dedup_jobs seen js ! k), job_type (dedup_jobs seen js ! k))"
    unfolding sorted_wrt_iff_nth_less by blast
qed

lemma dedup_fixed:
  "sorted_wrt (\<lambda>x y. configuration y \<noteq> [] \<longrightarrow> (configuration x, job_type x) \<noteq> (configuration y, job_type y)) js \<Longrightarrow>
   \<forall>x \<in> set js. configuration x \<noteq> [] \<longrightarrow> (configuration x, job_type x) \<notin> seen \<Longrightarrow> dedup_jobs seen js = js"
  by (induction seen js rule: dedup_jobs.induct) (auto, metis)

lemma dedup_sorted_wrt:
  "sorted_wrt (\<lambda>x y. configuration y \<noteq> [] \<longrightarrow>
      (configuration x, job_type x) \<noteq> (configuration y, job_type y)) (dedup_jobs seen js)"
  unfolding sorted_wrt_iff_nth_less using dedup_unique by blast

lemma sorted_wrt_take': "sorted_wrt R xs \<Longrightarrow> sorted_wrt R (take n xs)"
  by (metis append_take_drop_id sorted_wrt_append)

lemma sorted_wrt_subseq: "subseq xs ys \<Longrightarrow> sorted_wrt R ys \<Longrightarrow> sorted_wrt R xs"
proof (induction rule: list_emb.induct)
  case (list_emb_Cons2 x y xs ys)
  then show ?case by (auto dest: list_emb_set)
qed auto

text \<open>The kept jobs of each pool.\<close>

definition kept_primary :: "FirmwareJob list \<Rightarrow> FirmwareJob list" where
  "kept_primary js =
     take MAX_PRIMARY_TERMINAL_JOBS (dedup_jobs {} (sort_by_desc created_at (filter prune_primary js)))"

definition kept_aux :: "FirmwareJob list \<Rightarrow> FirmwareJob list" where
  "kept_aux js = take MAX_AUX_TERMINAL_JOBS (sort_by_desc created_at (filter prune_aux js))"

lemma length_kept:
  "length (kept_primary js) \<le> MAX_PRIMARY_TERMINAL_JOBS" "length (kept_aux js) \<le> MAX_AUX_TERMINAL_JOBS"
  by (simp_all add: kept_primary_def kept_aux_def)

lemma prune_list_eq: "prune_list js = filter prune_active js @ kept_primary js @ kept_aux js"
  by (simp add: prune_list_def kept_primary_def kept_aux_def)

lemma kept_primary_class: "x \<in> set (kept_primary js) \<Longrightarrow> prune_primary x \<and> x \<in> set js"
  unfolding kept_primary_def by (auto dest!: in_set_takeD set_dedup [THEN subsetD])

lemma kept_aux_class: "x \<in> set (kept_aux js) \<Longrightarrow> prune_aux x \<and> x \<in> set js"
  unfolding kept_aux_def by (auto dest!: in_set_takeD)

lemma disjoint_classes [simp]:
  "prune_primary x \<Longrightarrow> \<not> prune_active x" "prune_aux x \<Longrightarrow> \<not> prune_active x"
  "prune_aux x \<Longrightarrow> \<not> prune_primary x" "prune_primary x \<Longrightarrow> \<not> prune_aux x"
  by (auto simp: prune_active_def prune_primary_def prune_aux_def)

lemma filter_classes:
  "filter prune_active (prune_list js) = filter prune_active js"
  "filter prune_primary (prune_list js) = kept_primary js"
  "filter prune_aux (prune_list js) = kept_aux js"
proof -
  have f: "filter prune_primary (kept_primary js) = kept_primary js"
    "filter prune_aux (kept_aux js) = kept_aux js"
    "filter prune_active (kept_primary js) = []" "filter prune_active (kept_aux js) = []"
    "filter prune_aux (kept_primary js) = []" "filter prune_primary (kept_aux js) = []"
    by (auto simp: filter_empty_conv filter_id_conv dest: kept_primary_class kept_aux_class)
  have g: "filter prune_primary (filter prune_active js) = []"
    "filter prune_aux (filter prune_active js) = []"
    by (auto simp: filter_empty_conv prune_active_def prune_primary_def prune_aux_def)
  show "filter prune_active (prune_list js) = filter prune_active js"
    "filter prune_primary (prune_list js) = kept_primary js"
    "filter prune_aux (prune_list js) = kept_aux js"
    by (simp_all add: prune_list_eq f g del: filter_filter)
qed

lemma kept_primary_sorted: "sorted_wrt (\<lambda>x y. created_at y \<le> created_at x) (kept_primary js)"
  unfolding kept_primary_def
  by (intro sorted_wrt_take' sorted_wrt_subseq [OF subseq_dedup] sorted_wrt_sort_by_desc)

lemma kept_aux_sorted: "sorted_wrt (\<lambda>x y. created_at y \<le> created_at x) (kept_aux js)"
  unfolding kept_aux_def by (intro sorted_wrt_take' sorted_wrt_sort_by_desc)

lemma prune_list_idem: "prune_list (prune_list js) = prune_list js"
proof -
  have "dedup_jobs {} (kept_primary js) = kept_primary js"
    unfolding kept_primary_def
    by (intro dedup_fixed sorted_wrt_take' dedup_sorted_wrt) simp
  then have "take MAX_PRIMARY_TERMINAL_JOBS (dedup_jobs {} (sort_by_desc created_at (kept_primary js))) =
      take MAX_PRIMARY_TERMINAL_JOBS (kept_primary js)"
    by (simp only: sort_by_desc_id [OF kept_primary_sorted])
  also have "\<dots> = kept_primary js" by (simp add: kept_primary_def)
  finally have "kept_primary (prune_list js) = kept_primary js"
    by (simp only: kept_primary_def [of "prune_list js"] filter_classes)
  moreover have "take MAX_AUX_TERMINAL_JOBS (sort_by_desc created_at (kept_aux js)) = kept_aux js"
    by (simp only: sort_by_desc_id [OF kept_aux_sorted]) (simp add: kept_aux_def)
  then have "kept_aux (prune_list js) = kept_aux js"
    by (simp only: kept_aux_def [of "prune_list js"] filter_classes)
  ultimately show ?thesis unfolding prune_list_eq [of "prune_list js"] filter_classes
    by (simp add: prune_list_eq)
qed

lemma sorted_take_covers:
  "sorted_wrt (\<lambda>x y. created_at y \<le> created_at x) xs \<Longrightarrow> k \<in> set xs \<Longrightarrow>
     k \<in> set (take n xs) \<or> (length (take n xs) = n \<and> (\<forall>x \<in> set (take n xs). created_at k \<le> created_at x))"
proof -
  assume sorted: "sorted_wrt (\<lambda>x y. created_at y \<le> created_at x) xs" and k: "k \<in> set xs"
  show ?thesis
  proof (cases "k \<in> set (take n xs)")
    case False
    then have kd: "k \<in> set (drop n xs)"
      using k by (metis Un_iff append_take_drop_id set_append)
    then have "n \<le> length xs" by (metis drop_eq_Nil2 empty_iff empty_set linear)
    moreover have "\<forall>x \<in> set (take n xs). created_at k \<le> created_at x"
      using sorted kd by (metis append_take_drop_id sorted_wrt_append)
    ultimately show ?thesis by simp
  qed simp
qed



section \<open>A log survives its sidecar\<close>

text \<open>
  An output line: a run of other characters closed by one terminator, or, at the end of the log, an
  unterminated one.
\<close>

definition is_terminator :: "char \<Rightarrow> bool" where
  "is_terminator c \<longleftrightarrow> c = CHR 0x0D \<or> c = CHR 0x0A"

definition closed_line :: "string \<Rightarrow> bool" where
  "closed_line l \<longleftrightarrow> (\<exists>u c. l = u @ [c] \<and> (\<forall>x \<in> set u. line_char x) \<and> is_terminator c)"

definition open_line :: "string \<Rightarrow> bool" where
  "open_line l \<longleftrightarrow> l \<noteq> [] \<and> (\<forall>x \<in> set l. line_char x)"

fun log_lines :: "string list \<Rightarrow> bool" where
  "log_lines [] = True"
| "log_lines [l] = (closed_line l \<or> open_line l)"
| "log_lines (l # ls) = (closed_line l \<and> log_lines ls)"

lemma LINE_RE_closed:
  assumes "\<forall>x \<in> set u. line_char x" "is_terminator c"
  shows "\<exists>qs. matches LINE_RE (Pos pv (u @ c # s) []) = Pos (Some c) s [] # qs"
proof -
  have "\<not> line_char c" using assms(2) by (auto simp: is_terminator_def line_char_def)
  then obtain qs where "matches (Star True (Chr line_char)) (Pos pv (u @ c # s) []) =
      Pos (if u = [] then pv else Some (last u)) (c # s) [] # qs"
    using matches_Star_greedy [of u line_char "c # s" pv "[]"] assms(1) by auto
  then show ?thesis
    using assms(2) unfolding LINE_RE_def matches.simps(4) matches.simps(3) [of "Star True (Chr line_char)"]
    by (simp add: is_terminator_def del: matches.simps(5))
qed

lemma LINE_RE_open:
  assumes "open_line l"
  shows "\<exists>pv' qs. matches LINE_RE (Pos pv l []) = Pos pv' [] [] # qs"
proof -
  have no_term: "matches (Seq (Star True (Chr line_char)) (Chr (\<lambda>c. c = CHR 0x0D \<or> c = CHR 0x0A))) (Pos pv l []) = []"
  proof (rule ccontr)
    assume "matches (Seq (Star True (Chr line_char)) (Chr (\<lambda>c. c = CHR 0x0D \<or> c = CHR 0x0A))) (Pos pv l []) \<noteq> []"
    then obtain q where "q \<in> set (matches (Seq (Star True (Chr line_char))
        (Chr (\<lambda>c. c = CHR 0x0D \<or> c = CHR 0x0A))) (Pos pv l []))"
      using hd_in_set by blast
    from matches_sound [OF this] obtain w where
      w: "l = w @ rest q" "lang (Seq (Star True (Chr line_char)) (Chr (\<lambda>c. c = CHR 0x0D \<or> c = CHR 0x0A))) w"
      by auto
    then obtain u c where "l = u @ c # rest q" "c = CHR 0x0D \<or> c = CHR 0x0A"
      by (auto simp: lang_Seq_iff [of "Star True (Chr line_char)"] lang_Chr_iff)
    then have "c \<in> set l" "c = CHR 0x0D \<or> c = CHR 0x0A" by simp_all
    then show False using assms by (auto simp: open_line_def line_char_def)
  qed
  obtain qs where "matches (Plus (Chr line_char)) (Pos pv (l @ []) []) = Pos (Some (last l)) [] [] # qs"
    using matches_Plus_greedy [of l line_char "[]" pv "[]"] assms by (auto simp: open_line_def)
  then show ?thesis
    unfolding LINE_RE_def matches.simps(4) no_term by (simp del: matches.simps)
qed

lemma findall_closed:
  assumes "\<forall>x \<in> set u. line_char x" "is_terminator c"
  shows "re_findall_from LINE_RE pv (u @ c # s) = (u @ [c]) # re_findall_from LINE_RE (Some c) s"
proof -
  obtain qs where "matches LINE_RE (Pos pv (u @ c # s) []) = Pos (Some c) s [] # qs"
    using LINE_RE_closed [OF assms] by blast
  then show ?thesis by (cases u) auto
qed

lemma findall_log_lines: "log_lines ls \<Longrightarrow> re_findall_from LINE_RE pv (List.concat ls) = ls"
proof (induction ls arbitrary: pv rule: log_lines.induct)
  case (2 l)
  then show ?case
  proof (cases "closed_line l")
    case True
    then obtain u c where "l = u @ [c]" "\<forall>x \<in> set u. line_char x" "is_terminator c"
      by (auto simp: closed_line_def)
    then show ?thesis using findall_closed [of u c pv "[]"] by simp
  next
    case False
    then have "open_line l" using 2 by simp
    moreover from this obtain pv' qs where "matches LINE_RE (Pos pv l []) = Pos pv' [] [] # qs"
      using LINE_RE_open by blast
    ultimately show ?thesis by (cases l) (auto simp: open_line_def)
  qed
next
  case (3 l k ls)
  then obtain u c where "l = u @ [c]" "\<forall>x \<in> set u. line_char x" "is_terminator c"
    by (auto simp: closed_line_def)
  then show ?case using 3 findall_closed [of u c pv "List.concat (k # ls)"] by simp
qed simp

section \<open>What saving does\<close>

lemma flush_output_other [simp]:
  "jobs (flush_output i s) = jobs s"
  "i \<noteq> k \<Longrightarrow> store (flush_output i s) k = store s k"
  "i \<noteq> k \<Longrightarrow> dict_get (sidecars (flush_output i s)) k = dict_get (sidecars s) k"
  by (simp_all add: flush_output_def upd_job_def write_job_sidecar_def)

lemma flush_output_self:
  "store (flush_output i s) i = (if is_terminal (store s i) then (store s i)\<lparr>output := []\<rparr> else store s i)"
  by (cases "output (store s i)")
    (auto simp: flush_output_def upd_job_def write_job_sidecar_def)

lemma fold_flush_other:
  "k \<notin> set is \<Longrightarrow> store (fold flush_output is s) k = store s k"
  "k \<notin> set is \<Longrightarrow> dict_get (sidecars (fold flush_output is s)) k = dict_get (sidecars s) k"
  by (induction "is" arbitrary: s) auto

lemma fold_flush_store:
  "distinct is \<Longrightarrow> k \<in> set is \<Longrightarrow> store (fold flush_output is s) k =
     (if is_terminal (store s k) then (store s k)\<lparr>output := []\<rparr> else store s k)"
proof (induction "is" arbitrary: s)
  case (Cons i "is")
  show ?case
  proof (cases "k = i")
    case True
    then show ?thesis using Cons.prems by (simp add: fold_flush_other flush_output_self)
  next
    case False
    then show ?thesis using Cons.prems Cons.IH [of "flush_output i s"] by simp
  qed
qed simp

lemma flush_output_sidecar:
  "dict_get (sidecars (flush_output i s)) i =
     (if is_terminal (store s i) \<and> output (store s i) \<noteq> [] then Some (List.concat (output (store s i)))
      else dict_get (sidecars s) i)"
  by (auto simp: flush_output_def upd_job_def write_job_sidecar_def)

lemma fold_flush_sidecar:
  "distinct is \<Longrightarrow> k \<in> set is \<Longrightarrow> dict_get (sidecars (fold flush_output is s)) k =
     (if is_terminal (store s k) \<and> output (store s k) \<noteq> [] then Some (List.concat (output (store s k)))
      else dict_get (sidecars s) k)"
proof (induction "is" arbitrary: s)
  case (Cons i "is")
  show ?case
  proof (cases "k = i")
    case True
    then show ?thesis using Cons.prems by (simp add: fold_flush_other flush_output_sidecar)
  next
    case False
    then show ?thesis using Cons.prems Cons.IH [of "flush_output i s"] by simp
  qed
qed simp

lemma fold_flush_jobs [simp]: "jobs (fold flush_output is s) = jobs s"
  by (induction "is" arbitrary: s) auto

lemma map_of_filter_keys: "map_of (filter (\<lambda>(x, y). P x) xs) k = (if P k then map_of xs k else None)"
  by (induction xs) auto

lemma reconcile_get:
  "dict_get (sidecars (reconcile_sidecars ids s)) k =
     (if k \<in> set ids then dict_get (sidecars s) k else None)"
  by (simp add: reconcile_sidecars_def map_of_filter_keys)

lemma persist_jobs_fields [simp]:
  "jobs (persist_jobs s) = jobs s"
  by (simp add: persist_jobs_def Let_def reconcile_sidecars_def)

lemma set_persisted_ids: "i \<in> set (persisted_ids s) \<longleftrightarrow> i \<in> set (jobs s) \<and> job_type (store s i) \<notin> EPHEMERAL_JOB_TYPES"
  by (auto simp: persisted_ids_def)

lemma persist_store:
  assumes "distinct (jobs s)"
  shows "store (persist_jobs s) i =
     (if i \<in> set (persisted_ids s) \<and> is_terminal (store s i) then (store s i)\<lparr>output := []\<rparr> else store s i)"
proof -
  have "distinct (persisted_ids s)" using assms by (simp add: persisted_ids_def)
  then show ?thesis
    by (cases "i \<in> set (persisted_ids s)")
      (auto simp: persist_jobs_def Let_def reconcile_sidecars_def fold_flush_store fold_flush_other)
qed

text \<open>
  Saving loses nothing and moves nothing but logs: every retained job that is not ephemeral has its
  row on disk in the dictionary's order and no other job has one; a job's row differs from the job only
  in the ninja total and, when it is terminal, in the output; the log of a terminal job reads back from
  its sidecar line by line, the logs of active jobs stay in memory, and a log whose job is no longer
  retained is gone.
\<close>
lemma persist_jobs_spec:
  assumes "distinct (jobs s)"
    and "\<And>i. i \<in> set (persisted_ids s) \<Longrightarrow> is_terminal (store s i) \<Longrightarrow> log_lines (output (store s i))"
  shows "map job_id (disk_jobs (persist_jobs s)) = map (\<lambda>i. job_id (store s i)) (persisted_ids s) \<and>
    disk_jobs (persist_jobs s) = map (\<lambda>i. (store s i)\<lparr>ninja_total := 0,
        output := (if is_terminal (store s i) then [] else output (store s i))\<rparr>) (persisted_ids s) \<and>
    (\<forall>i \<in> set (persisted_ids s). is_terminal (store s i) \<and> output (store s i) \<noteq> [] \<longrightarrow>
        read_job_output (persist_jobs s) i = output (store s i) \<and> output (store (persist_jobs s) i) = []) \<and>
    (\<forall>i. \<not> is_terminal (store s i) \<longrightarrow> store (persist_jobs s) i = store s i) \<and>
    (\<forall>i. i \<notin> set (persisted_ids s) \<longrightarrow> dict_get (sidecars (persist_jobs s)) i = None)"
proof -
  let ?ids = "persisted_ids s"
  have d: "distinct ?ids" using assms(1) by (simp add: persisted_ids_def)
  have rows: "disk_jobs (persist_jobs s) = map (\<lambda>i. (store s i)\<lparr>ninja_total := 0,
        output := (if is_terminal (store s i) then [] else output (store s i))\<rparr>) ?ids"
    by (simp add: persist_jobs_def Let_def reconcile_sidecars_def metadata_row_def fold_flush_store [OF d]
        is_terminal_def)
  have side: "dict_get (sidecars (persist_jobs s)) i =
      (if i \<in> set ?ids then dict_get (sidecars (fold flush_output ?ids s)) i else None)" for i
    using reconcile_get [of ?ids "fold flush_output ?ids s" i] by (simp add: persist_jobs_def Let_def)
  have "read_job_output (persist_jobs s) i = output (store s i) \<and> output (store (persist_jobs s) i) = []"
    if "i \<in> set ?ids" "is_terminal (store s i)" "output (store s i) \<noteq> []" for i
    using that side [of i] findall_log_lines [OF assms(2) [OF that(1,2)], of None]
    by (simp add: read_job_output_def fold_flush_sidecar [OF d] re_findall_def persist_store [OF assms(1)])
  moreover have "store (persist_jobs s) i = store s i" if "\<not> is_terminal (store s i)" for i
    using that by (simp add: persist_store [OF assms(1)])
  ultimately show ?thesis using rows side by (simp add: comp_def)
qed

lemma persist_jobs_spec_witness:
  "let j = (new_FirmwareJob ''a'' ''x.yaml'' COMPILE)\<lparr>status := COMPLETED,
         output := [''ok'' @ [CHR 0x0A], ''done'']\<rparr>
   in \<forall>s. jobs s = [''a''] \<and> store s ''a'' = j \<longrightarrow>
        read_job_output (persist_jobs s) ''a'' = [''ok'' @ [CHR 0x0A], ''done'']"
  unfolding Let_def
proof (intro allI impI)
  fix s :: fw
  let ?j = "(new_FirmwareJob ''a'' ''x.yaml'' COMPILE)\<lparr>status := COMPLETED,
         output := [''ok'' @ [CHR 0x0A], ''done'']\<rparr>"
  assume s: "jobs s = [''a''] \<and> store s ''a'' = ?j"
  have ids: "persisted_ids s = [''a'']"
    using s by (simp add: persisted_ids_def new_FirmwareJob_def EPHEMERAL_JOB_TYPES_def)
  have "closed_line (''ok'' @ [CHR 0x0A])"
    unfolding closed_line_def by (intro exI [of _ "''ok''"] exI [of _ "CHR 0x0A"])
      (simp add: line_char_def is_terminator_def)
  then have "log_lines (output ?j)" by (simp add: open_line_def line_char_def)
  then have "read_job_output (persist_jobs s) ''a'' = output (store s ''a'')"
    using persist_jobs_spec [of s] s ids by (simp add: is_terminal_def)
  then show "read_job_output (persist_jobs s) ''a'' = [''ok'' @ [CHR 0x0A], ''done'']"
    using s by simp
qed

end
