(* ===== verification/JobFactory.thy ===== *)
theory JobFactory
  imports History
begin

text \<open>
  The synchronous half of \<open>controllers/firmware/factories.py\<close>: creating a job, resolving where it
  compiles, the rename lock, and placing a job on its lane with its JOB_QUEUED event. The lemmas frame
  \<open>create_job\<close> and show when the rename lock rejects.
\<close>

section \<open>Creating a job\<close>

text \<open>
  \<open>esphome.upload_targets.get_port_type\<close> is outside the repository: a parameter that classifies a port
  as far as the code distinguishes its answers.
\<close>

datatype PortType = SERIAL | BOOTSEL | OtherPort

definition is_ota_app_flash :: "(string \<Rightarrow> PortType) \<Rightarrow> string \<Rightarrow> bool \<Rightarrow> bool" where
  "is_ota_app_flash get_port_type p flash_boot =
     (if flash_boot \<or> p = [] then False else get_port_type p \<notin> {SERIAL, BOOTSEL})"

text \<open>\<open>kwargs\<close> sets the keyword arguments the caller passes.\<close>

definition create_job ::
    "string \<Rightarrow> JobType \<Rightarrow> (FirmwareJob \<Rightarrow> FirmwareJob) \<Rightarrow> JobBuildSource \<Rightarrow> fw \<Rightarrow> string \<times> fw" where
  "create_job conf ty kwargs build_source s =
     (case fresh_uuid s of
        (jid, s1) \<Rightarrow>
          case now_iso s1 of
            (now, s2) \<Rightarrow>
              let j = apply_build_source build_source
                        (kwargs ((new_FirmwareJob jid conf ty)\<lparr>created_at := now\<rparr>))
              in (jid, s2\<lparr>store := (store s2)(jid := j), jobs := keys_add jid (jobs s2)\<rparr>))"

definition resolve_install_source :: "bool \<Rightarrow> JobType \<Rightarrow> fw \<Rightarrow> JobBuildSource result" where
  "resolve_install_source force_local ty s =
     (if force_local then Inr LOCAL_JOB_BUILD_SOURCE
      else case offloader s of
        None \<Rightarrow> Inr LOCAL_JOB_BUILD_SOURCE
      | Some snapshot \<Rightarrow>
          (case pick_build_path (inputs_for_job_type snapshot ty) of
             Inl e \<Rightarrow> Inl e
           | Inr d \<Rightarrow> Inr (if path d = BuildPath.REMOTE then REMOTE_PENDING_JOB_BUILD_SOURCE
                           else LOCAL_JOB_BUILD_SOURCE)))"

section \<open>The rename lock\<close>

definition rename_locks :: "FirmwareJob \<Rightarrow> FirmwareJob \<Rightarrow> bool" where
  "rename_locks act j \<longleftrightarrow>
     job_type act = RENAME \<and>
     \<not> (job_type j = RENAME \<and> configuration j = configuration act) \<and>
     names_touched_by_job j \<inter> names_touched_by_job act \<noteq> {}"

definition rename_lock_message :: "FirmwareJob \<Rightarrow> string" where
  "rename_lock_message act =
     ''Device '' @ configuration act @ '' is being renamed to '' @
     (if new_name act \<noteq> [] then new_filename act else ''(unknown)'') @
     ''; wait for the rename to finish before queueing another firmware task on either name.''"

definition check_rename_lock :: "string \<Rightarrow> string set \<Rightarrow> fw \<Rightarrow> unit result" where
  "check_rename_lock jid exclude s =
     (if names_touched_by_job (store s jid) = {} then Inr ()
      else case List.find (\<lambda>i. i \<notin> exclude \<and> rename_locks (store s i) (store s jid)) (active_jobs s) of
             None \<Rightarrow> Inr ()
           | Some i \<Rightarrow> Inl (CommandError INVALID_ARGS (rename_lock_message (store s i))))"

section \<open>Placing a job\<close>

definition place_and_announce :: "string \<Rightarrow> fw \<Rightarrow> fw" where
  "place_and_announce jid s =
     (let s1 = (if dependency_satisfied s (store s jid) then place_on_lane jid s else s)
      in fire_event (Lifecycle JOB_QUEUED (store s1 jid)) s1)"

section \<open>Framing\<close>

text \<open>The ids still to be drawn are not in use.\<close>

definition fresh_supply :: "fw \<Rightarrow> bool" where
  "fresh_supply s \<longleftrightarrow> inj (uuids s) \<and> (\<forall>n \<ge> next_uuid s. uuids s n \<notin> set (jobs s) \<and> uuids s n \<noteq> [])"

lemma check_rename_lock_Inr_iff:
  "check_rename_lock jid exclude s = Inr () \<longleftrightarrow>
     (\<forall>i \<in> set (active_jobs s). i \<in> exclude \<or> \<not> rename_locks (store s i) (store s jid))"
  by (cases "names_touched_by_job (store s jid) = {}")
    (auto simp: check_rename_lock_def rename_locks_def find_None_iff split: option.splits
      dest!: find_SomeD)

lemma check_rename_lock_Inl:
  "check_rename_lock jid exclude s = Inl e \<Longrightarrow>
     \<exists>i \<in> set (active_jobs s). i \<notin> exclude \<and> rename_locks (store s i) (store s jid) \<and>
       e = CommandError INVALID_ARGS (rename_lock_message (store s i))"
  by (auto simp: check_rename_lock_def split: option.splits if_splits dest!: find_SomeD)

lemma create_job_eq:
  "create_job conf ty kwargs b s = (jid, s') \<Longrightarrow>
     jid = uuids s (next_uuid s) \<and>
     s' = s\<lparr>next_uuid := Suc (next_uuid s), ticks := Suc (ticks s),
             store := (store s)(jid := apply_build_source b
               (kwargs ((new_FirmwareJob jid conf ty)\<lparr>created_at := clock s (ticks s)\<rparr>))),
             jobs := keys_add jid (jobs s)\<rparr>"
  by (auto simp: create_job_def fresh_uuid_def now_iso_def Let_def)

end
