(* ===== verification/Lifecycle.thy ===== *)
theory Lifecycle
  imports JobFactory
begin

text \<open>
  \<open>controllers/firmware/lifecycle.py\<close>, the terminal-event listeners of \<open>controller.py\<close> that run inside
  \<open>bus.fire\<close>, and the revert of \<open>rename_flow.py\<close> that every finalisation schedules. Finalising a job
  cancels or places the jobs held on it, which can finalise them in turn: the recursion is bounded by
  fuel, and \<open>fuel_enough\<close> shows that the fuel the entry point passes, one more than the
  number of held jobs, is always enough.
\<close>

section \<open>Terminal-event listeners\<close>

definition STATUS_TO_TERMINAL_EVENT :: "JobStatus \<Rightarrow> EventType" where
  "STATUS_TO_TERMINAL_EVENT st =
     (if st = COMPLETED then JOB_COMPLETED else if st = FAILED then JOB_FAILED else JOB_CANCELLED)"

text \<open>
  The deferred flash: the job is created at once, and the eager background task runs the lock check and
  the placement before it first suspends; the supersede, whose cancellations suspend on their saves, and
  the final save are one later turn of the task. A rejected task rolls its job back and is logged.
\<close>

definition dispatch_queued_upload :: "string \<Rightarrow> fw \<Rightarrow> fw" where
  "dispatch_queued_upload conf s =
     (case create_job conf UPLOAD (\<lambda>j. j\<lparr>port := OTA_PORT\<rparr>) LOCAL_JOB_BUILD_SOURCE s of
        (jid, s1) \<Rightarrow>
          (case check_rename_lock jid {} s1 of
             Inl e \<Rightarrow> s1\<lparr>jobs := keys_pop jid (jobs s1)\<rparr>
           | Inr u \<Rightarrow> let s2 = place_and_announce jid s1
                      in s2\<lparr>tasks := tasks s2 @ [FinishEnqueue jid conf]\<rparr>))"

definition arm_queued_update_if_flagged :: "string \<Rightarrow> fw \<Rightarrow> fw" where
  "arm_queued_update_if_flagged jid s =
     (if devices s = None \<or> \<not> is_queued_update_armed (store s jid) then s
      else set_queued_update True (configuration (store s jid)) s)"

definition handle_deferred_compile_completion :: "string \<Rightarrow> fw \<Rightarrow> fw" where
  "handle_deferred_compile_completion jid s =
     (if \<not> is_deferred_compile_success (store s jid) then s
      else case device_for_configuration s (configuration (store s jid)) of
             None \<Rightarrow> s
           | Some d \<Rightarrow> if device_state d \<noteq> ONLINE then s
                       else dispatch_queued_upload (configuration (store s jid)) s)"

definition handle_ota_upload_completion :: "string \<Rightarrow> fw \<Rightarrow> fw" where
  "handle_ota_upload_completion jid s =
     (if devices s = None \<or> \<not> is_completed_ota_upload (store s jid) then s
      else case device_for_configuration s (configuration (store s jid)) of
             None \<Rightarrow> s
           | Some d \<Rightarrow> if \<not> queued_update d then s
                       else set_queued_update False (configuration (store s jid)) s)"

definition handle_job_completed :: "string \<Rightarrow> fw \<Rightarrow> fw" where
  "handle_job_completed jid s =
     handle_ota_upload_completion jid
       (handle_deferred_compile_completion jid (arm_queued_update_if_flagged jid s))"

definition handle_job_failed :: "string \<Rightarrow> fw \<Rightarrow> fw" where
  "handle_job_failed jid s = arm_queued_update_if_flagged jid s"

definition fire_job_lifecycle :: "EventType \<Rightarrow> string \<Rightarrow> fw \<Rightarrow> fw" where
  "fire_job_lifecycle et jid s =
     (let s1 = fire_event (Lifecycle et (store s jid)) s
      in if et = JOB_COMPLETED then handle_job_completed jid s1
         else if et = JOB_FAILED then handle_job_failed jid s1
         else s1)"

text \<open>The wake listener of DEVICE_STATE_CHANGED, with the state and the configuration of the event.\<close>

definition handle_device_wake :: "DeviceState \<Rightarrow> string \<Rightarrow> fw \<Rightarrow> fw" where
  "handle_device_wake st conf s =
     (if st \<noteq> ONLINE then s
      else case device_for_configuration s conf of
             None \<Rightarrow> s
           | Some d \<Rightarrow>
               if \<not> queued_update d then s
               else if \<exists>i \<in> set (active_jobs s). is_network_flash (store s i) \<and> configuration (store s i) = conf
               then s
               else dispatch_queued_upload conf s)"

section \<open>Rename revert\<close>

definition revert_rename :: "string \<Rightarrow> fw \<Rightarrow> fw" where
  "revert_rename jid s =
     (if \<exists>i \<in> set (active_jobs s). job_id (store s i) \<noteq> job_id (store s jid) \<and>
           is_rename_tail (store s i) \<and> new_name (store s i) = new_name (store s jid)
      then s
      else s\<lparr>yaml_files := dict_pop (new_filename (store s jid)) (yaml_files s)\<rparr>)"

text \<open>The eager task runs at once unless it has to wait for the lock.\<close>

definition on_job_terminal :: "string \<Rightarrow> fw \<Rightarrow> fw" where
  "on_job_terminal jid s =
     (if \<not> is_rename_tail (store s jid) \<or> status (store s jid) = COMPLETED then s
      else if rename_fs_lock s then s\<lparr>tasks := tasks s @ [RevertRename jid]\<rparr>
      else revert_rename jid s)"

section \<open>Finalising\<close>

definition defer_install_if_target_offline :: "string \<Rightarrow> fw \<Rightarrow> fw" where
  "defer_install_if_target_offline jid s =
     (let j = store s jid in
      if is_deferred_install j then s
      else if \<not> (status j = COMPLETED \<and> job_type j = COMPILE) \<and> \<not> (status j = FAILED \<and> is_ota_app_upload j)
      then s
      else if \<not> target_is_offline s (configuration j) then s
      else if job_type j = COMPILE \<and>
              \<not> (\<exists>i \<in> set (dependents s jid). status (store s i) = QUEUED \<and> is_ota_app_upload (store s i))
      then s
      else upd_job jid (\<lambda>j. j\<lparr>is_deferred_install := True\<rparr>) s)"

definition lane_release :: "string \<Rightarrow> Lane \<Rightarrow> Lane" where
  "lane_release jid l = l\<lparr>active := keys_pop jid (active l)\<rparr>"

definition release_lane_slot :: "string \<Rightarrow> fw \<Rightarrow> fw" where
  "release_lane_slot jid s =
     fold (\<lambda>n. upd_lane n (lane_release jid)) lane_names (release_spawn jid s)"

text \<open>A loop whose body can raise: the first exception leaves it with the state reached.\<close>

fun for_each :: "('a \<Rightarrow> 's \<Rightarrow> unit result \<times> 's) \<Rightarrow> 'a list \<Rightarrow> 's \<Rightarrow> unit result \<times> 's" where
  "for_each f [] s = (Inr (), s)"
| "for_each f (x # xs) s =
     (case f x s of
        (Inl e, s') \<Rightarrow> (Inl e, s')
      | (Inr u, s') \<Rightarrow> for_each f xs s')"

text \<open>One dependent of a terminal job, \<open>fin\<close> the finaliser.\<close>

definition release_one ::
    "(string \<Rightarrow> JobStatus \<Rightarrow> string option \<Rightarrow> fw \<Rightarrow> unit result \<times> fw) \<Rightarrow> string \<Rightarrow> string \<Rightarrow> fw \<Rightarrow> unit result \<times> fw"
where
  "release_one fin jid dep s =
     (if status (store s dep) \<noteq> QUEUED then (Inr (), s)
      else if status (store s jid) \<noteq> COMPLETED
      then fin dep CANCELLED (Some PREREQUISITE_FAILED_ERROR) s
      else if is_deferred_install (store s jid)
      then fin dep CANCELLED (Some TARGET_OFFLINE_DEFERRED_ERROR) s
      else (Inr (), place_on_lane dep s))"

definition release_dependents_with ::
    "(string \<Rightarrow> JobStatus \<Rightarrow> string option \<Rightarrow> fw \<Rightarrow> unit result \<times> fw) \<Rightarrow> string \<Rightarrow> fw \<Rightarrow> unit result \<times> fw"
where
  "release_dependents_with fin jid s = for_each (release_one fin jid) (dependents s jid) s"

text \<open>Whether a dependent was acted on: one was queued when the loop reached it.\<close>

definition release_acts :: "string \<Rightarrow> fw \<Rightarrow> bool" where
  "release_acts jid s \<longleftrightarrow> (\<exists>i \<in> set (dependents s jid). status (store s i) = QUEUED)"

primrec finalize_fuel :: "nat \<Rightarrow> string \<Rightarrow> JobStatus \<Rightarrow> string option \<Rightarrow> fw \<Rightarrow> unit result \<times> fw" where
  "finalize_fuel 0 jid st err s = (Inl (RuntimeError ''maximum recursion depth exceeded''), s)"
| "finalize_fuel (Suc n) jid st err s =
     (case now_iso s of
        (now, s0) \<Rightarrow>
          (case mark_terminal now st err (store s0 jid) of
             Inl e \<Rightarrow> (Inl e, s)
           | Inr j \<Rightarrow>
               let s1 = upd_job jid (\<lambda>_. j) s0;
                   s2 = defer_install_if_target_offline jid s1;
                   s3 = release_lane_slot jid s2;
                   s4 = fire_job_lifecycle (STATUS_TO_TERMINAL_EVENT st) jid s3
               in (case release_dependents_with (finalize_fuel n) jid s4 of
                     (Inl e, s5) \<Rightarrow> (Inl e, s5)
                   | (Inr u, s5) \<Rightarrow> (Inr (), (on_job_terminal jid s5)\<lparr>build_gate := True\<rparr>))))"

text \<open>The jobs held on a prerequisite bound the depth of the recursion.\<close>

definition held :: "fw \<Rightarrow> string \<Rightarrow> bool" where
  "held s i \<longleftrightarrow> i \<in> set (jobs s) \<and> status (store s i) = QUEUED \<and> depends_on (store s i) \<noteq> []"

definition held_count :: "fw \<Rightarrow> nat" where
  "held_count s = length (filter (held s) (jobs s))"

definition finalize_terminal :: "string \<Rightarrow> JobStatus \<Rightarrow> string option \<Rightarrow> fw \<Rightarrow> unit result \<times> fw" where
  "finalize_terminal jid st err s = finalize_fuel (Suc (held_count s)) jid st err s"

definition release_dependents :: "string \<Rightarrow> fw \<Rightarrow> unit result \<times> fw" where
  "release_dependents jid s = release_dependents_with (finalize_fuel (Suc (held_count s))) jid s"

definition finalize_cancelled :: "string \<Rightarrow> fw \<Rightarrow> unit result \<times> fw" where
  "finalize_cancelled jid s =
     finalize_terminal jid CANCELLED None (s\<lparr>cancel_requested := cancel_requested s - {jid}\<rparr>)"

definition cancel_if_requested :: "string \<Rightarrow> fw \<Rightarrow> bool result \<times> fw" where
  "cancel_if_requested jid s =
     (if jid \<in> cancel_requested s
      then (case finalize_cancelled jid s of
              (Inl e, s') \<Rightarrow> (Inl e, s')
            | (Inr u, s') \<Rightarrow> (Inr True, s'))
      else (Inr False, s))"

definition raise_if_cancelled :: "string \<Rightarrow> string \<Rightarrow> fw \<Rightarrow> unit result" where
  "raise_if_cancelled jid phase s =
     (if jid \<in> cancel_requested s then Inl (ValueError (''Cancelled during '' @ phase)) else Inr ())"

section \<open>The run prologue and epilogue\<close>

definition begin_run :: "string \<Rightarrow> fw \<Rightarrow> fw" where
  "begin_run jid s =
     (case now_iso s of
        (now, s0) \<Rightarrow> persist_jobs (fire_job_lifecycle JOB_STARTED jid (upd_job jid (mark_running now) s0)))"

definition end_run :: "string \<Rightarrow> fw \<Rightarrow> fw" where
  "end_run jid s =
     persist_jobs
       (if is_terminal (store s jid)
        then prune_history
               (if job_type (store s jid) \<notin> EPHEMERAL_JOB_TYPES
                then upd_job jid (trim_job_output MAX_OUTPUT_LINES_RETAINED) s else s)
        else s)"

definition finalize_unexpected_error :: "string \<Rightarrow> string \<Rightarrow> fw \<Rightarrow> unit result \<times> fw" where
  "finalize_unexpected_error jid exc_text s =
     (if jid \<in> cancel_requested s then finalize_cancelled jid s
      else finalize_terminal jid FAILED (Some exc_text) s)"

definition terminate_job_process :: "string \<Rightarrow> fw \<Rightarrow> fw" where
  "terminate_job_process jid s =
     (if jid \<in> set (spawns s) then s\<lparr>signalled := signalled s @ [jid]\<rparr> else s)"

section \<open>Well-formed states\<close>

text \<open>
  The dictionary files every job under its own id, ids still to be drawn are neither used nor waited
  for, a running job holds a slot, and a job with a prerequisite is on a lane, in the pool or running only once it has been
  released, which only happens after its prerequisite completed.
\<close>

definition wf :: "fw \<Rightarrow> bool" where
  "wf s \<longleftrightarrow>
     distinct (jobs s) \<and> inj (uuids s) \<and> [] \<notin> range (uuids s) \<and>
     (\<forall>i. i \<in> set (jobs s) \<or> placed s i \<longrightarrow> i \<notin> fresh_ids s) \<and>
     (\<forall>i \<in> set (jobs s). job_id (store s i) = i) \<and>
     (\<forall>i \<in> set (jobs s). depends_on (store s i) \<notin> fresh_ids s) \<and>
     (\<forall>i \<in> set (jobs s). status (store s i) = RUNNING \<longrightarrow> occupied s i) \<and>
     (\<forall>i. placed s i \<and> depends_on (store s i) \<noteq> [] \<longrightarrow> dependency_released (store s i)) \<and>
     (\<forall>i. (i \<in> set (jobs s) \<or> placed s i) \<and> depends_on (store s i) \<noteq> [] \<and> dependency_released (store s i) \<longrightarrow>
        depends_on (store s i) \<notin> fresh_ids s \<and> status (store s (depends_on (store s i))) = COMPLETED)"

lemma wfD:
  assumes "wf s"
  shows "distinct (jobs s)" "inj (uuids s)" "[] \<notin> range (uuids s)"
    "i \<in> set (jobs s) \<Longrightarrow> i \<notin> fresh_ids s" "placed s i \<Longrightarrow> i \<notin> fresh_ids s"
    "placed s i \<Longrightarrow> depends_on (store s i) \<noteq> [] \<Longrightarrow> dependency_released (store s i)"
    "i \<in> set (jobs s) \<or> placed s i \<Longrightarrow> depends_on (store s i) \<noteq> [] \<Longrightarrow> dependency_released (store s i) \<Longrightarrow>
       depends_on (store s i) \<notin> fresh_ids s \<and> status (store s (depends_on (store s i))) = COMPLETED"
    "i \<in> set (jobs s) \<Longrightarrow> job_id (store s i) = i"
    "i \<in> set (jobs s) \<Longrightarrow> status (store s i) = RUNNING \<Longrightarrow> occupied s i"
    "i \<in> set (jobs s) \<Longrightarrow> depends_on (store s i) \<notin> fresh_ids s"
  using assms unfolding wf_def by blast+

lemma wf_shrink:
  assumes "wf s" "store s' = store s" "uuids s' = uuids s" "next_uuid s' = next_uuid s"
    "distinct (jobs s')" "set (jobs s') \<subseteq> set (jobs s)" "\<And>i. placed s' i \<Longrightarrow> placed s i"
    "\<And>i. status (store s i) = RUNNING \<Longrightarrow> occupied s i \<Longrightarrow> occupied s' i"
  shows "wf s'"
proof -
  have "fresh_ids s' = fresh_ids s" using assms by (simp add: fresh_ids_def)
  then show ?thesis using assms unfolding wf_def by (auto simp: subset_iff)
qed

lemma placed_cong:
  "(\<And>n. get_lane n s' = get_lane n s) \<Longrightarrow> remote_dispatch s' = remote_dispatch s \<Longrightarrow> placed s' i = placed s i"
  "(\<And>n. get_lane n s' = get_lane n s) \<Longrightarrow> remote_dispatch s' = remote_dispatch s \<Longrightarrow> occupied s' i = occupied s i"
  by (simp_all add: placed_def occupied_def)

lemma placed_eqI:
  assumes "compile_lane s' = compile_lane s" "upload_lane s' = upload_lane s"
    "thread_upload_lane s' = thread_upload_lane s" "remote_dispatch s' = remote_dispatch s"
  shows "placed s' i = placed s i" "occupied s' i = occupied s i"
proof -
  have "get_lane n s' = get_lane n s" for n using assms by (cases n) simp_all
  then show "placed s' i = placed s i" "occupied s' i = occupied s i"
    unfolding placed_def occupied_def assms(4) by (simp_all only:)
qed

lemma wf_upd_job:
  assumes "wf s" "\<And>j. depends_on (f j) = depends_on j" "\<And>j. dependency_released (f j) = dependency_released j"
    "\<And>j. job_id (f j) = job_id j"
    "status (store s jid) = COMPLETED \<Longrightarrow> status (f (store s jid)) = COMPLETED"
    "jid \<in> set (jobs s) \<Longrightarrow> status (f (store s jid)) = RUNNING \<Longrightarrow>
       status (store s jid) = RUNNING \<or> occupied s jid"
  shows "wf (upd_job jid f s)"
proof -
  have "fresh_ids (upd_job jid f s) = fresh_ids s" by (simp add: fresh_ids_def)
  moreover have "placed (upd_job jid f s) i = placed s i" "occupied (upd_job jid f s) i = occupied s i" for i
    by (simp_all add: placed_def occupied_def)
  moreover have "\<forall>i \<in> set (jobs s). status (store (upd_job jid f s) i) = RUNNING \<longrightarrow> occupied s i"
    using wfD(9) [OF assms(1)] assms(6) by auto
  ultimately show ?thesis using assms(1-5) unfolding wf_def by (simp (no_asm_simp)) metis
qed

lemma wf_place_on_lane:
  assumes "wf s" "i \<notin> fresh_ids s"
    "depends_on (store s i) \<noteq> [] \<Longrightarrow>
       depends_on (store s i) \<notin> fresh_ids s \<and> status (store s (depends_on (store s i))) = COMPLETED"
  shows "wf (place_on_lane i s)"
proof -
  have fr: "fresh_ids (place_on_lane i s) = fresh_ids s" by (simp add: fresh_ids_def)
  have st: "status (store (place_on_lane i s) k) = status (store s k)"
    "depends_on (store (place_on_lane i s) k) = depends_on (store s k)"
    "job_id (store (place_on_lane i s) k) = job_id (store s k)" for k
    by (simp_all add: place_on_lane_store)
  have rel: "dependency_released (store (place_on_lane i s) k) \<longleftrightarrow>
      dependency_released (store s k) \<or> (k = i \<and> depends_on (store s i) \<noteq> [])" for k
    by (auto simp: place_on_lane_store)
  show ?thesis
    using assms placed_place_on_lane [of i s] unfolding wf_def fr st rel by (simp add: place_on_lane_frame) blast
qed

text \<open>What the lifecycle's steps do to a well-formed state.\<close>

definition steps_ok :: "fw \<Rightarrow> fw \<Rightarrow> bool" where
  "steps_ok s s' \<longleftrightarrow>
     evolves s s' \<and> wf s' \<and> set (jobs s) \<subseteq> set (jobs s') \<and> (\<forall>i. held s' i \<longrightarrow> held s i)"

lemma steps_ok_refl: "wf s \<Longrightarrow> steps_ok s s"
  by (simp add: steps_ok_def)

lemma steps_ok_trans [trans]: "steps_ok s t \<Longrightarrow> steps_ok t u \<Longrightarrow> steps_ok s u"
  unfolding steps_ok_def using evolves_trans by blast

lemma steps_okD:
  assumes "steps_ok s s'"
  shows "evolves s s'" "wf s'" "i \<in> set (jobs s) \<Longrightarrow> i \<in> set (jobs s')" "held s' i \<Longrightarrow> held s i"
  using assms unfolding steps_ok_def by blast+

lemma steps_ok_same:
  assumes "wf s" "store s' = store s" "uuids s' = uuids s" "next_uuid s' = next_uuid s"
    "jobs s' = jobs s" "\<And>i. placed s' i \<Longrightarrow> placed s i"
    "\<And>i. status (store s i) = RUNNING \<Longrightarrow> occupied s i \<Longrightarrow> occupied s' i"
  shows "steps_ok s s'"
  using assms wf_shrink [OF assms(1,2,3,4)] wfD(1) [OF assms(1)]
  by (simp add: steps_ok_def evolves_same held_def)

lemma steps_ok_upd_job:
  assumes "wf s" "\<And>j. job_identity (f j) = job_identity j"
    "\<And>j. dependency_released (f j) = dependency_released j"
    "is_terminal (store s jid) \<Longrightarrow> status (f (store s jid)) = status (store s jid) \<and>
       is_deferred_install (f (store s jid)) = is_deferred_install (store s jid)"
    "status (f (store s jid)) = QUEUED \<Longrightarrow> status (store s jid) = QUEUED"
    "jid \<in> set (jobs s) \<Longrightarrow> status (f (store s jid)) = RUNNING \<Longrightarrow>
       status (store s jid) = RUNNING \<or> occupied s jid"
  shows "steps_ok s (upd_job jid f s)"
proof -
  have dep: "depends_on (f j) = depends_on j" "job_id (f j) = job_id j" for j
    using assms(2) [of j] by (simp_all add: job_identity_def)
  have "wf (upd_job jid f s)"
    by (rule wf_upd_job [OF assms(1) dep(1) assms(3) dep(2) _ assms(6)]) (use assms(4) in \<open>simp add: is_terminal_def\<close>)
  moreover have "evolves s (upd_job jid f s)" using assms by (intro evolves_upd_job) auto
  moreover have "held (upd_job jid f s) i \<Longrightarrow> held s i" for i
    using assms(5) by (auto simp: held_def dep split: if_splits)
  ultimately show ?thesis by (simp add: steps_ok_def)
qed

lemma steps_ok_place_on_lane:
  assumes "wf s" "i \<notin> fresh_ids s"
    "depends_on (store s i) \<noteq> [] \<Longrightarrow>
       depends_on (store s i) \<notin> fresh_ids s \<and> status (store s (depends_on (store s i))) = COMPLETED"
  shows "steps_ok s (place_on_lane i s)"
  using assms wf_place_on_lane [OF assms] by (auto simp: steps_ok_def held_def place_on_lane_store)

section \<open>The deferred flash and the listeners\<close>

lemma create_job_fresh:
  assumes "create_job conf ty kwargs b s = (jid, s')" "wf s"
  shows "jid \<in> fresh_ids s" "jid \<notin> fresh_ids s'" "jid \<notin> set (jobs s)" "\<not> placed s jid" "jid \<noteq> []"
    "set (jobs s') = insert jid (set (jobs s))" "distinct (jobs s')" "fresh_ids s' = fresh_ids s - {jid}"
    "\<And>i. placed s' i = placed s i" "\<And>i. i \<noteq> jid \<Longrightarrow> store s' i = store s i"
    "\<And>i. occupied s' i = occupied s i"
proof -
  note eq = create_job_eq [OF assms(1)]
  have inj: "inj (uuids s)" using wfD(2) [OF assms(2)] .
  show f: "jid \<in> fresh_ids s" using eq by (auto simp: fresh_ids_def)
  have u: "uuids s' = uuids s" "next_uuid s' = Suc (next_uuid s)" "jid = uuids s (next_uuid s)"
    using eq by simp_all
  have ins: "fresh_ids s = insert jid (fresh_ids s')"
    unfolding fresh_ids_def u by (auto simp: Suc_le_eq le_less)
  show nf: "jid \<notin> fresh_ids s'"
    unfolding fresh_ids_def u using injD [OF inj] by fastforce
  show "fresh_ids s' = fresh_ids s - {jid}" using ins nf by auto
  show "jid \<notin> set (jobs s)" "\<not> placed s jid" using f assms(2) wfD(4,5) by blast+
  show "jid \<noteq> []" using eq wfD(3) [OF assms(2)] by (metis rangeI)
  show "set (jobs s') = insert jid (set (jobs s))" "distinct (jobs s')"
    using eq wfD(1) [OF assms(2)] by auto
  have lanes: "compile_lane s' = compile_lane s" "upload_lane s' = upload_lane s"
    "thread_upload_lane s' = thread_upload_lane s" "remote_dispatch s' = remote_dispatch s"
    using eq by simp_all
  show "placed s' i = placed s i" "occupied s' i = occupied s i" for i
    using placed_eqI [OF lanes] by simp_all
  show "i \<noteq> jid \<Longrightarrow> store s' i = store s i" for i using eq by auto
qed

lemma steps_ok_create_job:
  assumes "create_job conf ty kwargs b s = (jid, s')" "wf s"
    "\<And>j. dependency_released (kwargs j) = dependency_released j"
    "\<And>j. job_id (kwargs j) = job_id j" "\<And>j. status (kwargs j) = status j"
    "\<And>j. depends_on j = [] \<Longrightarrow> depends_on (kwargs j) = [] \<or> depends_on (kwargs j) \<notin> fresh_ids s"
  shows "evolves s s'" "wf s'" "set (jobs s) \<subseteq> set (jobs s')"
    "\<And>i. held s' i \<Longrightarrow> held s i \<or> i = jid"
proof -
  note eq = create_job_eq [OF assms(1)] and fr = create_job_fresh [OF assms(1,2)]
  show "evolves s s'" using eq fr(1) by (auto simp: evolves_def)
  show "set (jobs s) \<subseteq> set (jobs s')" using fr(6) by blast
  show "held s' i \<Longrightarrow> held s i \<or> i = jid" for i using fr(6,10) by (auto simp: held_def)
  have new: "\<not> dependency_released (store s' jid)" "job_id (store s' jid) = jid"
      "status (store s' jid) = QUEUED"
    using eq assms(3-5) by (simp_all add: apply_build_source_def new_FirmwareJob_def)
  have "depends_on (store s' jid) = [] \<or> depends_on (store s' jid) \<notin> fresh_ids s"
    unfolding eq [THEN conjunct2] using eq assms(6)
    by (simp add: apply_build_source_def new_FirmwareJob_def)
  moreover have "[] \<notin> fresh_ids s" using wfD(3) [OF assms(2)] by (auto simp: fresh_ids_def)
  ultimately have new_dep: "depends_on (store s' jid) \<notin> fresh_ids s" by auto
  have old: "store s' i = store s i \<and> i \<notin> fresh_ids s" if "i \<in> set (jobs s) \<or> placed s i" for i
    using that wfD(4,5) [OF assms(2)] fr(1,10) by metis
  have dep: "store s' d = store s d" if "d \<notin> fresh_ids s" for d using that fr(1,10) by metis
  show "wf s'"
    unfolding wf_def fr(6,8,9)
  proof (intro conjI allI impI)
    show "distinct (jobs s')" by (rule fr(7))
    show "inj (uuids s')" "[] \<notin> range (uuids s')" using eq wfD(2,3) [OF assms(2)] by auto
    show "\<forall>i \<in> insert jid (set (jobs s)). job_id (store s' i) = i"
      "\<forall>i \<in> insert jid (set (jobs s)). status (store s' i) = RUNNING \<longrightarrow> occupied s' i"
      "\<forall>i \<in> insert jid (set (jobs s)). depends_on (store s' i) \<notin> fresh_ids s - {jid}"
      using new(2,3) new_dep old wfD(8,9,10) [OF assms(2)] fr(11) by auto
  next
    fix i assume "i \<in> insert jid (set (jobs s)) \<or> placed s i"
    then show "i \<notin> fresh_ids s - {jid}" using wfD(4,5) [OF assms(2)] by blast
  next
    fix i assume "placed s i \<and> depends_on (store s' i) \<noteq> []"
    then show "dependency_released (store s' i)" using old [of i] wfD(6) [OF assms(2), of i] by simp
  next
    fix i assume a: "(i \<in> insert jid (set (jobs s)) \<or> placed s i) \<and> depends_on (store s' i) \<noteq> [] \<and>
        dependency_released (store s' i)"
    then have "i \<in> set (jobs s) \<or> placed s i" using new(1) by auto
    then have "depends_on (store s i) \<notin> fresh_ids s \<and> status (store s (depends_on (store s i))) = COMPLETED"
      using a old [of i] wfD(7) [OF assms(2), of i] by simp
    then show "depends_on (store s' i) \<notin> fresh_ids s - {jid}"
      "status (store s' (depends_on (store s' i))) = COMPLETED"
      using old [of i] dep \<open>i \<in> set (jobs s) \<or> placed s i\<close> by auto
  qed
qed

text \<open>A listener leaves every existing job object untouched.\<close>

definition quiet :: "fw \<Rightarrow> fw \<Rightarrow> bool" where
  "quiet s s' \<longleftrightarrow> steps_ok s s' \<and> (\<forall>i. i \<notin> fresh_ids s \<longrightarrow> store s' i = store s i)"

lemma quiet_refl: "wf s \<Longrightarrow> quiet s s"
  by (simp add: quiet_def steps_ok_refl)

lemma quiet_trans [trans]: "quiet s t \<Longrightarrow> quiet t u \<Longrightarrow> quiet s u"
  unfolding quiet_def using steps_ok_trans evolvesD(8) steps_okD(1) by metis

lemma quiet_same:
  assumes "wf s" "store s' = store s" "uuids s' = uuids s" "next_uuid s' = next_uuid s"
    "jobs s' = jobs s" "\<And>i. placed s' i \<Longrightarrow> placed s i"
    "\<And>i. status (store s i) = RUNNING \<Longrightarrow> occupied s i \<Longrightarrow> occupied s' i"
  shows "quiet s s'"
  using assms steps_ok_same [OF assms] by (simp add: quiet_def)

lemma quiet_fire_event: "wf s \<Longrightarrow> quiet s (fire_event e s)"
  by (rule quiet_same) (simp_all add: placed_def occupied_def)

lemma quiet_set_queued_update: "wf s \<Longrightarrow> quiet s (set_queued_update q conf s)"
  by (rule quiet_same) (simp_all add: placed_def occupied_def)

lemma quiet_arm: "wf s \<Longrightarrow> quiet s (arm_queued_update_if_flagged jid s)"
  by (simp add: arm_queued_update_if_flagged_def quiet_set_queued_update quiet_refl)

lemma quiet_place_and_announce:
  assumes "create_job conf ty kwargs b s = (jid, t)" "wf s" "wf t"
    "\<And>j. depends_on (kwargs j) = depends_on j"
  shows "wf (place_and_announce jid t)" "evolves t (place_and_announce jid t)"
    "jobs (place_and_announce jid t) = jobs t"
    "i \<noteq> jid \<Longrightarrow> store (place_and_announce jid t) i = store t i"
proof -
  note eq = create_job_eq [OF assms(1)] and fr = create_job_fresh [OF assms(1,2)]
  have nodep: "depends_on (store t jid) = []"
    using eq assms(4) by (simp add: apply_build_source_def new_FirmwareJob_def)
  have "steps_ok t (place_on_lane jid t)"
    using assms(3) fr(2) nodep by (intro steps_ok_place_on_lane) auto
  then have "quiet (place_on_lane jid t) (place_and_announce jid t)"
    using nodep quiet_fire_event [OF steps_okD(2)]
    by (simp add: place_and_announce_def Let_def dependency_satisfied_def)
  then show "wf (place_and_announce jid t)" "evolves t (place_and_announce jid t)"
    using \<open>steps_ok t (place_on_lane jid t)\<close> unfolding quiet_def
    by (blast dest: steps_okD(2), blast intro: steps_okD(1) steps_ok_trans)
  show "jobs (place_and_announce jid t) = jobs t"
    "i \<noteq> jid \<Longrightarrow> store (place_and_announce jid t) i = store t i"
    by (simp_all add: place_and_announce_def Let_def place_on_lane_store)
qed

lemma evolves_from_create:
  assumes "create_job conf ty kwargs b s = (jid, t)" "wf s" "evolves s t" "uuids u = uuids t"
    "next_uuid u = next_uuid t" "\<And>i. i \<noteq> jid \<Longrightarrow> store u i = store t i"
  shows "evolves s u"
  using assms create_job_fresh(1) [OF assms(1,2)] unfolding evolves_def by metis

lemma quiet_dispatch_queued_upload:
  assumes "wf s"
  shows "quiet s (dispatch_queued_upload conf s)"
proof -
  obtain jid t where c: "create_job conf UPLOAD (\<lambda>j. j\<lparr>port := OTA_PORT\<rparr>) LOCAL_JOB_BUILD_SOURCE s = (jid, t)"
    by fastforce
  note fr = create_job_fresh [OF c assms]
  have t: "evolves s t" "wf t" "set (jobs s) \<subseteq> set (jobs t)" "\<And>i. held t i \<Longrightarrow> held s i \<or> i = jid"
    using steps_ok_create_job [OF c assms] by auto
  have nodep: "depends_on (store t jid) = []"
    using create_job_eq [OF c] by (simp add: apply_build_source_def new_FirmwareJob_def)
  show ?thesis
  proof (cases "check_rename_lock jid {} t")
    case (Inl e)
    define u where "u = t\<lparr>jobs := keys_pop jid (jobs t)\<rparr>"
    have u: "dispatch_queued_upload conf s = u" using c Inl by (simp add: dispatch_queued_upload_def u_def)
    have "wf u"
    proof (rule wf_shrink [OF t(2)])
      show "placed u i \<Longrightarrow> placed t i" "occupied t i \<Longrightarrow> occupied u i" for i
        using placed_eqI [of u t] by (simp_all add: u_def)
    qed (use fr(7) in \<open>auto simp: u_def\<close>)
    moreover have "evolves s u" by (rule evolves_from_create [OF c assms t(1)]) (simp_all add: u_def)
    moreover have "held u i \<Longrightarrow> held s i" for i
      using t(4) [of i] nodep by (auto simp: held_def u_def)
    moreover have "set (jobs s) \<subseteq> set (jobs u)" using t(3) fr(3) by (auto simp: u_def)
    ultimately show ?thesis
      unfolding u quiet_def steps_ok_def using fr(1,10) by (auto simp: u_def) metis
  next
    case (Inr x)
    define p where "p = place_and_announce jid t"
    define u where "u = p\<lparr>tasks := tasks p @ [FinishEnqueue jid conf]\<rparr>"
    have u: "dispatch_queued_upload conf s = u"
      using c Inr by (simp add: dispatch_queued_upload_def u_def p_def Let_def)
    have p: "wf p" "evolves t p" "jobs p = jobs t" "\<And>i. i \<noteq> jid \<Longrightarrow> store p i = store t i"
      using quiet_place_and_announce [OF c assms t(2)] by (simp_all add: p_def)
    have "placed u i = placed p i" "occupied u i = occupied p i" for i
      unfolding u_def by (rule placed_eqI; simp)+
    then have "quiet p u" using p(1) by (intro quiet_same) (simp_all add: u_def)
    then have uo: "wf u" "evolves s u"
      using t(1) p(2) unfolding quiet_def by (blast dest: steps_okD(2), blast intro: evolves_trans steps_okD(1))
    have dep: "depends_on (store u jid) = []"
      using nodep evolvesD(1) [OF p(2) fr(2)] by (simp add: u_def)
    have "held u i \<Longrightarrow> held s i" for i
      using t(4) [of i] dep p(3,4) by (cases "i = jid") (auto simp: held_def u_def)
    moreover have "set (jobs s) \<subseteq> set (jobs u)" using t(3) p(3) by (simp add: u_def)
    ultimately show ?thesis
      unfolding u quiet_def steps_ok_def using uo fr(1,10) p(4) by (auto simp: u_def) metis
  qed
qed

lemma quiet_wf: "quiet s t \<Longrightarrow> wf t"
  by (auto simp: quiet_def dest: steps_okD(2))

lemma quiet_handle_job_completed: "wf s \<Longrightarrow> quiet s (handle_job_completed jid s)"
proof -
  assume s: "wf s"
  define t where "t = arm_queued_update_if_flagged jid s"
  define u where "u = handle_deferred_compile_completion jid t"
  have t: "quiet s t" unfolding t_def by (rule quiet_arm [OF s])
  have u: "quiet t u"
    unfolding u_def using quiet_wf [OF t]
    by (auto simp: handle_deferred_compile_completion_def quiet_dispatch_queued_upload quiet_refl
        split: option.splits)
  have "quiet u (handle_ota_upload_completion jid u)"
    using quiet_wf [OF u]
    by (auto simp: handle_ota_upload_completion_def quiet_set_queued_update quiet_refl split: option.splits)
  with t u show ?thesis unfolding handle_job_completed_def t_def u_def by (blast intro: quiet_trans)
qed

lemma quiet_fire_job_lifecycle: "wf s \<Longrightarrow> quiet s (fire_job_lifecycle et jid s)"
proof -
  assume "wf s"
  then have e: "quiet s (fire_event e s)" for e by (rule quiet_fire_event)
  show ?thesis
    unfolding fire_job_lifecycle_def handle_job_failed_def Let_def
    using e quiet_trans [OF e quiet_handle_job_completed [OF quiet_wf [OF e]]]
      quiet_trans [OF e quiet_arm [OF quiet_wf [OF e]]] by simp
qed

lemma quiet_release_lane_slot:
  assumes "wf s" "status (store s jid) \<noteq> RUNNING"
  shows "quiet s (release_lane_slot jid s)"
proof -
  have "lane_queue (get_lane n (release_lane_slot jid s)) = lane_queue (get_lane n s) \<and>
      active (get_lane n (release_lane_slot jid s)) = keys_pop jid (active (get_lane n s))" for n
    by (cases n) (simp_all add: release_lane_slot_def lane_names_def lane_release_def)
  moreover have "remote_dispatch (release_lane_slot jid s) = remote_dispatch s"
    by (simp add: release_lane_slot_def lane_names_def)
  ultimately have "placed (release_lane_slot jid s) i \<Longrightarrow> placed s i"
      "i \<noteq> jid \<Longrightarrow> occupied (release_lane_slot jid s) i = occupied s i" for i
    by (auto simp: placed_def occupied_def)
  moreover have "status (store s i) = RUNNING \<Longrightarrow> i \<noteq> jid" for i using assms(2) by auto
  ultimately show ?thesis
    using assms(1) by (intro quiet_same) (simp_all add: release_lane_slot_def lane_names_def)
qed

lemma quiet_on_job_terminal: "wf s \<Longrightarrow> quiet s ((on_job_terminal jid s)\<lparr>build_gate := True\<rparr>)"
proof -
  have "placed ((on_job_terminal jid s)\<lparr>build_gate := True\<rparr>) i = placed s i"
      "occupied ((on_job_terminal jid s)\<lparr>build_gate := True\<rparr>) i = occupied s i" for i
    by (rule placed_eqI; simp add: on_job_terminal_def revert_rename_def)+
  then show "wf s \<Longrightarrow> quiet s ((on_job_terminal jid s)\<lparr>build_gate := True\<rparr>)"
    by (intro quiet_same) (simp_all add: on_job_terminal_def revert_rename_def)
qed

lemma upd_job_upd_job: "upd_job jid g (upd_job jid f s) = upd_job jid (\<lambda>j. g (f j)) s"
  by (simp add: upd_job_def)

lemma upd_job_cong: "f (store s jid) = g (store s jid) \<Longrightarrow> upd_job jid f s = upd_job jid g s"
  by (simp add: upd_job_def)

lemma defer_eq:
  "\<exists>b. defer_install_if_target_offline jid s = upd_job jid (\<lambda>j. j\<lparr>is_deferred_install := b\<rparr>) s"
proof -
  have "upd_job jid (\<lambda>j. j\<lparr>is_deferred_install := is_deferred_install (store s jid)\<rparr>) s = s"
    by (simp add: upd_job_def)
  then have "\<exists>b. s = upd_job jid (\<lambda>j. j\<lparr>is_deferred_install := b\<rparr>) s" by metis
  then show ?thesis unfolding defer_install_if_target_offline_def Let_def by auto
qed

text \<open>The first half of a finalisation: the stamp and the deferral.\<close>

lemma steps_ok_stamp:
  assumes "wf s" "\<not> is_terminal (store s jid)" "st \<in> TERMINAL_JOB_STATUSES"
    "now_iso s = (now, s0)" "mark_terminal now st err (store s0 jid) = Inr j"
  shows "steps_ok s (defer_install_if_target_offline jid (upd_job jid (\<lambda>_. j) s0))"
    "status (store (defer_install_if_target_offline jid (upd_job jid (\<lambda>_. j) s0)) jid) = st"
proof -
  obtain b where b: "defer_install_if_target_offline jid (upd_job jid (\<lambda>_. j) s0) =
      upd_job jid (\<lambda>j. j\<lparr>is_deferred_install := b\<rparr>) (upd_job jid (\<lambda>_. j) s0)"
    using defer_eq by blast
  have s0: "s0 = s\<lparr>ticks := Suc (ticks s)\<rparr>" using assms(4) by (auto simp: now_iso_def)
  let ?f = "\<lambda>j. j\<lparr>error := (case err of None \<Rightarrow> error j | Some e \<Rightarrow> Some e), status := st,
      completed_at := Some now, is_deferred_install := b\<rparr>"
  have "j = (store s0 jid)\<lparr>error := (case err of None \<Rightarrow> error (store s0 jid) | Some e \<Rightarrow> Some e),
      status := st, completed_at := Some now\<rparr>"
    using assms(3,5) by (auto simp: mark_terminal_spec split: if_splits)
  then have eq: "defer_install_if_target_offline jid (upd_job jid (\<lambda>_. j) s0) = upd_job jid ?f s0"
    unfolding b upd_job_upd_job by (intro upd_job_cong) simp
  have s0_ok: "steps_ok s s0"
    by (rule steps_ok_same [OF assms(1)]) (simp_all add: s0 placed_eqI [of "s\<lparr>ticks := Suc (ticks s)\<rparr>" s])
  then have "steps_ok s0 (upd_job jid ?f s0)"
    using assms(2,3) by (intro steps_ok_upd_job steps_okD(2)) (auto simp: job_identity_def s0)
  then show "steps_ok s (defer_install_if_target_offline jid (upd_job jid (\<lambda>_. j) s0))"
    unfolding eq using steps_ok_trans [OF s0_ok] by blast
  show "status (store (defer_install_if_target_offline jid (upd_job jid (\<lambda>_. j) s0)) jid) = st"
    unfolding eq by simp
qed

section \<open>Finalising, with its cascade\<close>

lemma finite_held: "finite {i. held s i}"
  by (rule finite_subset [of _ "set (jobs s)"]) (auto simp: held_def)

lemma held_count_card: "distinct (jobs s) \<Longrightarrow> held_count s = card {i. held s i}"
proof -
  assume d: "distinct (jobs s)"
  have "{i. held s i} = set (filter (held s) (jobs s))" by (auto simp: held_def)
  then have "card {i. held s i} = card (set (filter (held s) (jobs s)))" by (rule arg_cong)
  also have "\<dots> = held_count s" unfolding held_count_def using d by (intro distinct_card) simp
  finally show ?thesis by simp
qed

text \<open>A held job whose prerequisite is no longer active and that was not released waits forever.\<close>

definition orphan :: "fw \<Rightarrow> string \<Rightarrow> bool" where
  "orphan s i \<longleftrightarrow>
     held s i \<and> \<not> dependency_released (store s i) \<and>
     \<not> (depends_on (store s i) \<in> set (jobs s) \<and> is_active (store s (depends_on (store s i))))"

lemma quiet_orphan:
  assumes "wf s" "quiet s s'" "orphan s' i"
  shows "orphan s i"
proof -
  have i: "held s i" using assms(2,3) by (auto simp: orphan_def quiet_def dest: steps_okD(4))
  then have "i \<notin> fresh_ids s" using wfD(4) [OF assms(1)] by (auto simp: held_def)
  then have "store s' i = store s i" using assms(2) by (simp add: quiet_def)
  moreover have "k \<in> set (jobs s) \<Longrightarrow> k \<in> set (jobs s') \<and> store s' k = store s k" for k
    using assms(2) wfD(4) [OF assms(1), of k] by (auto simp: quiet_def dest: steps_okD(3))
  ultimately show ?thesis using i assms(3) by (auto simp: orphan_def)
qed

lemma orphan_place_on_lane:
  assumes "orphan (place_on_lane d s) i"
  shows "orphan s i \<and> i \<noteq> d"
  using assms by (auto simp: orphan_def held_def place_on_lane_store is_active_def split: if_splits)

text \<open>What a finalisation with enough fuel achieves.\<close>

definition kept_or_cancelled :: "fw \<Rightarrow> fw \<Rightarrow> string \<Rightarrow> bool" where
  "kept_or_cancelled s s' i \<longleftrightarrow>
     status (store s' i) = status (store s i) \<or> status (store s' i) = CANCELLED"

definition finalizes :: "nat \<Rightarrow> bool" where
  "finalizes n \<longleftrightarrow>
     (\<forall>s jid st err. wf s \<and> jid \<notin> fresh_ids s \<and> \<not> is_terminal (store s jid) \<and> st \<in> TERMINAL_JOB_STATUSES \<and>
        card ({i. held s i} - {jid}) < n \<longrightarrow>
        (\<exists>s'. finalize_fuel n jid st err s = (Inr (), s') \<and> steps_ok s s' \<and> status (store s' jid) = st \<and>
          (\<forall>i. orphan s' i \<longrightarrow> orphan s i \<and> i \<notin> set (dependents s jid)) \<and>
          (\<forall>i. i \<notin> fresh_ids s \<and> i \<noteq> jid \<longrightarrow> kept_or_cancelled s s' i) \<and>
          (st \<noteq> COMPLETED \<longrightarrow> (\<forall>d \<in> set (dependents s jid). status (store s d) = QUEUED \<longrightarrow>
              d \<noteq> jid \<longrightarrow> status (store s' d) = CANCELLED))))"

lemma finalizesD:
  assumes "finalizes n" "wf s" "jid \<notin> fresh_ids s" "\<not> is_terminal (store s jid)" "st \<in> TERMINAL_JOB_STATUSES"
    "card ({i. held s i} - {jid}) < n"
  obtains s' where "finalize_fuel n jid st err s = (Inr (), s')" "steps_ok s s'" "status (store s' jid) = st"
    "\<And>i. i \<notin> fresh_ids s \<Longrightarrow> i \<noteq> jid \<Longrightarrow> kept_or_cancelled s s' i"
    "\<And>i. orphan s' i \<Longrightarrow> orphan s i \<and> i \<notin> set (dependents s jid)"
    "st \<noteq> COMPLETED \<Longrightarrow> \<forall>d \<in> set (dependents s jid). status (store s d) = QUEUED \<longrightarrow>
        d \<noteq> jid \<longrightarrow> status (store s' d) = CANCELLED"
proof -
  have "\<exists>s'. finalize_fuel n jid st err s = (Inr (), s') \<and> steps_ok s s' \<and> status (store s' jid) = st \<and>
          (\<forall>i. orphan s' i \<longrightarrow> orphan s i \<and> i \<notin> set (dependents s jid)) \<and>
          (\<forall>i. orphan s' i \<longrightarrow> orphan s i \<and> i \<notin> set (dependents s jid)) \<and>
          (\<forall>i. i \<notin> fresh_ids s \<and> i \<noteq> jid \<longrightarrow> kept_or_cancelled s s' i) \<and>
          (st \<noteq> COMPLETED \<longrightarrow> (\<forall>d \<in> set (dependents s jid). status (store s d) = QUEUED \<longrightarrow>
              d \<noteq> jid \<longrightarrow> status (store s' d) = CANCELLED))"
    using assms unfolding finalizes_def by simp
  then show thesis using that by metis
qed

lemma release_loop:
  assumes "finalizes m"
  shows "wf t \<Longrightarrow> jid \<notin> fresh_ids t \<Longrightarrow> is_terminal (store t jid) \<Longrightarrow>
     (\<forall>d \<in> set ds. d \<in> set (jobs t) \<and> depends_on (store t d) = jid \<and> jid \<noteq> []) \<Longrightarrow>
     card {i. held t i} \<le> m \<Longrightarrow>
     \<exists>t'. for_each (release_one (finalize_fuel m) jid) ds t = (Inr (), t') \<and> steps_ok t t' \<and>
       (\<forall>i. orphan t' i \<longrightarrow> orphan t i \<and> i \<notin> set ds) \<and>
       (\<forall>i. i \<notin> fresh_ids t \<longrightarrow> kept_or_cancelled t t' i) \<and>
       (status (store t jid) \<noteq> COMPLETED \<or> is_deferred_install (store t jid) \<longrightarrow>
         (\<forall>d \<in> set ds. status (store t d) = QUEUED \<longrightarrow> status (store t' d) = CANCELLED))"
proof (induction ds arbitrary: t)
  case Nil
  then show ?case by (auto intro: steps_ok_refl simp: kept_or_cancelled_def)
next
  case (Cons d ds)
  have d: "d \<in> set (jobs t)" "depends_on (store t d) = jid" "jid \<noteq> []" "d \<notin> fresh_ids t"
    using Cons.prems wfD(4) [OF Cons.prems(1)] by auto
  let ?cancel = "status (store t jid) \<noteq> COMPLETED \<or> is_deferred_install (store t jid)"
  have "\<exists>t1. release_one (finalize_fuel m) jid d t = (Inr (), t1) \<and> steps_ok t t1 \<and>
      (\<forall>i. orphan t1 i \<longrightarrow> orphan t i \<and> i \<noteq> d) \<and>
      (\<forall>i. i \<notin> fresh_ids t \<longrightarrow> kept_or_cancelled t t1 i) \<and>
      (?cancel \<and> status (store t d) = QUEUED \<longrightarrow> status (store t1 d) = CANCELLED)"
  proof (cases "status (store t d) = QUEUED")
    case False
    then show ?thesis using Cons.prems(1) by (auto simp: release_one_def kept_or_cancelled_def orphan_def held_def intro: steps_ok_refl)
  next
    case True
    have h: "held t d" using d True by (simp add: held_def)
    then have "card ({i. held t i} - {d}) < m"
      using Cons.prems(5) card_Diff1_less [OF finite_held, of d t] by simp
    moreover have "\<not> is_terminal (store t d)" using True by (simp add: is_terminal_def)
    ultimately have fin: "\<exists>t1. finalize_fuel m d CANCELLED err t = (Inr (), t1) \<and> steps_ok t t1 \<and>
        status (store t1 d) = CANCELLED \<and> (\<forall>i. orphan t1 i \<longrightarrow> orphan t i) \<and> (\<forall>i. i \<notin> fresh_ids t \<longrightarrow> kept_or_cancelled t t1 i)" for err
      using finalizesD [OF assms Cons.prems(1) d(4), of CANCELLED err]
      by (metis JobStatus.distinct(7,13) terminal_iff kept_or_cancelled_def)
    show ?thesis
    proof (cases ?cancel)
      case c: True
      then show ?thesis
        using fin [of "Some PREREQUISITE_FAILED_ERROR"] fin [of "Some TARGET_OFFLINE_DEFERRED_ERROR"] True
        by (fastforce simp: release_one_def orphan_def held_def)
    next
      case False
      then have "steps_ok t (place_on_lane d t)"
        using Cons.prems(1,2) d by (intro steps_ok_place_on_lane) auto
      then show ?thesis
        using False True orphan_place_on_lane
        by (auto simp: release_one_def kept_or_cancelled_def place_on_lane_store)
    qed
  qed
  then obtain t1 where t1: "release_one (finalize_fuel m) jid d t = (Inr (), t1)" "steps_ok t t1"
      "\<forall>i. i \<notin> fresh_ids t \<longrightarrow> kept_or_cancelled t t1 i" "\<forall>i. orphan t1 i \<longrightarrow> orphan t i \<and> i \<noteq> d"
      "?cancel \<and> status (store t d) = QUEUED \<longrightarrow> status (store t1 d) = CANCELLED" by blast
  note ev = steps_okD(1) [OF t1(2)]
  have jid: "status (store t1 jid) = status (store t jid)"
    "is_deferred_install (store t1 jid) = is_deferred_install (store t jid)" "jid \<notin> fresh_ids t1"
    using evolvesD [OF ev Cons.prems(2)] Cons.prems(3) by simp_all
  have "card {i. held t1 i} \<le> m"
    using steps_okD(4) [OF t1(2)] card_mono [OF finite_held [of t], of "{i. held t1 i}"] Cons.prems(5)
    by (auto intro: order_trans)
  moreover have "\<forall>d \<in> set ds. d \<in> set (jobs t1) \<and> depends_on (store t1 d) = jid \<and> jid \<noteq> []"
    using Cons.prems(1,4) steps_okD(3) [OF t1(2)] evolvesD(1) [OF ev] wfD(4) by auto
  moreover have "is_terminal (store t1 jid)" using Cons.prems(3) jid(1) by (simp add: is_terminal_def)
  ultimately obtain t' where t': "for_each (release_one (finalize_fuel m) jid) ds t1 = (Inr (), t')"
      "steps_ok t1 t'" "\<forall>i. i \<notin> fresh_ids t1 \<longrightarrow> kept_or_cancelled t1 t' i"
      "\<forall>i. orphan t' i \<longrightarrow> orphan t1 i \<and> i \<notin> set ds" "?cancel \<longrightarrow> (\<forall>d \<in> set ds. status (store t1 d) = QUEUED \<longrightarrow> status (store t' d) = CANCELLED)"
    using Cons.IH [OF steps_okD(2) [OF t1(2)] jid(3)] jid(1,2) by auto
  have "status (store t' x) = CANCELLED"
    if x: "x \<in> set (d # ds)" "status (store t x) = QUEUED" and c: ?cancel for x
  proof -
    have xf: "x \<notin> fresh_ids t" using x(1) Cons.prems(1,4) wfD(4) by auto
    have fin: "status (store t1 x) = CANCELLED \<Longrightarrow> status (store t' x) = CANCELLED"
      using evolvesD(5) [OF steps_okD(1) [OF t'(2)] evolvesD(8) [OF ev xf]] by (simp add: is_terminal_def)
    show ?thesis
    proof (cases "x = d")
      case True
      then show ?thesis using fin t1(5) x c by blast
    next
      case False
      then have "x \<in> set ds" using x by simp
      then show ?thesis using fin t1(3) xf x(2) c t'(5) by (auto simp: kept_or_cancelled_def)
    qed
  qed
  moreover have "kept_or_cancelled t t' i" if "i \<notin> fresh_ids t" for i
    using that t1(3) [rule_format, of i] t'(3) [rule_format, of i] evolvesD(8) [OF ev that]
    unfolding kept_or_cancelled_def by metis
  ultimately show ?case using t1(1,4) t'(1,4) steps_ok_trans [OF t1(2) t'(2)] by auto
qed

lemma finalizes: "finalizes n"
proof (induction n)
  case 0
  then show ?case by (simp add: finalizes_def)
next
  case (Suc m)
  show ?case
    unfolding finalizes_def
  proof (intro allI impI, elim conjE)
    fix s jid st err
    assume s: "wf s" "jid \<notin> fresh_ids s" "\<not> is_terminal (store s jid)" "st \<in> TERMINAL_JOB_STATUSES"
      "card ({i. held s i} - {jid}) < Suc m"
    obtain now s0 where now: "now_iso s = (now, s0)" by fastforce
    obtain j where j: "mark_terminal now st err (store s0 jid) = Inr j"
      using mark_terminal_ok [OF s(4)] by blast
    define s2 where "s2 = defer_install_if_target_offline jid (upd_job jid (\<lambda>_. j) s0)"
    define s3 where "s3 = release_lane_slot jid s2"
    define s4 where "s4 = fire_job_lifecycle (STATUS_TO_TERMINAL_EVENT st) jid s3"
    have s2: "steps_ok s s2" "status (store s2 jid) = st"
      unfolding s2_def by (rule steps_ok_stamp [OF s(1,3,4) now j])+
    have s3: "quiet s2 s3"
      unfolding s3_def using s2(2) s(4) by (intro quiet_release_lane_slot [OF steps_okD(2) [OF s2(1)]]) auto
    have s4: "quiet s3 s4" unfolding s4_def by (rule quiet_fire_job_lifecycle [OF quiet_wf [OF s3]])
    have q: "quiet s2 s4" by (rule quiet_trans [OF s3 s4])
    then have ok4: "steps_ok s s4" using steps_ok_trans [OF s2(1)] by (simp add: quiet_def)
    have jf2: "jid \<notin> fresh_ids s2" using evolvesD(8) [OF steps_okD(1) [OF s2(1)] s(2)] .
    have st4: "status (store s4 jid) = st" using q jf2 s2(2) by (simp add: quiet_def)
    have jf4: "jid \<notin> fresh_ids s4" using evolvesD(8) [OF steps_okD(1) [OF ok4] s(2)] .
    have "{i. held s4 i} \<subseteq> {i. held s i} - {jid}"
      using steps_okD(4) [OF ok4] st4 s(4) by (auto simp: held_def)
    then have "card {i. held s4 i} \<le> m"
      using s(5) card_mono [of "{i. held s i} - {jid}" "{i. held s4 i}"] finite_held [of s]
      by (simp add: le_simps(2))
    moreover have "is_terminal (store s4 jid)" using st4 s(4) by (simp add: is_terminal_def)
    moreover have "\<forall>d \<in> set (dependents s4 jid). d \<in> set (jobs s4) \<and> depends_on (store s4 d) = jid \<and> jid \<noteq> []"
      by (auto simp: dependents_def)
    ultimately obtain s5 where s5: "release_dependents_with (finalize_fuel m) jid s4 = (Inr (), s5)"
      "steps_ok s4 s5" "\<forall>i. orphan s5 i \<longrightarrow> orphan s4 i \<and> i \<notin> set (dependents s4 jid)" "\<forall>i. i \<notin> fresh_ids s4 \<longrightarrow> kept_or_cancelled s4 s5 i"
      "st \<noteq> COMPLETED \<longrightarrow> (\<forall>d \<in> set (dependents s4 jid). status (store s4 d) = QUEUED \<longrightarrow>
          status (store s5 d) = CANCELLED)"
      using release_loop [OF Suc.IH steps_okD(2) [OF ok4] jf4, of "dependents s4 jid"] st4
      unfolding release_dependents_with_def by auto
    define s6 where "s6 = (on_job_terminal jid s5)\<lparr>build_gate := True\<rparr>"
    have s6: "quiet s5 s6" unfolding s6_def by (rule quiet_on_job_terminal [OF steps_okD(2) [OF s5(2)]])
    have res: "finalize_fuel (Suc m) jid st err s = (Inr (), s6)"
      using now j s5(1) by (simp add: Let_def s6_def s4_def s3_def s2_def)
    have ok5: "steps_ok s s5" by (rule steps_ok_trans [OF ok4 s5(2)])
    have ok6: "steps_ok s s6" using steps_ok_trans [OF ok5] s6 by (simp add: quiet_def)
    have same6: "store s6 i = store s5 i" if "i \<notin> fresh_ids s" for i
      using s6 evolvesD(8) [OF steps_okD(1) [OF ok5] that] by (simp add: quiet_def)
    have old_store: "store s4 i = store s i" if "i \<notin> fresh_ids s" "i \<noteq> jid" for i
    proof -
      have "store s2 i = store s i"
        unfolding s2_def using defer_eq [of jid "upd_job jid (\<lambda>_. j) s0"] now that(2)
        by (auto simp: now_iso_def)
      then show ?thesis using q evolvesD(8) [OF steps_okD(1) [OF s2(1)] that(1)] by (simp add: quiet_def)
    qed
    have old: "status (store s4 i) = status (store s i)" if "i \<notin> fresh_ids s" "i \<noteq> jid" for i
      using old_store [OF that] by simp
    have kc: "kept_or_cancelled s s6 i" if "i \<notin> fresh_ids s" "i \<noteq> jid" for i
      using s5(4) evolvesD(8) [OF steps_okD(1) [OF ok4] that(1)] old [OF that] same6 [OF that(1)]
      by (auto simp: kept_or_cancelled_def)
    have fin_jid: "status (store s6 jid) = st"
      using evolvesD(5) [OF steps_okD(1) [OF s5(2)] jf4] st4 s(4) same6 [OF s(2)] by (simp add: is_terminal_def)
    have casc: "status (store s6 d) = CANCELLED"
      if d: "st \<noteq> COMPLETED" "d \<in> set (dependents s jid)" "status (store s d) = QUEUED" "d \<noteq> jid" for d
    proof -
      have dj: "d \<in> set (jobs s)" "depends_on (store s d) = jid" "jid \<noteq> []"
        using d(2) by (auto simp: dependents_def split: if_splits)
      then have df: "d \<notin> fresh_ids s" using wfD(4) [OF s(1)] by blast
      have "d \<in> set (dependents s4 jid)" "status (store s4 d) = QUEUED"
        using dj steps_okD(3) [OF ok4] evolvesD(1) [OF steps_okD(1) [OF ok4] df] old [OF df d(4)] d(3)
        by (simp_all add: dependents_def)
      then show ?thesis using s5(5) d(1) same6 [OF df] by simp
    qed
    have orph: "orphan s i \<and> i \<notin> set (dependents s jid)" if "orphan s6 i" for i
    proof -
      have "orphan s4 i" "i \<notin> set (dependents s4 jid)"
        using quiet_orphan [OF steps_okD(2) [OF s5(2)] s6 that] s5(3) by blast+
      then have o2: "orphan s2 i" using quiet_orphan [OF steps_okD(2) [OF s2(1)] q] by blast
      then have hi: "held s i" using steps_okD(4) [OF s2(1)] by (simp add: orphan_def)
      then have fi: "i \<notin> fresh_ids s" using wfD(4) [OF s(1)] by (simp add: held_def)
      have ij: "i \<noteq> jid" using o2 s2(2) s(4) by (auto simp: orphan_def held_def)
      have si: "store s4 i = store s i" using old_store [OF fi ij] .
      have "depends_on (store s i) \<noteq> jid"
        using \<open>i \<notin> set (dependents s4 jid)\<close> hi si steps_okD(3) [OF ok4]
        by (auto simp: dependents_def held_def split: if_splits)
      then have "k = depends_on (store s i) \<Longrightarrow> k \<in> set (jobs s) \<Longrightarrow>
          k \<in> set (jobs s4) \<and> store s4 k = store s k" for k
        using old_store [of k] wfD(4) [OF s(1), of k] steps_okD(3) [OF ok4] by blast
      then show ?thesis
        using \<open>orphan s4 i\<close> hi si \<open>depends_on (store s i) \<noteq> jid\<close>
        by (auto simp: orphan_def dependents_def)
    qed
    show "\<exists>s'. finalize_fuel (Suc m) jid st err s = (Inr (), s') \<and> steps_ok s s' \<and> status (store s' jid) = st \<and>
          (\<forall>i. orphan s' i \<longrightarrow> orphan s i \<and> i \<notin> set (dependents s jid)) \<and>
          (\<forall>i. i \<notin> fresh_ids s \<and> i \<noteq> jid \<longrightarrow> kept_or_cancelled s s' i) \<and>
          (st \<noteq> COMPLETED \<longrightarrow> (\<forall>d \<in> set (dependents s jid). status (store s d) = QUEUED \<longrightarrow>
              d \<noteq> jid \<longrightarrow> status (store s' d) = CANCELLED))"
      using res ok6 fin_jid kc casc orph by blast
  qed
qed

lemma fuel_enough: "wf s \<Longrightarrow> card ({i. held s i} - {jid}) < Suc (held_count s)"
  using held_count_card [OF wfD(1)] card_Diff1_le [of "{i. held s i}" jid] by (simp add: le_imp_less_Suc)

lemma finalize_terminal_aux:
  assumes "wf s" "jid \<notin> fresh_ids s" "\<not> is_terminal (store s jid)" "st \<in> TERMINAL_JOB_STATUSES"
  obtains s' where "finalize_terminal jid st err s = (Inr (), s')" "steps_ok s s'" "status (store s' jid) = st"
    "\<And>i. i \<notin> fresh_ids s \<Longrightarrow> i \<noteq> jid \<Longrightarrow> kept_or_cancelled s s' i"
    "\<And>i. orphan s' i \<Longrightarrow> orphan s i \<and> i \<notin> set (dependents s jid)"
    "st \<noteq> COMPLETED \<Longrightarrow> \<forall>d \<in> set (dependents s jid). status (store s d) = QUEUED \<longrightarrow>
        d \<noteq> jid \<longrightarrow> status (store s' d) = CANCELLED"
  unfolding finalize_terminal_def
  by (rule finalizesD [OF finalizes assms fuel_enough [OF assms(1)], of err]) (use that in blast)

text \<open>More fuel changes nothing: the entry point's fuel is enough.\<close>

lemma for_each_cong:
  "(\<And>x t. f x t = (Inr (), snd (f x t)) \<Longrightarrow> g x t = f x t) \<Longrightarrow>
   for_each f xs s = (Inr (), s') \<Longrightarrow> for_each g xs s = (Inr (), s')"
proof (induction xs arbitrary: s)
  case (Cons x xs)
  obtain r t where r: "f x s = (r, t)" by fastforce
  then have "r = Inr ()" using Cons.prems(2) by (cases r) auto
  then show ?case using Cons r by simp
qed simp

lemma finalize_fuel_mono:
  "finalize_fuel n jid st err s = (Inr (), s') \<Longrightarrow> finalize_fuel (n + k) jid st err s = (Inr (), s')"
proof (induction n arbitrary: jid st err s s')
  case (Suc n)
  have same: "finalize_fuel (n + k) d st' err' t = finalize_fuel n d st' err' t"
    if "finalize_fuel n d st' err' t = (Inr (), snd (finalize_fuel n d st' err' t))" for d st' err' t
    using Suc.IH [OF that] that by simp
  have loop: "release_dependents_with (finalize_fuel (n + k)) d t = (Inr (), t')"
    if "release_dependents_with (finalize_fuel n) d t = (Inr (), t')" for d t t'
    using that unfolding release_dependents_with_def
    by (rule for_each_cong [rotated]) (auto simp: release_one_def same split: if_splits)
  show ?case
    using Suc.prems loop by (auto simp: Let_def split: prod.splits sum.splits)
qed simp


section \<open>The initial state\<close>

lemma placed_new_fw: "\<not> placed (new_fw ds off clk ids version) i"
proof -
  have "lane_queue (get_lane n (new_fw ds off clk ids version)) = [] \<and>
      active (get_lane n (new_fw ds off clk ids version)) = []" for n
    by (cases n) (simp_all add: new_fw_def new_lane_def)
  then show ?thesis by (simp add: placed_def new_fw_def new_pool_def)
qed

lemma wf_new_fw: "inj ids \<Longrightarrow> [] \<notin> range ids \<Longrightarrow> wf (new_fw ds off clk ids version)"
  using placed_new_fw by (simp add: wf_def) (simp add: new_fw_def)

text \<open>A supply for the examples: \<open>u0\<close>, \<open>u1\<close>, ...\<close>

definition ex_ids :: "nat \<Rightarrow> string" where
  "ex_ids n = CHR ''u'' # show_nat n"

lemma ex_ids_ok [simp]: "inj ex_ids" "[] \<notin> range ex_ids"
  by (auto simp: ex_ids_def inj_def)

definition ex_fw :: fw where
  "ex_fw = new_fw None None show_nat ex_ids ''2026.5.0''"

lemma wf_ex_fw [simp]: "wf ex_fw"
  by (simp add: ex_fw_def wf_new_fw)


end
