(* ===== verification/Jobs.thy ===== *)
theory Jobs
  imports Lifecycle
begin

text \<open>
  \<open>controllers/firmware/jobs.py\<close>: the queries over the retained jobs, cancelling and clearing. The saves
  a handler awaits complete at once here, so a handler is one step of the event loop; the relation \<open>safe\<close>
  is what every one of them keeps, the pruning included: no active job is dropped, no terminal one
  revived, no job left waiting for a prerequisite that is gone.
\<close>

section \<open>Queries\<close>

definition job_status_value :: "JobStatus \<Rightarrow> string" where
  "job_status_value st =
     (case st of QUEUED \<Rightarrow> ''queued'' | RUNNING \<Rightarrow> ''running'' | COMPLETED \<Rightarrow> ''completed''
      | FAILED \<Rightarrow> ''failed'' | CANCELLED \<Rightarrow> ''cancelled'')"

definition job_is_on_a_lane :: "fw \<Rightarrow> string \<Rightarrow> bool" where
  "job_is_on_a_lane s jid \<longleftrightarrow> (\<exists>n \<in> set lane_names. jid \<in> set (active (get_lane n s)))"

text \<open>The filters are applied when they are non-empty; the references come back newest first.\<close>

definition get_jobs :: "string \<Rightarrow> string \<Rightarrow> fw \<Rightarrow> string list" where
  "get_jobs st conf s =
     (let js0 = jobs s;
          js1 = (if st \<noteq> [] then filter (\<lambda>i. job_status_value (status (store s i)) = st) js0 else js0);
          js2 = (if conf \<noteq> [] then filter (\<lambda>i. configuration (store s i) = conf) js1 else js1)
      in sort_by_desc (\<lambda>i. created_at (store s i)) js2)"

definition get_job :: "string \<Rightarrow> fw \<Rightarrow> FirmwareJob option" where
  "get_job jid s = get_job_obj s jid"

definition active_remote_peer_jobs :: "fw \<Rightarrow> string list" where
  "active_remote_peer_jobs s =
     filter (\<lambda>i. is_active (store s i) \<and> remote_peer (store s i) \<noteq> []) (jobs s)"

definition find_remote_peer_job :: "string \<Rightarrow> string \<Rightarrow> fw \<Rightarrow> string option" where
  "find_remote_peer_job peer rjid s =
     List.find (\<lambda>i. remote_peer (store s i) = peer \<and> remote_job_id (store s i) = rjid) (jobs s)"

definition remote_peer_job_ids :: "string \<Rightarrow> fw \<Rightarrow> string list" where
  "remote_peer_job_ids peer s =
     map (\<lambda>i. remote_job_id (store s i)) (filter (\<lambda>i. remote_peer (store s i) = peer) (jobs s))"

section \<open>Cancelling and clearing\<close>

text \<open>The two calls every user-visible change of the history ends with.\<close>

definition save_history :: "fw \<Rightarrow> fw" where
  "save_history s = persist_jobs (prune_history s)"

text \<open>A queued job: out of the pool, cancelled, saved, announced, and what was held on it settled.\<close>

definition cancel_queued :: "string \<Rightarrow> fw \<Rightarrow> unit result \<times> fw" where
  "cancel_queued jid s =
     (let s1 = upd_pool (discard jid) s in
      case now_iso s1 of
        (now, s2) \<Rightarrow>
          (case mark_terminal now CANCELLED None (store s2 jid) of
             Inl e \<Rightarrow> (Inl e, s1)
           | Inr j \<Rightarrow>
               let s3 = save_history (upd_job jid (\<lambda>_. j) s2);
                   s4 = fire_job_lifecycle JOB_CANCELLED jid s3;
                   acted = release_acts jid s4
               in (case release_dependents jid s4 of
                     (Inl e, s5) \<Rightarrow> (Inl e, s5)
                   | (Inr u, s5) \<Rightarrow>
                       let s6 = (if acted then save_history s5 else s5)
                       in (Inr (), on_job_terminal jid s6))))"

definition cancel_running :: "string \<Rightarrow> fw \<Rightarrow> unit result \<times> fw" where
  "cancel_running jid s =
     (if is_in_flight (remote_dispatch s) jid then (Inr (), request_cancel jid s)
      else if \<not> job_is_on_a_lane s jid
      then (Inl (RuntimeError ''Running job is not the active subprocess (state out of sync)''), s)
      else (Inr (), terminate_job_process jid (request_cancel jid s)))"

text \<open>
  A cancelled rename tail cancels the compile it waited for: the recursion leaves one held job fewer,
  which bounds its depth.
\<close>

primrec cancel_fuel :: "nat \<Rightarrow> string \<Rightarrow> fw \<Rightarrow> unit result \<times> fw" where
  "cancel_fuel 0 jid s = (Inl (RuntimeError ''maximum recursion depth exceeded''), s)"
| "cancel_fuel (Suc n) jid s =
     (if jid \<notin> set (jobs s) then (Inl (CommandError NOT_FOUND (''Job not found: '' @ jid)), s)
      else if status (store s jid) = QUEUED then
        (case cancel_queued jid s of
           (Inl e, s1) \<Rightarrow> (Inl e, s1)
         | (Inr u, s1) \<Rightarrow>
             let prereq = depends_on (store s1 jid) in
             (case (if is_rename_tail (store s1 jid) \<and> prereq \<in> set (jobs s1) \<and> is_active (store s1 prereq)
                    then cancel_fuel n prereq s1 else (Inr (), s1)) of
                (Inl e, s2) \<Rightarrow> (Inl e, s2)
              | (Inr u, s2) \<Rightarrow> (Inr (), s2\<lparr>build_gate := True\<rparr>)))
      else if status (store s jid) = RUNNING then cancel_running jid s
      else (Inl (CommandError INVALID_ARGS
              (''Cannot cancel a '' @ job_status_value (status (store s jid)) @ '' job'')), s))"

definition cancel :: "string \<Rightarrow> fw \<Rightarrow> unit result \<times> fw" where
  "cancel jid s = cancel_fuel (Suc (held_count s)) jid s"

definition clear_matches :: "string \<Rightarrow> FirmwareJob \<Rightarrow> bool" where
  "clear_matches st j \<longleftrightarrow>
     (st \<noteq> [] \<and> job_status_value (status j) = st) \<or> (st = [] \<and> status j \<in> TERMINAL_JOB_STATUSES)"

definition clear :: "string \<Rightarrow> fw \<Rightarrow> fw" where
  "clear st s =
     persist_jobs
       (fold (\<lambda>i t. t\<lparr>jobs := keys_pop i (jobs t)\<rparr>)
          (filter (\<lambda>i. clear_matches st (store s i)) (jobs s)) s)"

section \<open>What every handler keeps\<close>

definition safe :: "fw \<Rightarrow> fw \<Rightarrow> bool" where
  "safe s s' \<longleftrightarrow>
     evolves s s' \<and> wf s' \<and> (\<forall>i. held s' i \<longrightarrow> held s i) \<and>
     (\<forall>i \<in> set (jobs s). is_active (store s' i) \<longrightarrow> i \<in> set (jobs s')) \<and>
     (\<forall>i. orphan s' i \<longrightarrow> orphan s i) \<and>
     (\<forall>i \<in> set (jobs s). kept_or_cancelled s s' i)"

lemma safeD:
  assumes "safe s s'"
  shows "evolves s s'" "wf s'" "held s' i \<Longrightarrow> held s i" "orphan s' i \<Longrightarrow> orphan s i"
    "i \<in> set (jobs s) \<Longrightarrow> is_active (store s' i) \<Longrightarrow> i \<in> set (jobs s')"
    "i \<in> set (jobs s) \<Longrightarrow> kept_or_cancelled s s' i"
  using assms unfolding safe_def by blast+

lemma safe_refl: "wf s \<Longrightarrow> safe s s"
  by (simp add: safe_def kept_or_cancelled_def)

lemma evolves_active:
  assumes "evolves s s'" "i \<notin> fresh_ids s" "is_active (store s' i)"
  shows "is_active (store s i)"
  using evolvesD(5) [OF assms(1,2)] assms(3) by (metis is_active_def is_terminal_iff_not_active)

lemma safe_trans [trans]:
  assumes "wf s" "safe s t" "safe t u"
  shows "safe s u"
proof -
  note st = safeD [OF assms(2)] and tu = safeD [OF assms(3)]
  have active: "i \<in> set (jobs u)" "is_active (store t i)" "i \<in> set (jobs t)"
    if "i \<in> set (jobs s)" "is_active (store u i)" for i
  proof -
    have "i \<notin> fresh_ids t" using evolvesD(8) [OF st(1)] wfD(4) [OF assms(1) that(1)] by blast
    then show "is_active (store t i)"
      using evolves_active [OF tu(1)] that(2) by blast
    then show "i \<in> set (jobs t)" using st(5) that(1) by blast
    then show "i \<in> set (jobs u)" using tu(5) that(2) by blast
  qed
  moreover have "kept_or_cancelled s u i" if i: "i \<in> set (jobs s)" for i
  proof (cases "is_active (store t i)")
    case True
    then have "i \<in> set (jobs t)" using st(5) i by blast
    then show ?thesis using st(6) [OF i] tu(6) [of i] True by (auto simp: kept_or_cancelled_def is_active_iff)
  next
    case False
    have "i \<notin> fresh_ids t" using evolvesD(8) [OF st(1)] wfD(4) [OF assms(1) i] by blast
    then show ?thesis
      using evolvesD(5) [OF tu(1)] st(6) [OF i] False by (auto simp: kept_or_cancelled_def is_terminal_iff_not_active)
  qed
  ultimately show ?thesis
    using st tu evolves_trans [OF st(1) tu(1)] unfolding safe_def by blast
qed

lemma safe_quiet:
  assumes "wf s" "quiet s t"
  shows "safe s t"
proof -
  have "status (store t i) = status (store s i)" if "i \<in> set (jobs s)" for i
    using assms(2) wfD(4) [OF assms(1) that] by (simp add: quiet_def)
  then show ?thesis
    using assms quiet_orphan [OF assms] unfolding safe_def quiet_def steps_ok_def kept_or_cancelled_def by blast
qed

lemma distinct_subseq: "subseq xs ys \<Longrightarrow> distinct ys \<Longrightarrow> distinct xs"
  by (auto simp: subseq_conv_nths)

lemma distinct_prune_list: "distinct js \<Longrightarrow> distinct (prune_list js)"
proof -
  assume d: "distinct js"
  let ?p = "dedup_jobs {} (sort_by_desc created_at (filter prune_primary js))"
  let ?a = "sort_by_desc created_at (filter prune_aux js)"
  have "distinct ?p" by (rule distinct_subseq [OF subseq_dedup]) (simp add: d)
  moreover have "set ?p \<subseteq> Collect prune_primary"
    using set_dedup [of "{}" "sort_by_desc created_at (filter prune_primary js)"] by auto
  moreover have "distinct ?a" "set ?a \<subseteq> Collect prune_aux" using d by auto
  ultimately show ?thesis
    using d unfolding prune_list_def
    by (auto simp: prune_active_def prune_primary_def prune_aux_def dest!: in_set_takeD)
qed

text \<open>Pruning drops only terminal jobs; saving moves only logs.\<close>

lemma prune_ids:
  assumes "wf s"
  shows "jobs (prune_history s) = map job_id (prune_list (job_values s))"
    "set (jobs (prune_history s)) \<subseteq> set (jobs s)"
    "distinct (jobs (prune_history s))"
    "i \<in> set (jobs s) \<Longrightarrow> is_active (store s i) \<Longrightarrow> i \<in> set (jobs (prune_history s))"
proof -
  have ids: "job_id (store s i) = i" if "i \<in> set (jobs s)" for i using wfD(8) [OF assms that] .
  show "jobs (prune_history s) = map job_id (prune_list (job_values s))" by (simp add: prune_history_def)
  show "set (jobs (prune_history s)) \<subseteq> set (jobs s)"
    using set_prune_list [of "job_values s"] ids by (auto simp: prune_history_def job_values_def)
  have "inj_on (store s) (set (jobs s))" using ids by (rule inj_on_inverseI)
  then have "distinct (job_values s)" using wfD(1) [OF assms] by (simp add: job_values_def distinct_map)
  then have "distinct (prune_list (job_values s))" by (rule distinct_prune_list)
  moreover have "store s (job_id j) = j" if "j \<in> set (prune_list (job_values s))" for j
    using set_prune_list [of "job_values s"] that ids by (auto simp: job_values_def)
  then have "inj_on job_id (set (prune_list (job_values s)))" by (rule inj_on_inverseI)
  ultimately show "distinct (jobs (prune_history s))" by (simp add: prune_history_def distinct_map)
  show "i \<in> set (jobs s) \<Longrightarrow> is_active (store s i) \<Longrightarrow> i \<in> set (jobs (prune_history s))"
    using ids by (auto simp: prune_history_def prune_list_def prune_active_def is_terminal_iff_not_active
        job_values_def image_iff)
qed


lemma safe_prune:
  assumes "wf s"
  shows "safe s (prune_history s)"
proof -
  let ?t = "prune_history s"
  have same: "store ?t = store s" "uuids ?t = uuids s" "next_uuid ?t = next_uuid s"
    by (simp_all add: prune_history_def)
  have pl: "placed ?t i = placed s i" "occupied ?t i = occupied s i" for i
    by (rule placed_eqI; simp add: prune_history_def)+
  have "wf ?t"
    by (rule wf_shrink [OF assms same prune_ids(3,2) [OF assms]]) (simp_all add: pl)
  moreover have "orphan ?t i \<Longrightarrow> orphan s i" for i
    using prune_ids(2,4) [OF assms] by (auto simp: orphan_def held_def same)
  moreover have "held ?t i \<Longrightarrow> held s i" for i
    using prune_ids(2) [OF assms] by (auto simp: held_def same)
  ultimately show ?thesis
    using prune_ids(4) [OF assms] by (auto simp: safe_def same evolves_same kept_or_cancelled_def)
qed

lemma fold_flush_frame [simp]:
  "compile_lane (fold flush_output is s) = compile_lane s" "upload_lane (fold flush_output is s) = upload_lane s"
  "thread_upload_lane (fold flush_output is s) = thread_upload_lane s"
  "remote_dispatch (fold flush_output is s) = remote_dispatch s"
  "uuids (fold flush_output is s) = uuids s" "next_uuid (fold flush_output is s) = next_uuid s"
  "devices (fold flush_output is s) = devices s" "cancel_requested (fold flush_output is s) = cancel_requested s"
  "yaml_files (fold flush_output is s) = yaml_files s" "rename_fs_lock (fold flush_output is s) = rename_fs_lock s"
  "tasks (fold flush_output is s) = tasks s" "offloader (fold flush_output is s) = offloader s"
  by (induction "is" arbitrary: s) (simp_all add: flush_output_def write_job_sidecar_def)

lemma persist_frame [simp]:
  "compile_lane (persist_jobs s) = compile_lane s" "upload_lane (persist_jobs s) = upload_lane s"
  "thread_upload_lane (persist_jobs s) = thread_upload_lane s" "remote_dispatch (persist_jobs s) = remote_dispatch s"
  "uuids (persist_jobs s) = uuids s" "next_uuid (persist_jobs s) = next_uuid s"
  "devices (persist_jobs s) = devices s" "cancel_requested (persist_jobs s) = cancel_requested s"
  "yaml_files (persist_jobs s) = yaml_files s" "rename_fs_lock (persist_jobs s) = rename_fs_lock s"
  "tasks (persist_jobs s) = tasks s" "offloader (persist_jobs s) = offloader s"
  by (simp_all add: persist_jobs_def Let_def reconcile_sidecars_def)

lemma persist_store_fields:
  assumes "distinct (jobs s)"
  shows "store (persist_jobs s) i = (store s i)\<lparr>output := output (store (persist_jobs s) i)\<rparr>"
  by (simp add: persist_store [OF assms])

lemma persist_fields:
  assumes "distinct (jobs s)"
  shows "status (store (persist_jobs s) i) = status (store s i)"
    "depends_on (store (persist_jobs s) i) = depends_on (store s i)"
    "dependency_released (store (persist_jobs s) i) = dependency_released (store s i)"
    "job_id (store (persist_jobs s) i) = job_id (store s i)"
    "job_type (store (persist_jobs s) i) = job_type (store s i)"
    "configuration (store (persist_jobs s) i) = configuration (store s i)"
    "new_name (store (persist_jobs s) i) = new_name (store s i)"
    "is_deferred_install (store (persist_jobs s) i) = is_deferred_install (store s i)"
    "job_identity (store (persist_jobs s) i) = job_identity (store s i)"
  using persist_store_fields [OF assms, of i] by (auto simp: persist_store [OF assms] job_identity_def)

lemma safe_persist:
  assumes "wf s"
  shows "safe s (persist_jobs s)"
proof -
  let ?t = "persist_jobs s"
  note f = persist_fields [OF wfD(1) [OF assms]]
  have pl: "placed ?t i = placed s i" "occupied ?t i = occupied s i" for i
    by (rule placed_eqI; simp)+
  have fr: "fresh_ids ?t = fresh_ids s" by (simp add: fresh_ids_def)
  have "wf ?t" using assms unfolding wf_def fr pl f by simp
  moreover have "evolves s ?t" by (simp add: evolves_def f)
  ultimately show ?thesis
    by (simp add: safe_def held_def orphan_def kept_or_cancelled_def is_active_def f)
qed


section \<open>What cancelling achieves\<close>

lemma job_is_on_a_lane_iff: "job_is_on_a_lane s jid \<longleftrightarrow> (\<exists>n. jid \<in> set (active (get_lane n s)))"
proof -
  have "n \<in> set lane_names" for n by (cases n) (simp_all add: lane_names_def)
  then show ?thesis by (auto simp: job_is_on_a_lane_def)
qed

lemma quiet_discard:
  assumes "wf s" "status (store s jid) \<noteq> RUNNING"
  shows "quiet s (upd_pool (discard jid) s)"
proof -
  have "placed (upd_pool (discard jid) s) i \<Longrightarrow> placed s i"
    "i \<noteq> jid \<Longrightarrow> occupied (upd_pool (discard jid) s) i = occupied s i" for i
    by (auto simp: placed_def occupied_def discard_def)
  moreover have "status (store s i) = RUNNING \<Longrightarrow> i \<noteq> jid" for i using assms(2) by auto
  ultimately show ?thesis using assms(1) by (intro quiet_same) simp_all
qed

lemma quiet_request_cancel: "wf s \<Longrightarrow> quiet s (request_cancel jid s)"
proof -
  have "placed (request_cancel jid s) i = placed s i" "occupied (request_cancel jid s) i = occupied s i" for i
    by (rule placed_eqI; simp add: request_cancel_def)+
  then show "wf s \<Longrightarrow> quiet s (request_cancel jid s)"
    by (intro quiet_same) (simp_all add: request_cancel_def)
qed

lemma quiet_terminate: "wf s \<Longrightarrow> quiet s (terminate_job_process jid s)"
proof -
  have "placed (terminate_job_process jid s) i = placed s i"
      "occupied (terminate_job_process jid s) i = occupied s i" for i
    by (rule placed_eqI; simp add: terminate_job_process_def)+
  then show "wf s \<Longrightarrow> quiet s (terminate_job_process jid s)"
    by (intro quiet_same) (simp_all add: terminate_job_process_def)
qed

lemma quiet_build_gate: "wf s \<Longrightarrow> quiet s (s\<lparr>build_gate := b\<rparr>)"
proof -
  have "placed (s\<lparr>build_gate := b\<rparr>) i = placed s i" "occupied (s\<lparr>build_gate := b\<rparr>) i = occupied s i" for i
    by (rule placed_eqI; simp)+
  then show "wf s \<Longrightarrow> quiet s (s\<lparr>build_gate := b\<rparr>)" by (intro quiet_same) simp_all
qed

lemma quiet_terminal: "wf s \<Longrightarrow> quiet s (on_job_terminal jid s)"
proof -
  have "placed (on_job_terminal jid s) i = placed s i"
      "occupied (on_job_terminal jid s) i = occupied s i" for i
    by (rule placed_eqI; simp add: on_job_terminal_def revert_rename_def)+
  then show "wf s \<Longrightarrow> quiet s (on_job_terminal jid s)"
    by (intro quiet_same) (simp_all add: on_job_terminal_def revert_rename_def)
qed

text \<open>The cancelled job is marked; until its dependents are settled they may be stranded.\<close>

definition only_stranded :: "string \<Rightarrow> fw \<Rightarrow> fw \<Rightarrow> bool" where
  "only_stranded jid s s' \<longleftrightarrow>
     evolves s s' \<and> wf s' \<and> status (store s' jid) = CANCELLED \<and> (\<forall>i. held s' i \<longrightarrow> held s i) \<and>
     (\<forall>i \<in> set (jobs s). is_active (store s' i) \<longrightarrow> i \<in> set (jobs s')) \<and>
     (\<forall>i. orphan s' i \<longrightarrow> orphan s i \<or> depends_on (store s' i) = jid) \<and>
     (\<forall>i \<in> set (jobs s). i \<noteq> jid \<longrightarrow> status (store s' i) = status (store s i))"

lemma only_strandedD:
  assumes "only_stranded jid s s'"
  shows "evolves s s'" "wf s'" "status (store s' jid) = CANCELLED" "held s' i \<Longrightarrow> held s i"
    "i \<in> set (jobs s) \<Longrightarrow> is_active (store s' i) \<Longrightarrow> i \<in> set (jobs s')"
    "orphan s' i \<Longrightarrow> orphan s i \<or> depends_on (store s' i) = jid"
    "i \<in> set (jobs s) \<Longrightarrow> i \<noteq> jid \<Longrightarrow> status (store s' i) = status (store s i)"
  using assms unfolding only_stranded_def by blast+


lemma safe_save: "wf s \<Longrightarrow> safe s (save_history s)"
  unfolding save_history_def using safe_trans safe_prune safe_persist safeD(2) by blast

lemma save_status [simp]: "wf s \<Longrightarrow> status (store (save_history s) i) = status (store s i)"
  unfolding save_history_def using prune_ids(3) [of s] by (simp add: persist_fields) (simp add: prune_history_def)

lemma only_stranded_step:
  assumes "only_stranded jid s t" "wf s" "jid \<notin> fresh_ids s" "safe t u"
    "\<And>i. i \<notin> fresh_ids t \<Longrightarrow> status (store u i) = status (store t i)"
  shows "only_stranded jid s u"
proof -
  note st = only_strandedD [OF assms(1)] and tu = safeD [OF assms(4)]
  have nf: "i \<notin> fresh_ids t" if "i \<in> set (jobs s) \<or> i = jid" for i
    using that evolvesD(8) [OF st(1)] wfD(4) [OF assms(2)] assms(3) by blast
  have "orphan s i \<or> depends_on (store u i) = jid" if "orphan u i" for i
  proof -
    have "orphan t i" by (rule tu(4) [OF that])
    moreover from this have "i \<notin> fresh_ids t" using wfD(4) [OF st(2)] by (auto simp: orphan_def held_def)
    ultimately show ?thesis using st(6) evolvesD(1) [OF tu(1)] by metis
  qed
  moreover have "i \<in> set (jobs u)" if "i \<in> set (jobs s)" "is_active (store u i)" for i
  proof -
    have "is_active (store t i)" using assms(5) [OF nf] that by (simp add: is_active_def)
    then show ?thesis using st(5) tu(5) that by blast
  qed
  moreover have "status (store u jid) = CANCELLED" using assms(5) [OF nf] st(3) by simp
  moreover have "status (store u i) = status (store s i)" if "i \<in> set (jobs s)" "i \<noteq> jid" for i
    using assms(5) [OF nf] st(7) that by simp
  ultimately show ?thesis
    using evolves_trans [OF st(1) tu(1)] st(4) tu(2,3) unfolding only_stranded_def by blast
qed

lemma only_stranded_mark:
  assumes "wf s" "jid \<in> set (jobs s)" "status (store s jid) = QUEUED" "now_iso s = (now, t)"
    "mark_terminal now CANCELLED err (store t jid) = Inr j"
  shows "only_stranded jid s (upd_job jid (\<lambda>_. j) t)"
proof -
  have nf: "jid \<notin> fresh_ids s" by (rule wfD(4) [OF assms(1,2)])
  have t: "t = s\<lparr>ticks := Suc (ticks s)\<rparr>" using assms(4) by (auto simp: now_iso_def)
  have "safe s t"
    unfolding t using placed_eqI [of "s\<lparr>ticks := Suc (ticks s)\<rparr>" s] assms(1)
    by (intro safe_quiet quiet_same) simp_all
  let ?f = "\<lambda>j. j\<lparr>error := (case err of None \<Rightarrow> error j | Some e \<Rightarrow> Some e), status := CANCELLED,
      completed_at := Some now\<rparr>"
  have eq: "upd_job jid (\<lambda>_. j) t = upd_job jid ?f t"
    using assms(5) by (intro upd_job_cong) (simp add: mark_terminal_spec)
  have ok: "steps_ok t (upd_job jid ?f t)"
    using assms(3) safeD(2) [OF \<open>safe s t\<close>]
    by (intro steps_ok_upd_job) (simp_all add: job_identity_def is_terminal_def t)
  have "orphan (upd_job jid ?f t) i \<Longrightarrow> orphan s i \<or> depends_on (store (upd_job jid ?f t) i) = jid" for i
    by (auto simp: orphan_def held_def t is_active_def split: if_splits)
  then show ?thesis
    unfolding eq only_stranded_def
    using steps_okD(1,2) [OF ok] evolves_trans [OF safeD(1) [OF \<open>safe s t\<close>]] by (auto simp: held_def t)
qed

text \<open>Settling the dependents ends the stranding.\<close>

lemma settle_dependents:
  assumes "only_stranded jid s t" "wf s" "jid \<in> set (jobs s)" "status (store s jid) = QUEUED"
  shows "\<exists>u. release_dependents jid t = (Inr (), u) \<and> safe s u \<and> status (store u jid) = CANCELLED \<and>
    (\<forall>d \<in> set (dependents s jid). status (store s d) = QUEUED \<longrightarrow> status (store u d) = CANCELLED)"
proof -
  note st = only_strandedD [OF assms(1)]
  have nf: "i \<in> set (jobs s) \<Longrightarrow> i \<notin> fresh_ids t" for i
    using evolvesD(8) [OF st(1)] wfD(4) [OF assms(2)] by blast
  have fin: "is_terminal (store t jid)" using st(3) by (simp add: is_terminal_def)
  have "card {i. held t i} \<le> Suc (held_count t)" using held_count_card [OF wfD(1) [OF st(2)]] by simp
  moreover have "\<forall>d \<in> set (dependents t jid). d \<in> set (jobs t) \<and> depends_on (store t d) = jid \<and> jid \<noteq> []"
    by (auto simp: dependents_def)
  ultimately obtain u where u: "release_dependents jid t = (Inr (), u)" "steps_ok t u"
      "\<And>i. orphan u i \<Longrightarrow> orphan t i \<and> i \<notin> set (dependents t jid)"
      "\<And>i. i \<notin> fresh_ids t \<Longrightarrow> kept_or_cancelled t u i"
      "\<And>d. d \<in> set (dependents t jid) \<Longrightarrow> status (store t d) = QUEUED \<Longrightarrow> status (store u d) = CANCELLED"
    using release_loop [OF finalizes st(2) nf [OF assms(3)] fin, of "dependents t jid" "Suc (held_count t)"] st(3)
    unfolding release_dependents_def release_dependents_with_def by auto
  note tu = steps_okD [OF u(2)]
  have jid: "status (store u jid) = CANCELLED"
    using evolvesD(5) [OF tu(1) nf [OF assms(3)] fin] st(3) by simp
  have orph: "orphan s i" if "orphan u i" for i
  proof -
    have i: "orphan t i" "i \<notin> set (dependents t jid)" using u(3) that by blast+
    then have "depends_on (store t i) \<noteq> jid"
      by (cases "jid = []") (auto simp: orphan_def held_def dependents_def)
    then show ?thesis using st(6) i(1) by blast
  qed
  have kc: "kept_or_cancelled s u i" if "i \<in> set (jobs s)" for i
    using u(4) [OF nf [OF that]] st(7) [OF that] jid by (cases "i = jid") (auto simp: kept_or_cancelled_def)
  have act: "i \<in> set (jobs u)" if "i \<in> set (jobs s)" "is_active (store u i)" for i
    using st(5) [OF that(1)] evolves_active [OF tu(1) nf [OF that(1)] that(2)] tu(3) by blast
  have deps: "status (store u d) = CANCELLED"
    if d: "d \<in> set (dependents s jid)" "status (store s d) = QUEUED" for d
  proof (cases "d = jid")
    case False
    have dj: "d \<in> set (jobs s)" "depends_on (store s d) = jid" "jid \<noteq> []"
      using d(1) by (auto simp: dependents_def split: if_splits)
    then have "status (store t d) = QUEUED" using st(7) d(2) False by simp
    moreover from this have "d \<in> set (jobs t)" using st(5) dj(1) by (simp add: is_active_iff)
    ultimately show ?thesis
      using u(5) dj evolvesD(1) [OF st(1) wfD(4) [OF assms(2) dj(1)]] by (simp add: dependents_def)
  qed (simp add: jid)
  have "safe s u"
    unfolding safe_def using evolves_trans [OF st(1) tu(1)] tu(2,4) st(4) act orph kc by blast
  then show ?thesis using u(1) jid deps by blast
qed


lemma quiet_status: "quiet s t \<Longrightarrow> i \<notin> fresh_ids s \<Longrightarrow> status (store t i) = status (store s i)"
  by (simp add: quiet_def)

lemma cancel_queued_ok:
  assumes "wf s" "jid \<in> set (jobs s)" "status (store s jid) = QUEUED"
  obtains u where "cancel_queued jid s = (Inr (), u)" "safe s u" "status (store u jid) = CANCELLED"
    "\<And>d. d \<in> set (dependents s jid) \<Longrightarrow> status (store s d) = QUEUED \<Longrightarrow> status (store u d) = CANCELLED"
proof -
  define s1 where "s1 = upd_pool (discard jid) s"
  have s1: "wf s1" "safe s s1" "store s1 = store s" "jobs s1 = jobs s"
    using quiet_discard [OF assms(1), of jid] assms(1,3) safe_quiet quiet_wf unfolding s1_def by simp_all
  have deps: "dependents s1 jid = dependents s jid" using s1 by (simp add: dependents_def)
  have j1: "jid \<in> set (jobs s1)" "status (store s1 jid) = QUEUED" using assms s1 by simp_all
  obtain now s2 where now: "now_iso s1 = (now, s2)" by fastforce
  obtain j where j: "mark_terminal now CANCELLED None (store s2 jid) = Inr j"
    using mark_terminal_ok [of CANCELLED now None "store s2 jid"] by auto
  define m where "m = upd_job jid (\<lambda>_. j) s2"
  have m: "only_stranded jid s1 m" unfolding m_def by (rule only_stranded_mark [OF s1(1) j1 now j])
  define s3 where "s3 = save_history m"
  note nf = wfD(4) [OF s1(1) j1(1)]
  have s3: "only_stranded jid s1 s3"
    unfolding s3_def
    by (rule only_stranded_step [OF m s1(1) nf safe_save save_status]) (rule only_strandedD(2) [OF m])+
  define s4 where "s4 = fire_job_lifecycle JOB_CANCELLED jid s3"
  have q4: "quiet s3 s4"
    unfolding s4_def by (rule quiet_fire_job_lifecycle [OF only_strandedD(2) [OF s3]])
  have s4: "only_stranded jid s1 s4"
    by (rule only_stranded_step [OF s3 s1(1) nf safe_quiet [OF only_strandedD(2) [OF s3] q4] quiet_status [OF q4]])
  obtain s5 where s5: "release_dependents jid s4 = (Inr (), s5)" "safe s1 s5" "status (store s5 jid) = CANCELLED"
      "\<forall>d \<in> set (dependents s1 jid). status (store s1 d) = QUEUED \<longrightarrow> status (store s5 d) = CANCELLED"
    using settle_dependents [OF s4 s1(1) j1] by blast
  define s6 where "s6 = (if release_acts jid s4 then save_history s5 else s5)"
  have w5: "wf s5" by (rule safeD(2) [OF s5(2)])
  have s6: "safe s5 s6" "\<And>i. status (store s6 i) = status (store s5 i)"
    unfolding s6_def using safe_save [OF w5] safe_refl [OF w5] w5 by auto
  define u where "u = on_job_terminal jid s6"
  have q6: "quiet s6 u" unfolding u_def by (rule quiet_terminal [OF safeD(2) [OF s6(1)]])
  have su: "safe s u"
    using safe_trans [OF assms(1) s1(2)] safe_trans [OF s1(1) s5(2)] safe_trans [OF w5 s6(1)]
      safe_quiet [OF safeD(2) [OF s6(1)] q6] safe_trans [OF assms(1)] by meson
  have ev5: "evolves s s5" using evolves_trans [OF safeD(1) [OF s1(2)] safeD(1) [OF s5(2)]] .
  have st: "status (store u i) = status (store s5 i)" if "i \<in> set (jobs s)" for i
    using quiet_status [OF q6, of i] s6(2)
      evolvesD(8) [OF evolves_trans [OF ev5 safeD(1) [OF s6(1)]] wfD(4) [OF assms(1) that]] by simp
  have "cancel_queued jid s = (Inr (), u)"
    unfolding cancel_queued_def using now j s5(1)
    by (simp add: Let_def s1_def [symmetric] m_def [symmetric] s3_def [symmetric] s4_def [symmetric]
        s6_def [symmetric] u_def)
  moreover have "status (store u d) = CANCELLED"
    if "d \<in> set (dependents s jid)" "status (store s d) = QUEUED" for d
    using that s5(4) deps s1(3) st [of d] by (auto simp: dependents_def split: if_splits)
  ultimately show thesis using that su st [OF assms(2)] s5(3) by simp
qed

lemma cancel_running_ok:
  assumes "wf s" "jid \<in> set (jobs s)" "status (store s jid) = RUNNING"
  obtains u where "cancel_running jid s = (Inr (), u)" "quiet s u" "jid \<in> cancel_requested u"
proof -
  have occ: "is_in_flight (remote_dispatch s) jid \<or> job_is_on_a_lane s jid"
    using wfD(9) [OF assms] by (auto simp: occupied_def is_in_flight_def job_is_on_a_lane_iff)
  have q: "quiet s (request_cancel jid s)" by (rule quiet_request_cancel [OF assms(1)])
  then have "quiet s (terminate_job_process jid (request_cancel jid s))"
    using quiet_trans quiet_terminate quiet_wf by blast
  moreover have "jid \<in> cancel_requested (request_cancel jid s)" by (simp add: request_cancel_def)
  moreover from this have "jid \<in> cancel_requested (terminate_job_process jid (request_cancel jid s))"
    by (simp add: terminate_job_process_def)
  ultimately show thesis
    using that q occ by (cases "is_in_flight (remote_dispatch s) jid") (auto simp: cancel_running_def)
qed


definition cancelled_by :: "string \<Rightarrow> fw \<Rightarrow> fw \<Rightarrow> bool" where
  "cancelled_by jid s s' \<longleftrightarrow>
     safe s s' \<and>
     (status (store s jid) = QUEUED \<longrightarrow> status (store s' jid) = CANCELLED \<and>
        (\<forall>d \<in> set (dependents s jid). status (store s d) = QUEUED \<longrightarrow> status (store s' d) = CANCELLED)) \<and>
     (status (store s jid) = RUNNING \<longrightarrow> jid \<in> cancel_requested s')"

lemma cancel_fuel_ok:
  assumes "wf s" "jid \<in> set (jobs s)" "is_active (store s jid)" "card {i. held s i} < n"
  shows "\<exists>u. cancel_fuel n jid s = (Inr (), u) \<and> cancelled_by jid s u \<and>
    (is_rename_tail (store s jid) \<and> status (store s jid) = QUEUED \<and> depends_on (store s jid) \<in> set (jobs s) \<longrightarrow>
       is_terminal (store u (depends_on (store s jid))) \<or> depends_on (store s jid) \<in> cancel_requested u)"
  using assms
proof (induction n arbitrary: s jid)
  case (Suc n)
  let ?p = "depends_on (store s jid)"
  show ?case
  proof (cases "status (store s jid) = QUEUED")
    case q: True
    obtain s1 where s1: "cancel_queued jid s = (Inr (), s1)" "safe s s1" "status (store s1 jid) = CANCELLED"
      "\<And>d. d \<in> set (dependents s jid) \<Longrightarrow> status (store s d) = QUEUED \<Longrightarrow> status (store s1 d) = CANCELLED"
      using cancel_queued_ok [OF Suc.prems(1,2) q] by metis
    note sd = safeD [OF s1(2)]
    have id: "depends_on (store s1 jid) = ?p" "is_rename_tail (store s1 jid) = is_rename_tail (store s jid)"
      using evolvesD [OF sd(1) wfD(4) [OF Suc.prems(1,2)]] by (simp_all add: is_rename_tail_def)
    define go where "go = (is_rename_tail (store s jid) \<and> ?p \<in> set (jobs s1) \<and> is_active (store s1 ?p))"
    have gate: "quiet t (t\<lparr>build_gate := True\<rparr>)" if "wf t" for t using quiet_build_gate [OF that] .
    show ?thesis
    proof (cases go)
      case False
      let ?u = "s1\<lparr>build_gate := True\<rparr>"
      have eq: "cancel_fuel (Suc n) jid s = (Inr (), ?u)"
        using Suc.prems(2) q s1(1) False id by (auto simp: Let_def go_def)
      have "safe s ?u" by (rule safe_trans [OF Suc.prems(1) s1(2) safe_quiet [OF sd(2) gate [OF sd(2)]]])
      moreover have "is_terminal (store s1 ?p)" if "is_rename_tail (store s jid)" "?p \<in> set (jobs s)"
        using that sd(5) False by (auto simp: go_def is_terminal_iff_not_active)
      moreover have "\<forall>d \<in> set (dependents s jid). status (store s d) = QUEUED \<longrightarrow> status (store ?u d) = CANCELLED"
        using s1(4) by simp
      ultimately show ?thesis using eq s1(3) q by (simp add: cancelled_by_def)
    next
      case True
      then have p1: "?p \<in> set (jobs s1)" "is_active (store s1 ?p)" "is_rename_tail (store s jid)"
        by (simp_all add: go_def)
      have "held s jid" using p1(3) q Suc.prems(2) by (simp add: held_def is_rename_tail_def)
      moreover have "\<not> held s1 jid" using s1(3) by (simp add: held_def)
      ultimately have "{i. held s1 i} \<subset> {i. held s i}" using sd(3) by blast
      from psubset_card_mono [OF finite_held this] have "card {i. held s1 i} < n"
        using Suc.prems(4) by linarith
      then obtain s2 where s2: "cancel_fuel n ?p s1 = (Inr (), s2)" "cancelled_by ?p s1 s2"
        using Suc.IH [OF sd(2) p1(1,2)] by blast
      let ?u = "s2\<lparr>build_gate := True\<rparr>"
      have s2s: "safe s1 s2" using s2(2) by (simp add: cancelled_by_def)
      have eq: "cancel_fuel (Suc n) jid s = (Inr (), ?u)"
        using Suc.prems(2) q s1(1) p1 id s2(1) by (simp add: Let_def)
      have su: "safe s s2" by (rule safe_trans [OF Suc.prems(1) s1(2) s2s])
      have "safe s ?u"
        by (rule safe_trans [OF Suc.prems(1) su safe_quiet [OF safeD(2) [OF su] gate [OF safeD(2) [OF su]]]])
      moreover have keep: "status (store s2 d) = CANCELLED" if "status (store s1 d) = CANCELLED" "d \<in> set (jobs s)" for d
        using evolvesD(5) [OF safeD(1) [OF s2s] evolvesD(8) [OF sd(1) wfD(4) [OF Suc.prems(1) that(2)]]] that(1)
        by (simp add: is_terminal_def)
      moreover have "status (store s2 ?p) = CANCELLED \<or> ?p \<in> cancel_requested s2"
        using s2(2) p1(2) by (auto simp: cancelled_by_def is_active_iff)
      moreover have "\<forall>d \<in> set (dependents s jid). status (store s d) = QUEUED \<longrightarrow> status (store ?u d) = CANCELLED"
        using s1(4) keep by (auto simp: dependents_def split: if_splits)
      moreover have "status (store ?u jid) = CANCELLED" using keep [OF s1(3) Suc.prems(2)] by simp
      ultimately show ?thesis using eq q by (auto simp: cancelled_by_def is_terminal_def)
    qed
  next
    case False
    then have r: "status (store s jid) = RUNNING" using Suc.prems(3) by (simp add: is_active_iff)
    obtain u where "cancel_running jid s = (Inr (), u)" "quiet s u" "jid \<in> cancel_requested u"
      using cancel_running_ok [OF Suc.prems(1,2) r] by metis
    moreover from this have "cancel_fuel (Suc n) jid s = (Inr (), u)" using r Suc.prems(2) by simp
    ultimately show ?thesis using r safe_quiet [OF Suc.prems(1)] by (simp add: cancelled_by_def)
  qed
qed simp



lemma cancel_fuel_mono:
  "cancel_fuel n jid s = (Inr (), u) \<Longrightarrow> cancel_fuel (n + k) jid s = (Inr (), u)"
proof (induction n arbitrary: jid s u)
  case (Suc n)
  have "cancel_fuel (n + k) p t = cancel_fuel n p t" if "cancel_fuel n p t = (Inr (), v)" for p t v
    using Suc.IH [OF that] that by simp
  then show ?case
    using Suc.prems by (auto simp: Let_def split: if_splits prod.splits sum.splits)
qed simp

text \<open>
  C19. The two cascades of the queue, from a finished job to the jobs held on it and from a cancelled rename to
  its compile, end: recursing deeper than one level for each held job changes nothing, and in a
  well-formed state neither of them exhausts the stack.
\<close>
theorem cascades_terminate:
  assumes "wf s" "jid \<in> set (jobs s)"
  shows "cancel_fuel (Suc (held_count s) + k) jid s = cancel jid s \<and>
    (is_active (store s jid) \<and> st \<in> TERMINAL_JOB_STATUSES \<longrightarrow>
       finalize_fuel (Suc (held_count s) + k) jid st err s = finalize_terminal jid st err s \<and>
       fst (finalize_terminal jid st err s) = Inr () \<and> fst (cancel jid s) = Inr ())"
proof -
  have card: "card {i. held s i} < Suc (held_count s)" using held_count_card [OF wfD(1) [OF assms(1)]] by simp
  have ends: "\<exists>u. cancel jid s = (Inr (), u)" if "is_active (store s jid)"
    using cancel_fuel_ok [OF assms that card] unfolding cancel_def by blast
  have "cancel_fuel (Suc (held_count s) + k) jid s = cancel jid s"
  proof (cases "is_active (store s jid)")
    case True
    then show ?thesis using ends cancel_fuel_mono unfolding cancel_def by fastforce
  qed (use assms(2) in \<open>simp add: cancel_def is_active_iff\<close>)
  moreover have "\<exists>u. finalize_terminal jid st err s = (Inr (), u)"
    if "is_active (store s jid)" "st \<in> TERMINAL_JOB_STATUSES"
    using that wfD(4) [OF assms] by (elim finalize_terminal_aux [OF assms(1), rotated 2])
      (auto simp: is_terminal_iff_not_active)
  ultimately show ?thesis
    using ends finalize_fuel_mono unfolding finalize_terminal_def by fastforce
qed



section \<open>An example\<close>

text \<open>An install: a compile and the upload that waits for it.\<close>

definition ex_head :: fw where
  "ex_head = snd (create_job ''a.yaml'' COMPILE (\<lambda>j. j) LOCAL_JOB_BUILD_SOURCE ex_fw)"

definition ex_chain :: fw where
  "ex_chain = snd (create_job ''a.yaml'' UPLOAD (\<lambda>j. j\<lparr>port := OTA_PORT, depends_on := ''u0''\<rparr>)
     LOCAL_JOB_BUILD_SOURCE ex_head)"

lemma ex_ids_values: "ex_ids 0 = ''u0''" "ex_ids (Suc 0) = ''u1''"
  by code_simp+

lemma ex_chain_create:
  "create_job ''a.yaml'' COMPILE (\<lambda>j. j) LOCAL_JOB_BUILD_SOURCE ex_fw = (''u0'', ex_head)"
  "create_job ''a.yaml'' UPLOAD (\<lambda>j. j\<lparr>port := OTA_PORT, depends_on := ''u0''\<rparr>)
     LOCAL_JOB_BUILD_SOURCE ex_head = (''u1'', ex_chain)"
  by (simp_all add: ex_head_def ex_chain_def create_job_def fresh_uuid_def now_iso_def ex_fw_def new_fw_def
      ex_ids_values Let_def)

lemma wf_ex_chain [simp]: "wf ex_head" "wf ex_chain"
proof -
  show h: "wf ex_head" by (rule steps_ok_create_job(2) [OF ex_chain_create(1)]) simp_all
  have "''u0'' \<notin> fresh_ids ex_head" by (rule create_job_fresh(2) [OF ex_chain_create(1)]) simp
  then show "wf ex_chain" by (intro steps_ok_create_job(2) [OF ex_chain_create(2) h]) simp_all
qed

lemma ex_chain_jobs [simp]:
  "jobs ex_chain = [''u0'', ''u1'']"
  "status (store ex_chain ''u0'') = QUEUED" "status (store ex_chain ''u1'') = QUEUED"
  "depends_on (store ex_chain ''u0'') = []" "depends_on (store ex_chain ''u1'') = ''u0''"
  "configuration (store ex_chain ''u0'') = ''a.yaml''" "configuration (store ex_chain ''u1'') = ''a.yaml''"
  "job_type (store ex_chain ''u0'') = COMPILE" "job_type (store ex_chain ''u1'') = UPLOAD"
  by (simp_all add: ex_chain_def ex_head_def create_job_def fresh_uuid_def now_iso_def ex_fw_def new_fw_def
      keys_add_def apply_build_source_def new_FirmwareJob_def ex_ids_values Let_def)


lemma cascades_terminate_witness: "fst (finalize_terminal ''u0'' FAILED None ex_chain) = Inr ()"
  using cascades_terminate [of ex_chain "''u0''" 0 FAILED None] by (simp add: is_active_iff TERMINAL_JOB_STATUSES_def)


end
