(* ===== verification/Enqueue.thy ===== *)
theory Enqueue
  imports Jobs
begin

text \<open>
  The rest of \<open>controllers/firmware/factories.py\<close>: superseding the jobs of a configuration, committing a
  chain of created jobs, and the entry points that build the chains of a compile and of an install. The
  lemmas show how far a cancellation reaches (\<open>untouched\<close>), so that a chain that supersedes its
  predecessors does not cancel itself.
\<close>

section \<open>Superseding\<close>

text \<open>The exceptions the sweep swallows; a global one lets a job that could not be stopped escape.\<close>

definition swallowed :: "bool \<Rightarrow> exn \<Rightarrow> bool" where
  "swallowed is_global e =
     (case e of
        ValueError m \<Rightarrow> \<not> is_global
      | RuntimeError m \<Rightarrow> \<not> is_global
      | CommandError c m \<Rightarrow> c \<in> {INVALID_ARGS, NOT_FOUND}
      | _ \<Rightarrow> False)"

definition cancel_swallowing :: "bool \<Rightarrow> string \<Rightarrow> fw \<Rightarrow> unit result \<times> fw" where
  "cancel_swallowing is_global jid s =
     (case cancel jid s of
        (Inl e, s') \<Rightarrow> if swallowed is_global e then (Inr (), s') else (Inl e, s')
      | (Inr u, s') \<Rightarrow> (Inr (), s'))"

definition to_cancel :: "string set \<Rightarrow> string option \<Rightarrow> fw \<Rightarrow> string list" where
  "to_cancel exclude conf s =
     filter (\<lambda>i. i \<notin> exclude \<and> (case conf of None \<Rightarrow> True | Some c \<Rightarrow> configuration (store s i) = c))
       (active_jobs s)"

definition cancel_active_jobs :: "string set \<Rightarrow> string option \<Rightarrow> fw \<Rightarrow> unit result \<times> fw" where
  "cancel_active_jobs exclude conf s =
     for_each (cancel_swallowing (conf = None)) (to_cancel exclude conf s) s"

definition supersede_active_jobs :: "string \<Rightarrow> string set \<Rightarrow> fw \<Rightarrow> unit result \<times> fw" where
  "supersede_active_jobs conf exclude s = cancel_active_jobs exclude (Some conf) s"

definition cancel_all_active_jobs :: "string set \<Rightarrow> fw \<Rightarrow> unit result \<times> fw" where
  "cancel_all_active_jobs exclude s = cancel_active_jobs exclude None s"

section \<open>Committing a chain\<close>

text \<open>
  \<open>chain\<close> lists the jobs in the order they are placed, the dependent before the head. A rejected or
  failed stage rolls all of them out of the dictionary.
\<close>

definition roll_out :: "string list \<Rightarrow> fw \<Rightarrow> fw" where
  "roll_out chain s = fold (\<lambda>i t. t\<lparr>jobs := keys_pop i (jobs t)\<rparr>) chain s"

definition no_stage :: "fw \<Rightarrow> unit result \<times> fw" where
  "no_stage s = (Inr (), s)"

definition commit_chain ::
    "string list \<Rightarrow> string option \<Rightarrow> string \<Rightarrow> string set \<Rightarrow> (fw \<Rightarrow> unit result \<times> fw) \<Rightarrow> fw \<Rightarrow>
     unit result \<times> fw" where
  "commit_chain chain supersede lock_job lock_exclude stage s =
     (case (case check_rename_lock lock_job lock_exclude s of
              Inl e \<Rightarrow> (Inl e, s)
            | Inr u \<Rightarrow> stage s) of
        (Inl e, s1) \<Rightarrow> (Inl e, roll_out chain s1)
      | (Inr u, s1) \<Rightarrow>
          let s2 = fold place_and_announce chain s1 in
          (case (case supersede of
                   None \<Rightarrow> (Inr (), s2)
                 | Some conf \<Rightarrow> if conf = [] then (Inr (), s2)
                                else supersede_active_jobs conf (set chain) s2) of
             (Inl e, s3) \<Rightarrow> (Inl e, s3)
           | (Inr u, s3) \<Rightarrow> (Inr (), persist_jobs s3)))"

definition enqueue :: "string \<Rightarrow> bool \<Rightarrow> fw \<Rightarrow> unit result \<times> fw" where
  "enqueue jid supersede s =
     commit_chain [jid] (if supersede then Some (configuration (store s jid)) else None) jid {} no_stage s"

text \<open>The second half of the enqueue a wake dispatched: its lock check and placement already ran.\<close>

definition finish_enqueue :: "string \<Rightarrow> string \<Rightarrow> fw \<Rightarrow> fw" where
  "finish_enqueue jid conf s =
     (if conf = [] then persist_jobs s
      else case supersede_active_jobs conf {jid} s of
             (Inl e, s1) \<Rightarrow> s1
           | (Inr u, s1) \<Rightarrow> persist_jobs s1)"

section \<open>Entry points\<close>

definition enqueue_install_chain ::
    "(string \<Rightarrow> PortType) \<Rightarrow> string \<Rightarrow> string \<Rightarrow> JobBuildSource \<Rightarrow> bool \<Rightarrow> fw \<Rightarrow> string result \<times> fw" where
  "enqueue_install_chain get_port_type conf p build_source flash_boot s =
     (case create_job conf COMPILE (\<lambda>j. j\<lparr>skip_bootloader := is_ota_app_flash get_port_type p flash_boot\<rparr>)
             build_source s of
        (cid, s1) \<Rightarrow>
          (case create_job conf UPLOAD (\<lambda>j. j\<lparr>port := p, flash_bootloader := flash_boot, depends_on := cid\<rparr>)
                  LOCAL_JOB_BUILD_SOURCE s1 of
             (uid, s2) \<Rightarrow>
               (case commit_chain [uid, cid] (Some conf) cid {} no_stage s2 of
                  (Inl e, s3) \<Rightarrow> (Inl e, s3)
                | (Inr u, s3) \<Rightarrow> (Inr cid, s3))))"

text \<open>
  The reachability probe of a device in its startup window only asks the state monitor, outside this
  model, to look sooner.
\<close>

definition enqueue_install_or_defer ::
    "(string \<Rightarrow> PortType) \<Rightarrow> string \<Rightarrow> string \<Rightarrow> bool \<Rightarrow> bool \<Rightarrow> fw \<Rightarrow> string result \<times> fw" where
  "enqueue_install_or_defer get_port_type conf p force_local flash_boot s =
     (let offline = target_is_offline s conf in
      if offline \<and> flash_boot
      then (Inl (CommandError INVALID_ARGS ''Bootloader update requires the device online''), s)
      else case resolve_install_source force_local COMPILE s of
             Inl e \<Rightarrow> (Inl e, s)
           | Inr build_source \<Rightarrow>
               if offline \<and> p = OTA_PORT
               then (case create_job conf COMPILE (\<lambda>j. j\<lparr>skip_bootloader := True\<rparr>) build_source s of
                       (jid, s1) \<Rightarrow>
                         (case enqueue jid True (upd_job jid (\<lambda>j. j\<lparr>is_deferred_install := True\<rparr>) s1) of
                            (Inl e, s2) \<Rightarrow> (Inl e, s2)
                          | (Inr u, s2) \<Rightarrow> (Inr jid, s2)))
               else enqueue_install_chain get_port_type conf p build_source flash_boot s)"

definition enqueue_compile :: "string \<Rightarrow> bool \<Rightarrow> JobType \<Rightarrow> fw \<Rightarrow> string result \<times> fw" where
  "enqueue_compile conf force_local ty s =
     (case resolve_install_source force_local ty s of
        Inl e \<Rightarrow> (Inl e, s)
      | Inr build_source \<Rightarrow>
          (case create_job conf ty (\<lambda>j. j) build_source s of
             (jid, s1) \<Rightarrow>
               (case enqueue jid True s1 of
                  (Inl e, s2) \<Rightarrow> (Inl e, s2)
                | (Inr u, s2) \<Rightarrow> (Inr jid, s2))))"

section \<open>How far a cancellation reaches\<close>

text \<open>A set of jobs no chain leads out of, and what a cancellation outside it leaves alone.\<close>

definition closed_chain :: "string set \<Rightarrow> fw \<Rightarrow> bool" where
  "closed_chain E s \<longleftrightarrow>
     (\<forall>i \<in> set (jobs s). depends_on (store s i) \<noteq> [] \<longrightarrow> (i \<in> E \<longleftrightarrow> depends_on (store s i) \<in> E))"

definition untouched :: "string set \<Rightarrow> fw \<Rightarrow> fw \<Rightarrow> bool" where
  "untouched E s t \<longleftrightarrow>
     (\<forall>i \<in> E. status (store t i) = status (store s i) \<and> (placed s i \<longrightarrow> placed t i)) \<and>
     (\<forall>i. depends_on (store t i) = depends_on (store s i)) \<and>
     (\<forall>i. status (store s i) = CANCELLED \<longrightarrow> status (store t i) = CANCELLED) \<and>
     set (jobs t) \<subseteq> set (jobs s) \<and>
     cancel_requested s \<subseteq> cancel_requested t \<and> cancel_requested t \<inter> E \<subseteq> cancel_requested s"

lemma untouched_refl: "untouched E s s"
  by (simp add: untouched_def)

lemma untouchedD:
  assumes "untouched E s t"
  shows "i \<in> E \<Longrightarrow> status (store t i) = status (store s i)" "i \<in> E \<Longrightarrow> placed s i \<Longrightarrow> placed t i"
    "depends_on (store t i) = depends_on (store s i)"
    "status (store s i) = CANCELLED \<Longrightarrow> status (store t i) = CANCELLED"
    "i \<in> set (jobs t) \<Longrightarrow> i \<in> set (jobs s)" "cancel_requested s \<subseteq> cancel_requested t"
    "i \<in> cancel_requested t \<Longrightarrow> i \<in> E \<Longrightarrow> i \<in> cancel_requested s"
  using assms unfolding untouched_def by blast+

lemma untouched_trans [trans]:
  assumes "untouched E s t" "untouched E t u"
  shows "untouched E s u"
proof -
  note st = untouchedD [OF assms(1)] and tu = untouchedD [OF assms(2)]
  show ?thesis
    unfolding untouched_def
  proof (intro conjI ballI allI impI subsetI)
    show "status (store u i) = status (store s i)" if "i \<in> E" for i using st(1) tu(1) that by simp
    show "placed u i" if "i \<in> E" "placed s i" for i using st(2) tu(2) that by blast
    show "depends_on (store u i) = depends_on (store s i)" for i using st(3) tu(3) by simp
    show "status (store u i) = CANCELLED" if "status (store s i) = CANCELLED" for i using st(4) tu(4) that by blast
    show "i \<in> set (jobs s)" if "i \<in> set (jobs u)" for i using st(5) tu(5) that by blast
    show "i \<in> cancel_requested u" if "i \<in> cancel_requested s" for i using st(6) tu(6) that by blast
    show "i \<in> cancel_requested s" if "i \<in> cancel_requested u \<inter> E" for i using st(7) tu(7) that by blast
  qed
qed

lemma closed_untouched: "closed_chain E s \<Longrightarrow> untouched E s t \<Longrightarrow> closed_chain E t"
  by (auto simp: closed_chain_def untouched_def)

lemma for_each_untouched:
  "(\<And>x t. x \<in> set xs \<Longrightarrow> closed_chain E t \<Longrightarrow> untouched E s t \<Longrightarrow> untouched E t (snd (f x t))) \<Longrightarrow>
   closed_chain E s \<Longrightarrow> untouched E s (snd (for_each f xs s))"
proof (induction xs arbitrary: s)
  case (Cons x xs)
  have x: "untouched E s (snd (f x s))" using Cons.prems by (simp add: untouched_refl)
  obtain r t where r: "f x s = (r, t)" by fastforce
  have "untouched E t (snd (for_each f xs t))"
  proof (rule Cons.IH)
    show "closed_chain E t" using closed_untouched [OF Cons.prems(2) x] r by simp
    fix y u assume "y \<in> set xs" "closed_chain E u" "untouched E t u"
    then show "untouched E u (snd (f y u))"
      using Cons.prems(1) [of y u] untouched_trans [of E s t u] x r by simp
  qed
  then show ?case using x r untouched_trans [of E s t] by (cases r) auto
qed (simp add: untouched_refl)


lemma untouchedI:
  assumes "\<And>i. i \<in> E \<Longrightarrow> status (store t i) = status (store s i)" "\<And>i. i \<in> E \<Longrightarrow> placed s i \<Longrightarrow> placed t i"
    "\<And>i. depends_on (store t i) = depends_on (store s i)"
    "\<And>i. status (store s i) = CANCELLED \<Longrightarrow> status (store t i) = CANCELLED"
    "set (jobs t) \<subseteq> set (jobs s)" "cancel_requested t = cancel_requested s"
  shows "untouched E s t"
  using assms unfolding untouched_def by blast

lemma untouched_mark:
  assumes "now_iso s = (now, s0)" "mark_terminal now CANCELLED err (store s0 jid) = Inr j" "jid \<notin> E"
  shows "untouched E s (upd_job jid (\<lambda>_. j) s0)" "status (store (upd_job jid (\<lambda>_. j) s0) jid) = CANCELLED"
    "jobs (upd_job jid (\<lambda>_. j) s0) = jobs s"
proof -
  have s0: "s0 = s\<lparr>ticks := Suc (ticks s)\<rparr>" using assms(1) by (auto simp: now_iso_def)
  have j: "status j = CANCELLED" "depends_on j = depends_on (store s jid)"
    using assms(2) by (auto simp: mark_terminal_spec s0)
  have "placed (upd_job jid (\<lambda>_. j) s0) i = placed s i" for i
    unfolding s0 by (rule placed_eqI) simp_all
  then show "untouched E s (upd_job jid (\<lambda>_. j) s0)"
    using assms(3) j by (intro untouchedI) (auto simp: s0)
  show "status (store (upd_job jid (\<lambda>_. j) s0) jid) = CANCELLED" "jobs (upd_job jid (\<lambda>_. j) s0) = jobs s"
    by (simp_all add: j s0)
qed

lemma untouched_release_slot:
  assumes "jid \<notin> E"
  shows "untouched E s (release_lane_slot jid s)"
proof -
  have "lane_queue (get_lane n (release_lane_slot jid s)) = lane_queue (get_lane n s) \<and>
      active (get_lane n (release_lane_slot jid s)) = keys_pop jid (active (get_lane n s))" for n
    by (cases n) (simp_all add: release_lane_slot_def lane_names_def lane_release_def)
  moreover have "remote_dispatch (release_lane_slot jid s) = remote_dispatch s"
    by (simp add: release_lane_slot_def lane_names_def)
  ultimately have pl: "i \<noteq> jid \<Longrightarrow> placed (release_lane_slot jid s) i = placed s i" for i
    by (auto simp: placed_def)
  show ?thesis
  proof (rule untouchedI)
    show "placed (release_lane_slot jid s) i" if "i \<in> E" "placed s i" for i
    proof -
      have "i \<noteq> jid" using assms that(1) by blast
      then show ?thesis using pl that(2) by blast
    qed
  qed (simp_all add: release_lane_slot_def lane_names_def)
qed

lemma untouched_same:
  assumes "\<And>i. status (store t i) = status (store s i) \<and> depends_on (store t i) = depends_on (store s i)"
    "compile_lane t = compile_lane s" "upload_lane t = upload_lane s"
    "thread_upload_lane t = thread_upload_lane s" "remote_dispatch t = remote_dispatch s"
    "set (jobs t) \<subseteq> set (jobs s)" "cancel_requested t = cancel_requested s"
  shows "untouched E s t"
  using assms placed_eqI [OF assms(2-5)] by (intro untouchedI) simp_all

text \<open>The part of a cancelling finalisation that comes before its dependents.\<close>

definition finalize_head :: "string \<Rightarrow> FirmwareJob \<Rightarrow> fw \<Rightarrow> fw" where
  "finalize_head jid j s0 =
     fire_job_lifecycle JOB_CANCELLED jid
       (release_lane_slot jid (defer_install_if_target_offline jid (upd_job jid (\<lambda>_. j) s0)))"

lemma finalize_fuel_cancelled:
  "finalize_fuel (Suc n) jid CANCELLED err s =
     (case now_iso s of (now, s0) \<Rightarrow>
        (case mark_terminal now CANCELLED err (store s0 jid) of
           Inl e \<Rightarrow> (Inl e, s)
         | Inr j \<Rightarrow> (case release_dependents_with (finalize_fuel n) jid (finalize_head jid j s0) of
                       (Inl e, s5) \<Rightarrow> (Inl e, s5)
                     | (Inr u, s5) \<Rightarrow> (Inr (), (on_job_terminal jid s5)\<lparr>build_gate := True\<rparr>))))"
proof -
  have "STATUS_TO_TERMINAL_EVENT CANCELLED = JOB_CANCELLED" by (simp add: STATUS_TO_TERMINAL_EVENT_def)
  then show ?thesis unfolding finalize_fuel.simps finalize_head_def Let_def by (simp only:)
qed

lemma untouched_head:
  assumes "now_iso s = (now, s0)" "mark_terminal now CANCELLED err (store s0 jid) = Inr j" "jid \<notin> E"
  shows "untouched E s (finalize_head jid j s0)" "status (store (finalize_head jid j s0) jid) = CANCELLED"
proof -
  let ?m = "upd_job jid (\<lambda>_. j) s0"
  note m = untouched_mark [OF assms]
  obtain b where b: "defer_install_if_target_offline jid ?m = upd_job jid (\<lambda>j. j\<lparr>is_deferred_install := b\<rparr>) ?m"
    using defer_eq by blast
  let ?d = "upd_job jid (\<lambda>j. j\<lparr>is_deferred_install := b\<rparr>) ?m"
  have d: "untouched E ?m ?d" by (rule untouched_same) simp_all
  have r: "untouched E ?d (release_lane_slot jid ?d)" by (rule untouched_release_slot [OF assms(3)])
  have f: "untouched E (release_lane_slot jid ?d) (finalize_head jid j s0)"
    unfolding finalize_head_def b fire_job_lifecycle_def by (rule untouched_same) (simp_all add: Let_def)
  show u: "untouched E s (finalize_head jid j s0)"
    using m(1) d r f untouched_trans by blast
  show "status (store (finalize_head jid j s0) jid) = CANCELLED"
    using untouchedD(4) [OF d m(2)] untouchedD(4) [OF r] untouchedD(4) [OF f] by blast
qed

lemma outside_dependents:
  assumes "closed_chain E s" "jid \<notin> E" "d \<in> set (dependents s jid)"
  shows "d \<notin> E"
  using assms by (auto simp: closed_chain_def dependents_def split: if_splits)

lemma finalize_fuel_untouched:
  "jid \<notin> E \<Longrightarrow> closed_chain E s \<Longrightarrow> untouched E s (snd (finalize_fuel n jid CANCELLED err s))"
proof (induction n arbitrary: jid err s)
  case (Suc n)
  obtain now s0 where now: "now_iso s = (now, s0)" by fastforce
  obtain j where j: "mark_terminal now CANCELLED err (store s0 jid) = Inr j"
    using mark_terminal_ok [of CANCELLED now err "store s0 jid"] by auto
  define h where "h = finalize_head jid j s0"
  have h: "untouched E s h" "status (store h jid) = CANCELLED"
    using untouched_head [OF now j Suc.prems(1)] by (simp_all add: h_def)
  have ch: "closed_chain E h" by (rule closed_untouched [OF Suc.prems(2) h(1)])
  have loop: "untouched E h (snd (release_dependents_with (finalize_fuel n) jid h))"
    unfolding release_dependents_with_def
  proof (rule for_each_untouched [OF _ ch])
    fix d t assume d: "d \<in> set (dependents h jid)" and t: "closed_chain E t" "untouched E h t"
    have "status (store t jid) = CANCELLED" by (rule untouchedD(4) [OF t(2) h(2)])
    moreover have "d \<notin> E" by (rule outside_dependents [OF ch Suc.prems(1) d])
    ultimately show "untouched E t (snd (release_one (finalize_fuel n) jid d t))"
      using Suc.IH [OF _ t(1)] untouched_refl by (simp add: release_one_def)
  qed
  obtain r s5 where r: "release_dependents_with (finalize_fuel n) jid h = (r, s5)" by fastforce
  have s5: "untouched E s s5" using untouched_trans [OF h(1) loop] r by simp
  moreover have "untouched E s5 ((on_job_terminal jid s5)\<lparr>build_gate := True\<rparr>)"
    by (rule untouched_same) (simp_all add: on_job_terminal_def revert_rename_def)
  ultimately have "untouched E s ((on_job_terminal jid s5)\<lparr>build_gate := True\<rparr>)" by (rule untouched_trans)
  moreover have "snd (finalize_fuel (Suc n) jid CANCELLED err s) =
      (if isl r then s5 else (on_job_terminal jid s5)\<lparr>build_gate := True\<rparr>)"
    unfolding finalize_fuel_cancelled now j prod.case sum.case h_def [symmetric] r by (cases r) simp_all
  ultimately show ?case using s5 by (simp only: split: if_split) blast
qed (simp add: untouched_refl)


lemma fold_flush_any:
  "status (store (fold flush_output is s) i) = status (store s i)"
  "depends_on (store (fold flush_output is s) i) = depends_on (store s i)"
  by (induction "is" arbitrary: s) (simp_all add: flush_output_def write_job_sidecar_def)

lemma untouched_persist: "untouched E s (persist_jobs s)"
  by (rule untouched_same) (simp_all add: persist_jobs_def Let_def reconcile_sidecars_def fold_flush_any)

lemma untouched_save:
  assumes "\<forall>i \<in> set (jobs s). job_id (store s i) = i"
  shows "untouched E s (save_history s)"
proof -
  have "set (jobs (prune_history s)) \<subseteq> set (jobs s)"
    using set_prune_list [of "job_values s"] assms by (auto simp: prune_history_def job_values_def)
  then have "untouched E s (prune_history s)" by (intro untouched_same) (simp_all add: prune_history_def)
  then show ?thesis unfolding save_history_def using untouched_trans untouched_persist by blast
qed

lemma untouched_discard: "jid \<notin> E \<Longrightarrow> untouched E s (upd_pool (discard jid) s)"
proof (rule untouchedI)
  show "placed (upd_pool (discard jid) s) i" if "jid \<notin> E" "i \<in> E" "placed s i" for i
  proof -
    have "i \<noteq> jid" using that by blast
    then show ?thesis using that(3) by (auto simp: placed_def discard_def)
  qed
qed simp_all

lemma untouched_on_job_terminal: "untouched E s (on_job_terminal jid s)"
  by (rule untouched_same) (simp_all add: on_job_terminal_def revert_rename_def)

lemma release_dependents_untouched:
  assumes "jid \<notin> E" "closed_chain E s" "status (store s jid) = CANCELLED"
  shows "untouched E s (snd (release_dependents jid s))"
  unfolding release_dependents_def release_dependents_with_def
proof (rule for_each_untouched [OF _ assms(2)])
  fix d t assume d: "d \<in> set (dependents s jid)" and t: "closed_chain E t" "untouched E s t"
  have "status (store t jid) = CANCELLED" by (rule untouchedD(4) [OF t(2) assms(3)])
  moreover have "d \<notin> E" by (rule outside_dependents [OF assms(2,1) d])
  ultimately show "untouched E t (snd (release_one (finalize_fuel (Suc (held_count s))) jid d t))"
    using finalize_fuel_untouched [OF _ t(1)] untouched_refl
    by (simp add: release_one_def del: finalize_fuel.simps)
qed

lemma cancel_queued_untouched:
  assumes "wf s" "jid \<in> set (jobs s)" "status (store s jid) = QUEUED" "jid \<notin> E" "closed_chain E s"
  shows "untouched E s (snd (cancel_queued jid s))"
proof -
  define s1 where "s1 = upd_pool (discard jid) s"
  have q1: "quiet s s1" unfolding s1_def using quiet_discard assms(1,3) by simp
  obtain now s2 where now: "now_iso s1 = (now, s2)" by fastforce
  obtain j where j: "mark_terminal now CANCELLED None (store s2 jid) = Inr j"
    using mark_terminal_ok [of CANCELLED now None "store s2 jid"] by auto
  define m where "m = upd_job jid (\<lambda>_. j) s2"
  have m: "only_stranded jid s1 m"
    unfolding m_def using assms(2,3) by (intro only_stranded_mark [OF quiet_wf [OF q1] _ _ now j]) (simp_all add: s1_def)
  note wfm = only_strandedD(2) [OF m]
  define s4 where "s4 = fire_job_lifecycle JOB_CANCELLED jid (save_history m)"
  have um: "untouched E s m"
    unfolding m_def
    using untouched_trans [OF untouched_discard [OF assms(4)] untouched_mark(1) [OF now [unfolded s1_def] j assms(4)]]
    by simp
  have u3: "untouched E m (save_history m)" using wfD(8) [OF wfm] by (intro untouched_save) blast
  have u4: "untouched E (save_history m) s4"
    unfolding s4_def fire_job_lifecycle_def by (rule untouched_same) (simp_all add: Let_def)
  have u: "untouched E s s4" using um u3 u4 untouched_trans by blast
  have c4: "status (store s4 jid) = CANCELLED"
    using untouchedD(4) [OF u4] untouchedD(4) [OF u3] only_strandedD(3) [OF m] by blast
  define r where "r = release_dependents jid s4"
  have ur: "untouched E s4 (snd r)"
    unfolding r_def by (rule release_dependents_untouched [OF assms(4) closed_untouched [OF assms(5) u] c4])
  have wfr: "wf (snd r)"
  proof -
    have "only_stranded jid s1 s4"
    proof -
      have nf: "jid \<notin> fresh_ids s1" using wfD(4) [OF quiet_wf [OF q1]] assms(2) by (simp add: s1_def)
      have s3: "only_stranded jid s1 (save_history m)"
        by (rule only_stranded_step [OF m quiet_wf [OF q1] nf safe_save [OF wfm] save_status [OF wfm]])
      have q4: "quiet (save_history m) s4"
        unfolding s4_def by (rule quiet_fire_job_lifecycle [OF only_strandedD(2) [OF s3]])
      show ?thesis
        by (rule only_stranded_step [OF s3 quiet_wf [OF q1] nf safe_quiet [OF only_strandedD(2) [OF s3] q4]
              quiet_status [OF q4]])
    qed
    then obtain t where "release_dependents jid s4 = (Inr (), t)" "safe s1 t"
      using settle_dependents [of jid s1 s4] quiet_wf [OF q1] assms(2,3) by (auto simp: s1_def)
    then show ?thesis by (simp add: r_def safeD(2))
  qed
  have "untouched E (snd r) (save_history (snd r))"
    using wfD(8) [OF wfr] by (intro untouched_save) blast
  then have "untouched E s4 (on_job_terminal jid (if release_acts jid s4 then save_history (snd r) else snd r))"
    using ur untouched_trans untouched_on_job_terminal by (auto split: if_split)
  then have "untouched E s (on_job_terminal jid (if release_acts jid s4 then save_history (snd r) else snd r))"
    "untouched E s (snd r)"
    using u ur untouched_trans by blast+
  moreover have "snd (cancel_queued jid s) =
      (if isl (fst r) then snd r
       else on_job_terminal jid (if release_acts jid s4 then save_history (snd r) else snd r))"
    using now j unfolding cancel_queued_def s1_def [symmetric]
    by (auto simp: Let_def s4_def [symmetric] m_def [symmetric] r_def split: sum.splits prod.splits)
  ultimately show ?thesis by simp
qed


lemma cancel_running_untouched:
  assumes "jid \<notin> E"
  shows "untouched E s (snd (cancel_running jid s))"
proof -
  have "placed (request_cancel jid s) i = placed s i" for i
    by (rule placed_eqI) (simp_all add: request_cancel_def)
  then have r: "untouched E s (request_cancel jid s)"
    using assms by (auto simp: untouched_def request_cancel_def)
  have "untouched E (request_cancel jid s) (terminate_job_process jid (request_cancel jid s))"
    by (rule untouched_same) (simp_all add: terminate_job_process_def)
  then show ?thesis using r untouched_trans untouched_refl by (auto simp: cancel_running_def)
qed

lemma cancel_fuel_untouched:
  "wf s \<Longrightarrow> jid \<notin> E \<Longrightarrow> closed_chain E s \<Longrightarrow> untouched E s (snd (cancel_fuel n jid s))"
proof (induction n arbitrary: jid s)
  case (Suc n)
  show ?case
  proof (cases "jid \<in> set (jobs s) \<and> status (store s jid) = QUEUED")
    case True
    obtain s1 where s1: "cancel_queued jid s = (Inr (), s1)" "safe s s1"
      using cancel_queued_ok [OF Suc.prems(1)] True by metis
    have u1: "untouched E s s1" using cancel_queued_untouched [OF Suc.prems(1) _ _ Suc.prems(2,3)] True s1(1) by fastforce
    let ?p = "depends_on (store s1 jid)"
    let ?go = "is_rename_tail (store s1 jid) \<and> ?p \<in> set (jobs s1) \<and> is_active (store s1 ?p)"
    have p: "?p \<notin> E" if ?go
    proof -
      have "depends_on (store s jid) = ?p" "?p \<noteq> []"
        using untouchedD(3) [OF u1] that by (auto simp: is_rename_tail_def)
      then show ?thesis using Suc.prems(2,3) True by (auto simp: closed_chain_def)
    qed
    have rec: "untouched E s1 (snd (cancel_fuel n ?p s1))" if ?go
      by (rule Suc.IH [OF safeD(2) [OF s1(2)] p [OF that] closed_untouched [OF Suc.prems(3) u1]])
    have gate: "untouched E t (t\<lparr>build_gate := True\<rparr>)" for t by (rule untouched_same) simp_all
    obtain r s2 where r: "(if ?go then cancel_fuel n ?p s1 else (Inr (), s1)) = (r, s2)" by fastforce
    have u2: "untouched E s s2"
    proof (cases ?go)
      case True
      then show ?thesis using rec r untouched_trans [OF u1, of s2] by simp
    next
      case False
      then have "s2 = s1" using r by auto
      then show ?thesis using u1 by simp
    qed
    have "snd (cancel_fuel (Suc n) jid s) = (if isl r then s2 else s2\<lparr>build_gate := True\<rparr>)"
      using True s1(1) r by (cases r) (simp_all add: Let_def)
    then show ?thesis using u2 untouched_trans [OF u2 gate] by simp
  next
    case False
    then show ?thesis
      using cancel_running_untouched [OF Suc.prems(2), of s] untouched_refl [of E s] by simp
  qed
qed (simp add: untouched_refl)

text \<open>One cancel of a sweep, in a well-formed state: it never fails, and an active job ends or is flagged.\<close>

lemma cancel_swallowing_ok:
  assumes "wf s"
  obtains u where "cancel_swallowing g jid s = (Inr (), u)" "safe s u"
    "jid \<notin> E \<Longrightarrow> closed_chain E s \<Longrightarrow> untouched E s u"
    "jid \<in> set (jobs s) \<Longrightarrow> is_active (store s jid) \<Longrightarrow> status (store u jid) = CANCELLED \<or> jid \<in> cancel_requested u"
proof (cases "jid \<in> set (jobs s) \<and> is_active (store s jid)")
  case True
  have "card {i. held s i} < Suc (held_count s)" using held_count_card [OF wfD(1) [OF assms]] by simp
  then obtain u where u: "cancel jid s = (Inr (), u)" "cancelled_by jid s u"
    using cancel_fuel_ok [OF assms] True unfolding cancel_def by blast
  have "jid \<notin> E \<Longrightarrow> closed_chain E s \<Longrightarrow> untouched E s u"
    using cancel_fuel_untouched [OF assms, of jid E "Suc (held_count s)"] u(1) by (simp add: cancel_def)
  then show thesis
    using that [of u] u True by (auto simp: cancel_swallowing_def cancelled_by_def is_active_iff)
next
  case False
  then have "cancel_swallowing g jid s = (Inr (), s)"
    by (auto simp: cancel_swallowing_def cancel_def swallowed_def is_active_iff)
  then show thesis using that [of s] safe_refl [OF assms] untouched_refl False by blast
qed

lemma cancel_requested_mono:
  assumes "wf s"
  shows "cancel_requested s \<subseteq> cancel_requested (snd (cancel_swallowing g jid s))"
proof -
  have "closed_chain {} s" by (auto simp: closed_chain_def)
  then show ?thesis using cancel_swallowing_ok [OF assms, of g jid "{}"] untouchedD(6) by (metis empty_iff snd_conv)
qed

lemma sweep_ok:
  "wf s \<Longrightarrow> \<forall>i \<in> set is. i \<notin> fresh_ids s \<and> (is_active (store s i) \<longrightarrow> i \<in> set (jobs s)) \<Longrightarrow>
   \<exists>u. for_each (cancel_swallowing g) is s = (Inr (), u) \<and> safe s u \<and>
     cancel_requested s \<subseteq> cancel_requested u \<and>
     (set is \<inter> E = {} \<and> closed_chain E s \<longrightarrow> untouched E s u) \<and>
     (\<forall>i \<in> set is. is_terminal (store u i) \<or> i \<in> cancel_requested u)"
proof (induction "is" arbitrary: s)
  case Nil
  then show ?case by (simp add: safe_refl untouched_refl)
next
  case (Cons i "is")
  obtain t where t: "cancel_swallowing g i s = (Inr (), t)" "safe s t"
      "i \<notin> E \<Longrightarrow> closed_chain E s \<Longrightarrow> untouched E s t"
      "i \<in> set (jobs s) \<Longrightarrow> is_active (store s i) \<Longrightarrow> status (store t i) = CANCELLED \<or> i \<in> cancel_requested t"
    using cancel_swallowing_ok [OF Cons.prems(1), of g i E] by blast
  have mono: "cancel_requested s \<subseteq> cancel_requested t"
    using cancel_requested_mono [OF Cons.prems(1), of g i] t(1) by simp
  note st = safeD [OF t(2)]
  have i: "is_terminal (store t i) \<or> i \<in> cancel_requested t"
  proof (cases "is_active (store s i)")
    case True
    then show ?thesis using t(4) Cons.prems(2) by (auto simp: is_terminal_def)
  next
    case False
    then show ?thesis
      using evolves_active [OF st(1)] Cons.prems(2) by (auto simp: is_terminal_iff_not_active)
  qed
  have "\<forall>k \<in> set is. k \<notin> fresh_ids t \<and> (is_active (store t k) \<longrightarrow> k \<in> set (jobs t))"
  proof
    fix k assume "k \<in> set is"
    then have k: "k \<notin> fresh_ids s" "is_active (store s k) \<Longrightarrow> k \<in> set (jobs s)" using Cons.prems(2) by simp_all
    then show "k \<notin> fresh_ids t \<and> (is_active (store t k) \<longrightarrow> k \<in> set (jobs t))"
      using evolvesD(8) [OF st(1) k(1)] evolves_active [OF st(1) k(1)] st(5) by blast
  qed
  then obtain u where u: "for_each (cancel_swallowing g) is t = (Inr (), u)" "safe t u"
      "cancel_requested t \<subseteq> cancel_requested u" "set is \<inter> E = {} \<and> closed_chain E t \<longrightarrow> untouched E t u"
      "\<forall>i \<in> set is. is_terminal (store u i) \<or> i \<in> cancel_requested u"
    using Cons.IH [OF st(2)] by blast
  have "i \<notin> fresh_ids t" using evolvesD(8) [OF st(1)] Cons.prems(2) by simp
  then have "is_terminal (store u i) \<or> i \<in> cancel_requested u"
    using i u(3) evolvesD(5) [OF safeD(1) [OF u(2)]] by (auto simp: is_terminal_def)
  moreover have "untouched E s u" if "set (i # is) \<inter> E = {}" "closed_chain E s"
  proof -
    have "untouched E s t" using t(3) that by simp
    then show ?thesis using u(4) closed_untouched [OF that(2)] untouched_trans that(1) by auto
  qed
  ultimately show ?case
    using t(1) u safe_trans [OF Cons.prems(1) t(2) u(2)] mono by auto
qed

text \<open>A sweep, with the spared set \<open>E\<close>.\<close>

lemma cancel_active_jobs_ok:
  assumes "wf s" "closed_chain E s"
  obtains u where "cancel_active_jobs E conf s = (Inr (), u)" "safe s u" "untouched E s u"
    "\<And>i. i \<in> set (jobs s) \<Longrightarrow> i \<notin> E \<Longrightarrow> conf = None \<or> conf = Some (configuration (store s i)) \<Longrightarrow>
       is_terminal (store u i) \<or> i \<in> cancel_requested u"
proof -
  let ?is = "to_cancel E conf s"
  have pre: "\<forall>i \<in> set ?is. i \<notin> fresh_ids s \<and> (is_active (store s i) \<longrightarrow> i \<in> set (jobs s))"
    using wfD(4) [OF assms(1)] by (auto simp: to_cancel_def active_jobs_def)
  have "set ?is \<inter> E = {}" by (auto simp: to_cancel_def)
  then obtain u where u: "cancel_active_jobs E conf s = (Inr (), u)" "safe s u" "untouched E s u"
      "\<forall>i \<in> set ?is. is_terminal (store u i) \<or> i \<in> cancel_requested u"
    using sweep_ok [OF assms(1) pre, of "conf = None" E] assms(2) unfolding cancel_active_jobs_def by blast
  have "is_terminal (store u i) \<or> i \<in> cancel_requested u"
    if i: "i \<in> set (jobs s)" "i \<notin> E" "conf = None \<or> conf = Some (configuration (store s i))" for i
  proof (cases "is_active (store s i)")
    case True
    then have "i \<in> set ?is" using i by (auto simp: to_cancel_def active_jobs_def)
    then show ?thesis using u(4) by blast
  next
    case False
    then show ?thesis
      using evolves_active [OF safeD(1) [OF u(2)] wfD(4) [OF assms(1) i(1)]] by (auto simp: is_terminal_iff_not_active)
  qed
  then show thesis using that u(1-3) by blast
qed



section \<open>Placing a chain\<close>

lemma place_and_announce_ok:
  assumes "wf s" "i \<notin> fresh_ids s"
  shows "steps_ok s (place_and_announce i s)" "jobs (place_and_announce i s) = jobs s"
    "status (store (place_and_announce i s) k) = status (store s k)"
    "orphan (place_and_announce i s) k \<Longrightarrow> orphan s k"
    "cancel_requested (place_and_announce i s) = cancel_requested s"
    "dependency_satisfied s (store s i) \<Longrightarrow> placed (place_and_announce i s) i"
    "configuration (store (place_and_announce i s) k) = configuration (store s k)"
proof -
  let ?p = "if dependency_satisfied s (store s i) then place_on_lane i s else s"
  have ok: "steps_ok s ?p"
  proof (cases "dependency_satisfied s (store s i)")
    case True
    then have "depends_on (store s i) \<in> set (jobs s) \<and> status (store s (depends_on (store s i))) = COMPLETED"
      if "depends_on (store s i) \<noteq> []"
      using that by (auto simp: dependency_satisfied_def get_job_obj_def split: if_splits)
    then have "steps_ok s (place_on_lane i s)"
      using wfD(4) [OF assms(1)] by (intro steps_ok_place_on_lane [OF assms]) blast
    then show ?thesis using True by simp
  qed (simp add: steps_ok_refl assms(1))
  have eq: "place_and_announce i s = fire_event (Lifecycle JOB_QUEUED (store ?p i)) ?p"
    by (simp add: place_and_announce_def Let_def)
  have q: "quiet ?p (place_and_announce i s)" unfolding eq by (rule quiet_fire_event [OF steps_okD(2) [OF ok]])
  show "steps_ok s (place_and_announce i s)" using steps_ok_trans [OF ok] q by (simp add: quiet_def)
  show "jobs (place_and_announce i s) = jobs s"
    "status (store (place_and_announce i s) k) = status (store s k)"
    "cancel_requested (place_and_announce i s) = cancel_requested s"
    "configuration (store (place_and_announce i s) k) = configuration (store s k)"
    unfolding eq by (simp_all add: place_on_lane_store)
  have "orphan ?p k \<Longrightarrow> orphan s k"
    using orphan_place_on_lane [of i s k] by (cases "dependency_satisfied s (store s i)") simp_all
  then show "orphan (place_and_announce i s) k \<Longrightarrow> orphan s k"
    using quiet_orphan [OF steps_okD(2) [OF ok] q] by blast
  show "dependency_satisfied s (store s i) \<Longrightarrow> placed (place_and_announce i s) i"
    using placed_placed [of i s] placed_eqI(1) [of "place_and_announce i s" ?p i] by (simp add: eq)
qed

lemma create_orphan:
  assumes "create_job conf ty kwargs b s = (jid, t)" "wf s" "orphan t i"
  shows "orphan s i \<or> i = jid"
proof -
  note fr = create_job_fresh [OF assms(1,2)]
  have old: "store t k = store s k" "k \<in> set (jobs t)" if "k \<in> set (jobs s)" for k
  proof -
    have "k \<noteq> jid" using that fr(3) by auto
    then show "store t k = store s k" by (rule fr(10))
    show "k \<in> set (jobs t)" using that fr(6) by simp
  qed
  show ?thesis
  proof (cases "i = jid")
    case False
    then have "store t i = store s i" by (rule fr(10))
    then show ?thesis using assms(3) False old fr(6) unfolding orphan_def held_def by auto
  qed simp
qed


text \<open>Creating the two halves of a chain in a well-formed state, and rolling them out again.\<close>

lemma create_chain:
  assumes "wf s" "create_job conf COMPILE k1 b1 s = (cid, s1)" "create_job conf' ty k2 b2 s1 = (uid, s2)"
    "\<And>j. dependency_released (k1 j) = dependency_released j \<and> job_id (k1 j) = job_id j \<and> status (k1 j) = status j \<and>
       depends_on (k1 j) = depends_on j \<and> configuration (k1 j) = configuration j"
    "\<And>j. dependency_released (k2 j) = dependency_released j \<and> job_id (k2 j) = job_id j \<and> status (k2 j) = status j \<and>
       depends_on (k2 j) = cid \<and> configuration (k2 j) = configuration j"
  shows "wf s2" "evolves s s2" "cid \<noteq> uid" "cid \<notin> set (jobs s)" "uid \<notin> set (jobs s)" "cid \<noteq> []"
    "jobs s2 = jobs s @ [cid, uid]" "\<And>i. i \<noteq> cid \<Longrightarrow> i \<noteq> uid \<Longrightarrow> store s2 i = store s i"
    "\<And>i. orphan s2 i \<Longrightarrow> orphan s i" "closed_chain {cid, uid} s2" "cid \<notin> fresh_ids s2" "uid \<notin> fresh_ids s2"
    "status (store s2 cid) = QUEUED" "status (store s2 uid) = QUEUED"
    "depends_on (store s2 cid) = []" "depends_on (store s2 uid) = cid"
    "configuration (store s2 cid) = conf" "configuration (store s2 uid) = conf'"
    "job_type (store s2 cid) = job_type (k1 (new_FirmwareJob cid conf COMPILE\<lparr>created_at := clock s (ticks s)\<rparr>))"
    "cancel_requested s2 = cancel_requested s"
proof -
  note f1 = create_job_fresh [OF assms(2,1)] and e1 = create_job_eq [OF assms(2)]
  have w1: "wf s1" "evolves s s1"
    using assms(4) by (auto intro!: steps_ok_create_job [OF assms(2,1)])
  note f2 = create_job_fresh [OF assms(3) w1(1)] and e2 = create_job_eq [OF assms(3)]
  show w2: "wf s2" using assms(5) f1(2) by (auto intro!: steps_ok_create_job(2) [OF assms(3) w1(1)])
  have "evolves s1 s2" using assms(5) f1(2) by (auto intro!: steps_ok_create_job(1) [OF assms(3) w1(1)])
  then show "evolves s s2" using w1(2) evolves_trans by blast
  show ne: "cid \<noteq> uid" using f1(6) f2(3) by auto
  show new: "cid \<notin> set (jobs s)" "uid \<notin> set (jobs s)" using f1(3,6) f2(3) by auto
  show "cid \<noteq> []" by (rule f1(5))
  show js: "jobs s2 = jobs s @ [cid, uid]"
    using e1 e2 f1(3) f2(3) by (auto simp: keys_add_def)
  show "store s2 i = store s i" if "i \<noteq> cid" "i \<noteq> uid" for i using f1(10) f2(10) that by simp
  have cid: "store s2 cid = store s1 cid" using f2(10) ne by blast
  show q: "status (store s2 cid) = QUEUED" "depends_on (store s2 cid) = []" "configuration (store s2 cid) = conf"
    "job_type (store s2 cid) = job_type (k1 (new_FirmwareJob cid conf COMPILE\<lparr>created_at := clock s (ticks s)\<rparr>))"
    unfolding cid using e1 assms(4) by (simp_all add: apply_build_source_def new_FirmwareJob_def)
  show u: "status (store s2 uid) = QUEUED" "depends_on (store s2 uid) = cid" "configuration (store s2 uid) = conf'"
    using e2 assms(5) by (simp_all add: apply_build_source_def new_FirmwareJob_def)
  show "cid \<notin> fresh_ids s2" "uid \<notin> fresh_ids s2"
    using f1(2) f2(2,8) by blast+
  show "cancel_requested s2 = cancel_requested s" using e1 e2 by simp
  show "orphan s i" if "orphan s2 i" for i
  proof -
    have "i \<noteq> uid" using that js q(1) u(2) by (auto simp: orphan_def is_active_iff)
    moreover have "i \<noteq> cid" using that q(2) by (auto simp: orphan_def held_def)
    ultimately show ?thesis
      using create_orphan [OF assms(3) w1(1) that] create_orphan [OF assms(2,1)] by blast
  qed
  show "closed_chain {cid, uid} s2"
    unfolding closed_chain_def
  proof (intro ballI impI)
    fix i assume i: "i \<in> set (jobs s2)" "depends_on (store s2 i) \<noteq> []"
    show "i \<in> {cid, uid} \<longleftrightarrow> depends_on (store s2 i) \<in> {cid, uid}"
    proof (cases "i \<in> {cid, uid}")
      case True
      then show ?thesis using i(2) q(2) u(2) by auto
    next
      case False
      then have "i \<in> set (jobs s)" using i(1) js by auto
      then have "depends_on (store s i) \<notin> fresh_ids s" "store s2 i = store s i"
        using wfD(10) [OF assms(1)] f1(10) f2(10) False by auto
      moreover have "cid \<in> fresh_ids s" "uid \<in> fresh_ids s" using f1(1,8) f2(1) by auto
      ultimately show ?thesis using False by auto
    qed
  qed
qed


lemma disk_ids:
  assumes "wf s"
  shows "map job_id (disk_jobs (persist_jobs s)) = persisted_ids s"
proof -
  let ?t = "reconcile_sidecars (persisted_ids s) (fold flush_output (persisted_ids s) s)"
  have "disk_jobs (persist_jobs s) = map (\<lambda>i. metadata_row (store ?t i)) (persisted_ids s)"
    by (simp add: persist_jobs_def Let_def)
  moreover have "store ?t i = store (persist_jobs s) i" for i by (simp add: persist_jobs_def Let_def)
  ultimately have eq: "disk_jobs (persist_jobs s) = map (\<lambda>i. metadata_row (store (persist_jobs s) i)) (persisted_ids s)"
    by simp
  have "job_id (metadata_row (store (persist_jobs s) i)) = i" if "i \<in> set (persisted_ids s)" for i
    using that wfD(8) [OF assms, of i] persist_fields(4) [OF wfD(1) [OF assms], of i]
    by (simp add: metadata_row_def set_persisted_ids)
  then show ?thesis unfolding eq by (simp add: map_idI)
qed

lemma supersede_or_skip:
  assumes "wf s" "closed_chain E s"
  obtains u where "(if conf = [] then (Inr (), s) else supersede_active_jobs conf E s) = (Inr (), u)" "safe s u"
    "untouched E s u"
    "\<And>i. i \<in> set (jobs s) \<Longrightarrow> i \<notin> E \<Longrightarrow> conf \<noteq> [] \<Longrightarrow> configuration (store s i) = conf \<Longrightarrow>
       is_terminal (store u i) \<or> i \<in> cancel_requested u"
proof (cases "conf = []")
  case True
  then show thesis using that [of s] safe_refl [OF assms(1)] untouched_refl by simp
next
  case False
  obtain u where "cancel_active_jobs E (Some conf) s = (Inr (), u)" "safe s u" "untouched E s u"
    "\<And>i. i \<in> set (jobs s) \<Longrightarrow> i \<notin> E \<Longrightarrow> Some conf = None \<or> Some conf = Some (configuration (store s i)) \<Longrightarrow>
       is_terminal (store u i) \<or> i \<in> cancel_requested u"
    using cancel_active_jobs_ok [OF assms, of "Some conf"] by metis
  then show thesis using that [of u] False by (auto simp: supersede_active_jobs_def)
qed

text \<open>Placing and superseding, once both halves exist and passed the lock.\<close>

lemma commit_placed:
  assumes "wf s" "set (jobs s) \<supseteq> {cid, uid}" "cid \<noteq> uid" "closed_chain {cid, uid} s" "status (store s cid) = QUEUED"
    "status (store s uid) = QUEUED" "depends_on (store s cid) = []" "depends_on (store s uid) = cid" "cid \<noteq> []"
  obtains u where
    "(let s2 = fold place_and_announce [uid, cid] s in
        (case (if conf = [] then (Inr (), s2) else supersede_active_jobs conf {uid, cid} s2) of
           (Inl e, s3) \<Rightarrow> (Inl e, s3)
         | (Inr u, s3) \<Rightarrow> (Inr (), persist_jobs s3))) = (Inr (), u)"
    "wf u" "evolves s u" "status (store u cid) = QUEUED" "status (store u uid) = QUEUED" "placed u cid" "\<not> placed u uid"
    "cid \<in> set (jobs u)" "uid \<in> set (jobs u)" "cancel_requested u \<inter> {cid, uid} \<subseteq> cancel_requested s"
    "\<And>i. orphan u i \<Longrightarrow> orphan s i" "\<And>i. i \<in> set (jobs s) \<Longrightarrow> is_active (store u i) \<Longrightarrow> i \<in> set (jobs u)"
    "\<And>i. i \<in> set (jobs s) \<Longrightarrow> i \<notin> {cid, uid} \<Longrightarrow> conf \<noteq> [] \<Longrightarrow> configuration (store s i) = conf \<Longrightarrow>
       is_terminal (store u i) \<or> i \<in> cancel_requested u"
    "map job_id (disk_jobs u) = persisted_ids u"
proof -
  define a where "a = place_and_announce uid s"
  have nf: "uid \<notin> fresh_ids s" "cid \<notin> fresh_ids s" using wfD(4) [OF assms(1)] assms(2) by auto
  note pa = place_and_announce_ok [OF assms(1) nf(1), folded a_def]
  note sa = steps_okD [OF pa(1)]
  define b where "b = place_and_announce cid a"
  note pb = place_and_announce_ok [OF sa(2) evolvesD(8) [OF sa(1) nf(2)], folded b_def]
  note sb = steps_okD [OF pb(1)]
  have ev: "evolves s b" by (rule evolves_trans [OF sa(1) sb(1)])
  have dep: "depends_on (store b i) = depends_on (store s i)" "configuration (store b i) = configuration (store s i)"
    if "i \<in> set (jobs s)" for i
    using evolvesD(1,4) [OF ev wfD(4) [OF assms(1) that]] by blast+
  have jb: "jobs b = jobs s" using pa(2) pb(2) by simp
  have cb: "closed_chain {cid, uid} b" using assms(4) dep jb by (simp add: closed_chain_def)
  have "depends_on (store a cid) = []" using evolvesD(1) [OF sa(1) nf(2)] assms(7) by simp
  then have plc: "placed b cid" by (intro pb(6)) (simp add: dependency_satisfied_def)
  obtain c where c: "(if conf = [] then (Inr (), b) else supersede_active_jobs conf {cid, uid} b) = (Inr (), c)"
      "safe b c" "untouched {cid, uid} b c"
      "\<And>i. i \<in> set (jobs b) \<Longrightarrow> i \<notin> {cid, uid} \<Longrightarrow> conf \<noteq> [] \<Longrightarrow> configuration (store b i) = conf \<Longrightarrow>
         is_terminal (store c i) \<or> i \<in> cancel_requested c"
    using supersede_or_skip [OF sb(2) cb, of conf] by metis
  define u where "u = persist_jobs c"
  note cs = safeD [OF c(2)] and cu = untouchedD [OF c(3)]
  have us: "safe c u" unfolding u_def by (rule safe_persist [OF cs(2)])
  have uu: "untouched {cid, uid} c u" unfolding u_def by (rule untouched_persist)
  note uus = safeD [OF us] and uuu = untouchedD [OF uu]
  have evu: "evolves s u" using ev cs(1) uus(1) evolves_trans by blast
  have st: "status (store u i) = status (store s i)" if "i \<in> {cid, uid}" for i
    using uuu(1) [OF that] cu(1) [OF that] pb(3) pa(3) by simp
  have cr: "cancel_requested b = cancel_requested s" using pa(5) pb(5) by simp
  have ju: "jobs u = jobs c" by (simp add: u_def)
  have inj: "i \<in> set (jobs u)" if "i \<in> {cid, uid}" for i
  proof -
    have "is_active (store c i)" using cu(1) [OF that] pb(3) pa(3) assms(5,6) that by (auto simp: is_active_iff)
    then show ?thesis using cs(5) assms(2) that jb ju by auto
  qed
  have "depends_on (store u uid) = cid" using evolvesD(1) [OF evu nf(1)] assms(8) by simp
  then have np: "\<not> placed u uid"
    using wfD(6,7) [OF uus(2), of uid] st [of cid] assms(5,9) by auto
  show thesis
  proof (rule that [of u])
    show "(let s2 = fold place_and_announce [uid, cid] s in
        (case (if conf = [] then (Inr (), s2) else supersede_active_jobs conf {uid, cid} s2) of
           (Inl e, s3) \<Rightarrow> (Inl e, s3)
         | (Inr u, s3) \<Rightarrow> (Inr (), persist_jobs s3))) = (Inr (), u)"
    proof -
      have "{uid, cid} = {cid, uid}" by blast
      moreover have "fold place_and_announce [uid, cid] s = b" by (simp add: a_def b_def)
      ultimately show ?thesis by (simp only: Let_def c(1) prod.case sum.case u_def)
    qed
    show "placed u cid" using uuu(2) cu(2) plc by blast
    show "orphan u i \<Longrightarrow> orphan s i" for i using uus(4) cs(4) pb(4) pa(4) by blast
    show "cancel_requested u \<inter> {cid, uid} \<subseteq> cancel_requested s"
      using uuu(7) cu(7) cr by blast
    show "i \<in> set (jobs u)" if "i \<in> set (jobs s)" "is_active (store u i)" for i
    proof -
      have "i \<notin> fresh_ids c"
        using evolvesD(8) [OF evolves_trans [OF ev cs(1)] wfD(4) [OF assms(1) that(1)]] .
      then have "is_active (store c i)" using evolves_active [OF uus(1)] that(2) by blast
      then show ?thesis using cs(5) [of i] that(1) jb ju by simp
    qed
    show "map job_id (disk_jobs u) = persisted_ids u"
    proof -
      have "job_type (store u i) = job_type (store c i)" for i
        using persist_fields(5) [OF wfD(1) [OF cs(2)]] by (simp add: u_def)
      then have "persisted_ids u = persisted_ids c" by (simp add: persisted_ids_def ju)
      then show ?thesis using disk_ids [OF cs(2)] by (simp add: u_def)
    qed
    fix i assume i: "i \<in> set (jobs s)" "i \<notin> {cid, uid}" "conf \<noteq> []" "configuration (store s i) = conf"
    have "i \<notin> fresh_ids c"
      using evolvesD(8) [OF evolves_trans [OF ev cs(1)] wfD(4) [OF assms(1) i(1)]] .
    then show "is_terminal (store u i) \<or> i \<in> cancel_requested u"
      using c(4) [of i] i jb dep(2) uuu(6) evolvesD(5) [OF uus(1)] by (auto simp: is_terminal_def)
  qed (use uus(2) evu st assms(5,6) np inj in auto)
qed


text \<open>Rolling both halves out again leaves the dictionary as it was.\<close>

lemma rolled_back:
  assumes "wf s" "wf s2" "evolves s s2" "cid \<notin> set (jobs s)" "uid \<notin> set (jobs s)" "cid \<noteq> uid"
    "jobs s2 = jobs s @ [cid, uid]" "\<And>i. i \<noteq> cid \<Longrightarrow> i \<noteq> uid \<Longrightarrow> store s2 i = store s i"
  shows "wf (roll_out [uid, cid] s2)" "jobs (roll_out [uid, cid] s2) = jobs s" "evolves s (roll_out [uid, cid] s2)"
    "orphan (roll_out [uid, cid] s2) i \<Longrightarrow> orphan s i"
proof -
  let ?u = "roll_out [uid, cid] s2"
  show js: "jobs ?u = jobs s"
    using assms(4-7) by (simp add: roll_out_def) (auto simp: keys_pop_def filter_id_conv)
  show "wf ?u"
  proof (rule wf_shrink [OF assms(2)])
    show "placed ?u i \<Longrightarrow> placed s2 i" "occupied s2 i \<Longrightarrow> occupied ?u i" for i
      using placed_eqI [of ?u s2] by (simp_all add: roll_out_def)
  qed (use js assms(7) wfD(1) [OF assms(1)] in \<open>auto simp: roll_out_def\<close>)
  show "evolves s ?u" by (rule evolves_trans [OF assms(3)], rule evolves_same) (simp_all add: roll_out_def)
  have old: "store ?u k = store s k" if "k \<in> set (jobs s)" for k
    using assms(4,5,8) that by (cases "k = cid \<or> k = uid") (auto simp: roll_out_def)
  show "orphan ?u i \<Longrightarrow> orphan s i" using js old unfolding orphan_def held_def by auto
qed

lemma install_chain_ok:
  assumes "wf s"
  shows "case enqueue_install_chain get_port_type conf p build_source flash_boot s of
      (Inl e, u) \<Rightarrow> jobs u = jobs s \<and> wf u \<and> evolves s u \<and> (\<forall>i. orphan u i \<longrightarrow> orphan s i) \<and>
         (\<exists>i \<in> set (active_jobs s). job_type (store s i) = RENAME \<and>
            e = CommandError INVALID_ARGS (rename_lock_message (store s i)))
    | (Inr cid, u) \<Rightarrow> wf u \<and> evolves s u \<and> (\<forall>i \<in> set (jobs s). is_active (store u i) \<longrightarrow> i \<in> set (jobs u)) \<and>
         (\<exists>uid. cid \<noteq> uid \<and> {cid, uid} \<subseteq> fresh_ids s \<and> {cid, uid} \<inter> set (jobs s) = {} \<and> {cid, uid} \<subseteq> set (jobs u) \<and>
         status (store u cid) = QUEUED \<and> job_type (store u cid) = COMPILE \<and> placed u cid \<and>
         status (store u uid) = QUEUED \<and> job_type (store u uid) = UPLOAD \<and> port (store u uid) = p \<and>
         depends_on (store u uid) = cid \<and> \<not> placed u uid \<and> cancel_requested u \<inter> {cid, uid} \<subseteq> cancel_requested s) \<and>
         (\<forall>i \<in> set (jobs s). configuration (store s i) = conf \<and> conf \<noteq> [] \<longrightarrow>
            is_terminal (store u i) \<or> i \<in> cancel_requested u) \<and>
         (\<forall>i. orphan u i \<longrightarrow> orphan s i) \<and> map job_id (disk_jobs u) = persisted_ids u"
proof -
  let ?k1 = "\<lambda>j. j\<lparr>skip_bootloader := is_ota_app_flash get_port_type p flash_boot\<rparr>"
  obtain cid s1 where c1: "create_job conf COMPILE ?k1 build_source s = (cid, s1)" by fastforce
  let ?k2 = "\<lambda>j. j\<lparr>port := p, flash_bootloader := flash_boot, depends_on := cid\<rparr>"
  obtain uid s2 where c2: "create_job conf UPLOAD ?k2 LOCAL_JOB_BUILD_SOURCE s1 = (uid, s2)" by fastforce
  note ch = create_chain [OF assms c1 c2, simplified]
  have e1: "job_type (store s2 cid) = COMPILE" using ch(19) by (simp add: new_FirmwareJob_def)
  have e2: "job_type (store s2 uid) = UPLOAD" "port (store s2 uid) = p"
    using create_job_eq [OF c2] by (simp_all add: apply_build_source_def new_FirmwareJob_def)
  have fresh: "cid \<in> fresh_ids s" "uid \<in> fresh_ids s"
    using create_job_fresh(1) [OF c1 assms] create_job_eq [OF c1] create_job_eq [OF c2]
    by (auto simp: fresh_ids_def)
  show ?thesis
  proof (cases "check_rename_lock cid {} s2")
    case (Inl e)
    let ?u = "roll_out [uid, cid] s2"
    note rb = rolled_back [OF assms ch(1,2,4,5,3,7,8)]
    have "enqueue_install_chain get_port_type conf p build_source flash_boot s = (Inl e, ?u)"
      using c1 c2 Inl by (simp add: enqueue_install_chain_def commit_chain_def)
    moreover obtain i where i: "i \<in> set (active_jobs s2)" "rename_locks (store s2 i) (store s2 cid)"
        "e = CommandError INVALID_ARGS (rename_lock_message (store s2 i))"
      using check_rename_lock_Inl [OF Inl] by blast
    moreover have "i \<noteq> cid" "i \<noteq> uid" using i(2) e1 e2(1) by (auto simp: rename_locks_def)
    moreover from this have "store s2 i = store s i" using ch(8) by blast
    moreover from this have "i \<in> set (active_jobs s)"
      using calculation ch(7) i(1) by (auto simp: active_jobs_def split: if_splits)
    ultimately show ?thesis using rb by (auto simp: rename_locks_def)
  next
    case (Inr x)
    obtain u where u:
      "(let s2 = fold place_and_announce [uid, cid] s2 in
        (case (if conf = [] then (Inr (), s2) else supersede_active_jobs conf {uid, cid} s2) of
           (Inl e, s3) \<Rightarrow> (Inl e, s3)
         | (Inr u, s3) \<Rightarrow> (Inr (), persist_jobs s3))) = (Inr (), u)"
      "wf u" "evolves s2 u" "status (store u cid) = QUEUED" "status (store u uid) = QUEUED" "placed u cid" "\<not> placed u uid"
      "cid \<in> set (jobs u)" "uid \<in> set (jobs u)" "cancel_requested u \<inter> {cid, uid} \<subseteq> cancel_requested s2"
      "\<And>i. orphan u i \<Longrightarrow> orphan s2 i" "\<And>i. i \<in> set (jobs s2) \<Longrightarrow> is_active (store u i) \<Longrightarrow> i \<in> set (jobs u)"
      "\<And>i. i \<in> set (jobs s2) \<Longrightarrow> i \<notin> {cid, uid} \<Longrightarrow> conf \<noteq> [] \<Longrightarrow> configuration (store s2 i) = conf \<Longrightarrow>
         is_terminal (store u i) \<or> i \<in> cancel_requested u"
      "map job_id (disk_jobs u) = persisted_ids u"
    proof (rule commit_placed [OF ch(1) _ ch(3) ch(10) ch(13) ch(14) ch(15) ch(16) ch(6), of conf])
      show "{cid, uid} \<subseteq> set (jobs s2)" using ch(7) by simp
    qed (rule that)
    have "commit_chain [uid, cid] (Some conf) cid {} no_stage s2 = (Inr (), u)"
      using Inr u(1) by (cases "conf = []") (simp_all add: commit_chain_def no_stage_def Let_def)
    then have res: "enqueue_install_chain get_port_type conf p build_source flash_boot s = (Inr cid, u)"
      using c1 c2 by (simp add: enqueue_install_chain_def)
    have sup: "is_terminal (store u i) \<or> i \<in> cancel_requested u"
      if "i \<in> set (jobs s)" "configuration (store s i) = conf" "conf \<noteq> []" for i
    proof -
      have "i \<noteq> cid" "i \<noteq> uid" using that(1) ch(4,5) by auto
      then show ?thesis using u(13) [of i] that ch(7,8) by simp
    qed
    note ec = evolvesD [OF u(3) ch(11)] and eu = evolvesD [OF u(3) ch(12)]
    have ident: "job_type (store u cid) = COMPILE" "job_type (store u uid) = UPLOAD" "port (store u uid) = p"
      "depends_on (store u uid) = cid"
      using ec(2) eu(1,2,9) e1 e2 ch(16) by (simp_all add: job_identity_def)
    have ev: "evolves s u" by (rule evolves_trans [OF ch(2) u(3)])
    show ?thesis
      unfolding res prod.case sum.case
      using u(2,4-12,14) ident ch(3,4,5,7,9,20) sup ev fresh by (intro conjI exI [of _ uid]) auto
  qed
qed

text \<open>
  C22. An install queues exactly its two halves: a compile, on its lane or in the dispatch pool, and an
  upload that waits for it and is nowhere to be run before the compile has completed. Every earlier
  active job of the device has ended or is flagged to stop, the two halves themselves survive the sweep
  that ended the others, no other job is stranded, and what was saved to disk is what is in memory. When
  a rename holds the device, the install is rejected and leaves the dictionary as it found it.
\<close>
theorem install_chain_spec:
  assumes "wf s" "fresh_ids s \<inter> cancel_requested s = {}"
  shows "case enqueue_install_chain get_port_type conf p build_source flash_boot s of
      (Inl e, u) \<Rightarrow> jobs u = jobs s \<and> wf u \<and>
         (\<exists>i \<in> set (active_jobs s). job_type (store s i) = RENAME \<and>
            e = CommandError INVALID_ARGS (rename_lock_message (store s i)))
    | (Inr cid, u) \<Rightarrow> wf u \<and> (\<exists>uid. cid \<noteq> uid \<and> {cid, uid} \<inter> set (jobs s) = {} \<and> {cid, uid} \<subseteq> set (jobs u) \<and>
         status (store u cid) = QUEUED \<and> job_type (store u cid) = COMPILE \<and> placed u cid \<and>
         status (store u uid) = QUEUED \<and> job_type (store u uid) = UPLOAD \<and> port (store u uid) = p \<and>
         depends_on (store u uid) = cid \<and> \<not> placed u uid \<and> {cid, uid} \<inter> cancel_requested u = {}) \<and>
         (\<forall>i \<in> set (jobs s). configuration (store s i) = conf \<and> conf \<noteq> [] \<longrightarrow>
            is_terminal (store u i) \<or> i \<in> cancel_requested u) \<and>
         (\<forall>i. orphan u i \<longrightarrow> orphan s i) \<and> map job_id (disk_jobs u) = persisted_ids u"
proof (cases "enqueue_install_chain get_port_type conf p build_source flash_boot s")
  case (Pair r u)
  note ok = install_chain_ok [OF assms(1), where get_port_type = get_port_type and conf = conf and p = p
      and build_source = build_source and flash_boot = flash_boot, unfolded Pair prod.case]
  show ?thesis
  proof (cases r)
    case (Inr cid)
    note d = ok [unfolded Inr sum.case]
    obtain uid where uid: "cid \<noteq> uid \<and> {cid, uid} \<subseteq> fresh_ids s \<and> {cid, uid} \<inter> set (jobs s) = {} \<and> {cid, uid} \<subseteq> set (jobs u) \<and>
        status (store u cid) = QUEUED \<and> job_type (store u cid) = COMPILE \<and> placed u cid \<and>
        status (store u uid) = QUEUED \<and> job_type (store u uid) = UPLOAD \<and> port (store u uid) = p \<and>
        depends_on (store u uid) = cid \<and> \<not> placed u uid \<and> cancel_requested u \<inter> {cid, uid} \<subseteq> cancel_requested s"
      using conjunct1 [OF conjunct2 [OF conjunct2 [OF conjunct2 [OF d]]]] by (rule exE)
    moreover from uid have "{cid, uid} \<inter> cancel_requested u = {}" using assms(2) by blast
    ultimately show ?thesis
      using d unfolding Pair Inr sum.case prod.case
      by (intro conjI exI [of _ uid]) (elim conjE, assumption)+
  next
    case (Inl e)
    then show ?thesis using ok unfolding Pair by simp
  qed
qed

lemma install_chain_spec_witness:
  "\<exists>cid u. enqueue_install_chain (\<lambda>p. OtherPort) ''a.yaml'' ''OTA'' LOCAL_JOB_BUILD_SOURCE False ex_chain = (Inr cid, u) \<and>
     status (store u cid) = QUEUED \<and> placed u cid \<and>
     (\<forall>i \<in> {''u0'', ''u1''}. is_terminal (store u i) \<or> i \<in> cancel_requested u)"
proof -
  have "cancel_requested ex_chain = {}"
    by (simp add: ex_chain_def ex_head_def create_job_def fresh_uuid_def now_iso_def ex_fw_def new_fw_def)
  moreover have "\<forall>i \<in> set (active_jobs ex_chain). job_type (store ex_chain i) \<noteq> RENAME"
    by (simp add: active_jobs_def)
  ultimately show ?thesis
    using install_chain_spec [of ex_chain, where get_port_type = "\<lambda>p. OtherPort" and conf = "''a.yaml''"
        and p = "''OTA''" and build_source = LOCAL_JOB_BUILD_SOURCE and flash_boot = False]
    by (cases "enqueue_install_chain (\<lambda>p. OtherPort) ''a.yaml'' ''OTA'' LOCAL_JOB_BUILD_SOURCE False ex_chain")
      (auto split: sum.splits)
qed

end
