(* ===== verification/Frames.thy ===== *)
theory Frames
  imports Enqueue
begin

text \<open>
  What the handlers do, seen through a relation between states. A reflexive and transitive relation that
  every primitive of the queue respects (a job update, an event, a placement, the clock, the task list,
  the job dictionary) is respected by a finalisation with everything it sets off; when the primitives of
  the commands respect it too, so do a cancellation, a sweep and the commit of a chain. The interfaces
  state what the primitives promise and the lemmas are proved once from them. A part of the state that
  the primitives leave alone (the bindings of the pool, the YAML files while the rename lock is held) is
  the special case of the relation \<open>obs t = obs s\<close>; the consistency of the pool and the bound on the
  slots of a lane are others.
\<close>

section \<open>The primitives a finalisation is made of\<close>

locale lifecycle_step =
  fixes R :: "fw \<Rightarrow> fw \<Rightarrow> bool"
  assumes step_refl: "R s s"
    and step_trans: "R s t \<Longrightarrow> R t u \<Longrightarrow> R s u"
    and step_upd_job: "R s (upd_job jid f s)"
    and step_fire: "R s (fire_event e s)"
    and step_place: "R s (place_on_lane jid s)"
    and step_queued_update: "R s (set_queued_update q conf s)"
    and step_create: "create_job conf ty kwargs b s = (jid, t) \<Longrightarrow> R s t"
    and step_ticks: "R s (s\<lparr>ticks := n\<rparr>)"
    and step_tasks: "R s (s\<lparr>tasks := ts\<rparr>)"
    and step_jobs: "R s (s\<lparr>jobs := js\<rparr>)"
    and step_gate: "R s (s\<lparr>build_gate := g\<rparr>)"
    and step_slot: "R s (release_lane_slot jid s)"
    and step_terminal: "R s (on_job_terminal jid s)"
begin

text \<open>The outermost primitive of a composed step, peeled off.\<close>

lemmas prim_step = step_refl step_trans [OF _ step_upd_job] step_trans [OF _ step_fire] step_trans [OF _ step_place]
  step_trans [OF _ step_queued_update] step_trans [OF _ step_ticks] step_trans [OF _ step_tasks]
  step_trans [OF _ step_jobs] step_trans [OF _ step_gate] step_trans [OF _ step_slot] step_trans [OF _ step_terminal]

lemma place_and_announce_step: "R s (place_and_announce jid s)"
  by (auto simp: place_and_announce_def Let_def intro!: prim_step)

lemma dispatch_queued_upload_step: "R s (dispatch_queued_upload conf s)"
proof -
  obtain jid t where c: "create_job conf UPLOAD (\<lambda>j. j\<lparr>port := OTA_PORT\<rparr>) LOCAL_JOB_BUILD_SOURCE s = (jid, t)"
    by fastforce
  have "R s (t\<lparr>jobs := js\<rparr>)" for js by (rule step_trans [OF step_create [OF c] step_jobs])
  moreover have "R s (place_and_announce jid t)" by (rule step_trans [OF step_create [OF c] place_and_announce_step])
  ultimately show ?thesis
    by (auto simp: dispatch_queued_upload_def c Let_def split: sum.split intro: step_trans [OF _ step_tasks])
qed

lemma arm_step: "R s (arm_queued_update_if_flagged jid s)"
  by (auto simp: arm_queued_update_if_flagged_def intro!: prim_step)

lemma completion_step:
  "R s (handle_deferred_compile_completion jid s)" "R s (handle_ota_upload_completion jid s)"
  by (auto simp: handle_deferred_compile_completion_def handle_ota_upload_completion_def
      intro!: prim_step dispatch_queued_upload_step split: option.split)

lemma listeners_step: "R s (fire_job_lifecycle et jid s)"
proof -
  have "R s (fire_event e s)" for e by (rule step_fire)
  moreover have "R t (handle_job_completed jid t)" for t
    unfolding handle_job_completed_def by (rule step_trans [OF step_trans [OF arm_step completion_step(1)] completion_step(2)])
  ultimately show ?thesis
    unfolding fire_job_lifecycle_def Let_def handle_job_failed_def using arm_step step_trans by (simp split: if_split) blast
qed

lemma defer_step: "R s (defer_install_if_target_offline jid s)"
  by (auto simp: defer_install_if_target_offline_def Let_def intro!: prim_step)

lemma now_iso_step: "now_iso s = (now, t) \<Longrightarrow> R s t"
  by (auto simp: now_iso_def intro!: prim_step)

lemma device_wake_step: "R s (handle_device_wake st conf s)"
  by (auto simp: handle_device_wake_def intro!: step_refl dispatch_queued_upload_step split: option.split)

lemma for_each_step: "(\<And>x t. R t (snd (f x t))) \<Longrightarrow> R s (snd (for_each f xs s))"
proof (induction xs arbitrary: s)
  case (Cons x xs)
  obtain r t where r: "f x s = (r, t)" by fastforce
  have "R s t" using Cons.prems [of s x] r by simp
  moreover have "R t (snd (for_each f xs t))" by (rule Cons.IH [OF Cons.prems])
  ultimately show ?case using r step_trans by (cases r) auto
qed (simp add: step_refl)

lemma release_step:
  assumes "\<And>i st err t. R t (snd (fin i st err t))"
  shows "R s (snd (release_dependents_with fin jid s))"
  unfolding release_dependents_with_def
  by (rule for_each_step) (simp add: release_one_def assms step_refl step_place)

lemma finalize_fuel_step: "R s (snd (finalize_fuel n jid st err s))"
proof (induction n arbitrary: jid st err s)
  case (Suc n)
  obtain now s0 where now: "now_iso s = (now, s0)" by fastforce
  show ?case
  proof (cases "mark_terminal now st err (store s0 jid)")
    case (Inr j)
    let ?t = "fire_job_lifecycle (STATUS_TO_TERMINAL_EVENT st) jid
        (release_lane_slot jid (defer_install_if_target_offline jid (upd_job jid (\<lambda>_. j) s0)))"
    have "R s ?t"
      by (rule step_trans [OF now_iso_step [OF now]], rule step_trans [OF step_upd_job],
          rule step_trans [OF defer_step], rule step_trans [OF step_slot listeners_step])
    moreover obtain r u where r: "release_dependents_with (finalize_fuel n) jid ?t = (r, u)" by fastforce
    ultimately have "R s u" using release_step [of "finalize_fuel n" ?t jid, OF Suc.IH] step_trans by (metis snd_conv)
    then show ?thesis using now Inr r by (cases r) (auto simp: Let_def intro!: prim_step)
  qed (use now step_refl in simp)
qed (simp add: step_refl)

lemma finalize_step: "R s (snd (finalize_terminal jid st err s))"
  unfolding finalize_terminal_def by (rule finalize_fuel_step)

lemma release_dependents_step: "R s (snd (release_dependents jid s))"
  unfolding release_dependents_def by (rule release_step [OF finalize_fuel_step])

end

section \<open>The primitives of the commands\<close>

locale command_step = lifecycle_step +
  assumes step_discard: "R s (upd_pool (discard jid) s)"
    and step_request_cancel: "R s (request_cancel jid s)"
    and step_terminate: "R s (terminate_job_process jid s)"
    and step_persist: "R s (persist_jobs s)"
begin

lemma save_history_step: "R s (save_history s)"
  unfolding save_history_def prune_history_def by (rule step_trans [OF step_jobs step_persist])

lemma cancel_queued_step: "R s (snd (cancel_queued jid s))"
proof -
  define s1 where "s1 = upd_pool (discard jid) s"
  obtain now s2 where now: "now_iso s1 = (now, s2)" by fastforce
  have s1: "R s s1" unfolding s1_def by (rule step_discard)
  show ?thesis
  proof (cases "mark_terminal now CANCELLED None (store s2 jid)")
    case (Inl e)
    then show ?thesis using now s1 unfolding cancel_queued_def s1_def [symmetric] by simp
  next
    case (Inr j)
    let ?s4 = "fire_job_lifecycle JOB_CANCELLED jid (save_history (upd_job jid (\<lambda>_. j) s2))"
    obtain r u where r: "release_dependents jid ?s4 = (r, u)" by fastforce
    have "R s ?s4"
      by (rule step_trans [OF s1], rule step_trans [OF now_iso_step [OF now]], rule step_trans [OF step_upd_job],
          rule step_trans [OF save_history_step listeners_step])
    then have "R s u" using release_dependents_step [of ?s4 jid] r step_trans by (metis snd_conv)
    moreover from this have "R s (save_history u)" by (rule step_trans [OF _ save_history_step])
    ultimately show ?thesis
      using now Inr r unfolding cancel_queued_def s1_def [symmetric]
      by (cases r) (auto simp: Let_def intro!: step_trans [OF _ step_terminal])
  qed
qed

lemma cancel_running_step: "R s (snd (cancel_running jid s))"
  by (auto simp: cancel_running_def intro!: step_refl step_request_cancel
      step_trans [OF step_request_cancel step_terminate])

lemma cancel_fuel_step: "R s (snd (cancel_fuel n jid s))"
proof (induction n arbitrary: jid s)
  case (Suc n)
  obtain r s1 where q: "cancel_queued jid s = (r, s1)" by fastforce
  have s1: "R s s1" using cancel_queued_step [of s jid] q by simp
  obtain r' s2 where p: "cancel_fuel n (depends_on (store s1 jid)) s1 = (r', s2)" by fastforce
  have s2: "R s s2" using step_trans [OF s1] Suc.IH [of s1 "depends_on (store s1 jid)"] p by simp
  note gate = step_trans [OF s1 step_gate] step_trans [OF s2 step_gate]
  show ?case using q p s1 s2 gate step_refl cancel_running_step by (cases r; cases r') (auto simp: Let_def)
qed (simp add: step_refl)

lemma cancel_step: "R s (snd (cancel jid s))"
  unfolding cancel_def by (rule cancel_fuel_step)

lemma cancel_active_jobs_step: "R s (snd (cancel_active_jobs E conf s))"
  unfolding cancel_active_jobs_def
proof (rule for_each_step)
  fix i t
  obtain r u where r: "cancel i t = (r, u)" by fastforce
  then have "R t u" using cancel_step [of t i] by simp
  then show "R t (snd (cancel_swallowing (conf = None) i t))"
    using r by (cases r) (simp_all add: cancel_swallowing_def)
qed

lemma supersede_step: "R s (snd (supersede_active_jobs conf E s))"
  by (simp add: supersede_active_jobs_def cancel_active_jobs_step)

lemma place_all_step: "R s (fold place_and_announce chain s)"
  by (induction chain arbitrary: s) (auto intro: step_refl step_trans [OF place_and_announce_step])

lemma roll_out_step: "R s (roll_out chain s)"
  unfolding roll_out_def by (induction chain arbitrary: s) (auto intro: step_refl step_trans [OF step_jobs])

text \<open>Placing a chain and sweeping the rest, the way a commit ends.\<close>

lemma place_sweep_step:
  "R s (snd (let s2 = fold place_and_announce chain s in
        (case (if conf = [] then (Inr (), s2) else supersede_active_jobs conf E s2) of
           (Inl e, s3) \<Rightarrow> (Inl e, s3)
         | (Inr u, s3) \<Rightarrow> (Inr (), persist_jobs s3))))"
proof -
  let ?f = "fold place_and_announce chain s"
  obtain r u where r: "supersede_active_jobs conf E ?f = (r, u)" by fastforce
  have u: "R s u" using step_trans [OF place_all_step] supersede_step [of ?f conf E] r by simp
  show ?thesis
    using r u step_trans [OF u step_persist] place_all_step step_trans [OF place_all_step step_persist]
    by (cases r) (auto simp: Let_def)
qed

lemma commit_step:
  assumes "\<And>t. R t (snd (stage t))"
  shows "R s (snd (commit_chain chain conf0 lock excl stage s))"
proof -
  obtain r t where r: "(case check_rename_lock lock excl s of Inl e \<Rightarrow> (Inl e, s) | Inr u \<Rightarrow> stage s) = (r, t)" by fastforce
  have t: "R s t" using r assms [of s] step_refl by (auto split: sum.splits)
  let ?f = "fold place_and_announce chain t"
  obtain r' u where r': "(case conf0 of None \<Rightarrow> (Inr (), ?f) | Some conf \<Rightarrow> if conf = [] then (Inr (), ?f)
      else supersede_active_jobs conf (set chain) ?f) = (r', u)" by fastforce
  have f: "R s ?f" by (rule step_trans [OF t place_all_step])
  have sup: "R s u" if "supersede_active_jobs conf E ?f = (r', u)" for conf E
    using step_trans [OF f] supersede_step [of ?f conf E] that by simp
  have u: "R s u" using r' f sup by (auto split: option.splits if_splits)
  show ?thesis
    using r r' u step_trans [OF u step_persist] step_trans [OF t roll_out_step]
    by (cases r; cases r') (auto simp: commit_chain_def Let_def)
qed

lemma enqueue_step: "R s (snd (enqueue jid supersede s))"
  unfolding enqueue_def by (rule commit_step) (simp add: no_stage_def step_refl)

lemma finish_enqueue_step: "R s (finish_enqueue jid conf s)"
proof -
  obtain r u where r: "supersede_active_jobs conf {jid} s = (r, u)" by fastforce
  then have "R s u" using supersede_step [of s conf "{jid}"] by simp
  then show ?thesis
    using r step_persist step_trans [OF _ step_persist] by (cases r) (auto simp: finish_enqueue_def)
qed

end

section \<open>A part of the state that is left alone\<close>

locale lifecycle_frame =
  fixes obs :: "fw \<Rightarrow> 'a"
  assumes obs_upd_job [simp]: "obs (upd_job jid f s) = obs s"
    and obs_fire [simp]: "obs (fire_event e s) = obs s"
    and obs_place [simp]: "obs (place_on_lane jid s) = obs s"
    and obs_queued_update [simp]: "obs (set_queued_update q conf s) = obs s"
    and obs_create: "create_job conf ty kwargs b s = (jid, t) \<Longrightarrow> obs t = obs s"
    and obs_ticks [simp]: "obs (s\<lparr>ticks := n\<rparr>) = obs s"
    and obs_tasks [simp]: "obs (s\<lparr>tasks := ts\<rparr>) = obs s"
    and obs_jobs [simp]: "obs (s\<lparr>jobs := js\<rparr>) = obs s"
    and obs_gate [simp]: "obs (s\<lparr>build_gate := g\<rparr>) = obs s"
    and obs_slot [simp]: "obs (release_lane_slot jid s) = obs s"
    and obs_terminal [simp]: "obs (on_job_terminal jid s) = obs s"

sublocale lifecycle_frame \<subseteq> kept: lifecycle_step "\<lambda>s t. obs t = obs s"
  by unfold_locales (simp_all add: obs_create)

context lifecycle_frame
begin

lemmas frame_obs [simp] = kept.place_and_announce_step kept.dispatch_queued_upload_step kept.listeners_step
  kept.defer_step kept.device_wake_step kept.finalize_step kept.release_dependents_step

lemma now_iso_obs: "now_iso s = (now, t) \<Longrightarrow> obs t = obs s"
  by (rule kept.now_iso_step)

end

locale command_frame = lifecycle_frame obs for obs :: "fw \<Rightarrow> 'a" +
  assumes obs_discard [simp]: "obs (upd_pool (discard jid) s) = obs s"
    and obs_request_cancel [simp]: "obs (request_cancel jid s) = obs s"
    and obs_terminate [simp]: "obs (terminate_job_process jid s) = obs s"
    and obs_persist [simp]: "obs (persist_jobs s) = obs s"

sublocale command_frame \<subseteq> spared: command_step "\<lambda>s t. obs t = obs s"
  by unfold_locales simp_all

context command_frame
begin

lemmas supersede_obs [simp] = spared.supersede_step
lemmas place_sweep_obs = spared.place_sweep_step

end

section \<open>The YAML files while the rename lock is held\<close>

definition locked_files :: "fw \<Rightarrow> (string, string) dict option" where
  "locked_files s = (if rename_fs_lock s then Some (yaml_files s) else None)"

interpretation locked: command_frame locked_files
proof
  fix conf ty kwargs b s jid t
  show "create_job conf ty kwargs b s = (jid, t) \<Longrightarrow> locked_files t = locked_files s"
    by (drule create_job_eq) (simp add: locked_files_def)
  show "locked_files (release_lane_slot jid s) = locked_files s" for jid s
    by (simp add: locked_files_def release_lane_slot_def lane_names_def)
  show "locked_files (on_job_terminal jid s) = locked_files s" for jid s
    by (simp add: locked_files_def on_job_terminal_def revert_rename_def)
qed (simp_all add: locked_files_def request_cancel_def terminate_job_process_def)

text \<open>Nobody removes a YAML file while a rename holds the lock, and nobody takes the lock from it.\<close>

lemma locked_yaml:
  assumes "rename_fs_lock s" "locked_files t = locked_files s"
  shows "yaml_files t = yaml_files s" "rename_fs_lock t"
  using assms by (auto simp: locked_files_def split: if_splits)

end
