(* ===== verification/RemoteDispatch.thy ===== *)
theory RemoteDispatch
  imports Frames
begin

text \<open>
  \<open>controllers/firmware/remote_dispatch.py\<close>: the matcher that binds a waiting compile to a free build
  server, the driver of a bound compile and its requeues, and the lane status of \<open>controller.py\<close> the
  matcher reads. A driver runs its prologue when it is created and the rest, once \<open>run_remote_job\<close> came
  back, in a later step; what \<open>run_remote_job\<close> came back with is that step's argument. The lemmas show
  that a server never drives two jobs and that a job is re-routed a bounded number of times.
\<close>

section \<open>Lane status\<close>

record QueueStatus =
  qs_idle :: bool
  qs_running :: bool
  qs_depth :: nat

definition lane_status :: "Lane \<Rightarrow> QueueStatus" where
  "lane_status l =
     (let running = active l \<noteq> [];
          queue_depth = length (lane_queue l)
      in \<lparr>qs_idle = (\<not> running \<and> queue_depth = 0), qs_running = running, qs_depth = queue_depth\<rparr>)"

definition compile_queue_status :: "fw \<Rightarrow> QueueStatus" where
  "compile_queue_status s = lane_status (compile_lane s)"

section \<open>The matcher\<close>

definition MAX_SERVER_LOSS_RETRIES :: nat where
  "MAX_SERVER_LOSS_RETRIES = 3"

definition POOL_WAKE_EVENTS :: "EventType list" where
  "POOL_WAKE_EVENTS =
     [OFFLOADER_PEER_LINK_OPENED, OFFLOADER_PEER_LINK_CLOSED, OFFLOADER_QUEUE_STATUS_CHANGED,
      OFFLOADER_PAIRING_ADDED, OFFLOADER_PAIR_STATUS_CHANGED, OFFLOADER_PAIRING_ENABLED_CHANGED,
      OFFLOADER_INCLUDE_LOCAL_CHANGED]"

definition set_wake :: "bool \<Rightarrow> fw \<Rightarrow> fw" where
  "set_wake b = upd_pool (\<lambda>d. d\<lparr>wake := b\<rparr>)"

text \<open>The prologue of the driver, which the eager task runs at once.\<close>

definition drive_remote_start :: "string \<Rightarrow> fw \<Rightarrow> fw" where
  "drive_remote_start jid s =
     (if is_terminal (store s jid) then upd_pool (release jid) s else begin_run jid s)"

definition get_pairing :: "fw \<Rightarrow> string \<Rightarrow> StoredPairing option" where
  "get_pairing s pin = (case offloader s of None \<Rightarrow> None | Some off \<Rightarrow> dict_get (pairings off) pin)"

definition dispatch_to_server :: "string \<Rightarrow> string \<Rightarrow> BuildSchedulerInputs \<Rightarrow> fw \<Rightarrow> fw" where
  "dispatch_to_server jid pin snapshot s =
     (case get_pairing s pin of
        None \<Rightarrow> set_wake True s
      | Some p \<Rightarrow>
          let s1 = upd_job jid (apply_build_source
                     (build_source_for_pairing p (offloader_esphome_version snapshot))) s;
              s2 = drive_remote_start jid s1;
              s3 = upd_pool (start jid pin) s2
          in s3\<lparr>tasks := tasks s3 @ [DriveRemote jid]\<rparr>)"

definition fallback_to_local :: "string \<Rightarrow> fw \<Rightarrow> fw" where
  "fallback_to_local jid s = place_on_lane jid (upd_job jid (apply_build_source LOCAL_JOB_BUILD_SOURCE) s)"

text \<open>\<open>finalize_terminal\<close> does not raise on a terminal status.\<close>

definition fail_no_compatible_peer :: "string \<Rightarrow> string \<Rightarrow> fw \<Rightarrow> fw" where
  "fail_no_compatible_peer jid message s =
     snd (finalize_terminal jid FAILED (Some message) (upd_pool (drop_waiting jid) s))"

definition dispatch_inputs :: "string \<Rightarrow> BuildSchedulerInputs \<Rightarrow> fw \<Rightarrow> BuildSchedulerInputs" where
  "dispatch_inputs jid snapshot s =
     (inputs_for_job_type snapshot (job_type (store s jid)))
       \<lparr>busy_build_server_pins := busy_pins (remote_dispatch s),
        local_compile_busy := \<not> qs_idle (compile_queue_status s)\<rparr>"

text \<open>One waiting compile; a remote decision always carries its pin.\<close>

definition dispatch_one :: "BuildSchedulerInputs \<Rightarrow> string \<Rightarrow> fw \<Rightarrow> bool \<times> fw" where
  "dispatch_one snapshot jid s =
     (if status (store s jid) \<noteq> QUEUED then (False, upd_pool (drop_waiting jid) s)
      else
        let decision = pick_dispatch_target (dispatch_inputs jid snapshot s) in
        (case outcome decision of
           DispatchOutcome.REMOTE \<Rightarrow> (False, dispatch_to_server jid (the (decision_pin decision)) snapshot s)
         | DispatchOutcome.LOCAL \<Rightarrow> (True, fallback_to_local jid s)
         | DispatchOutcome.NO_COMPATIBLE_PEER \<Rightarrow>
             (True, fail_no_compatible_peer jid (decision_message decision) s)
         | DispatchOutcome.WAIT \<Rightarrow> (False, s)))"

fun dispatch_each :: "BuildSchedulerInputs \<Rightarrow> string list \<Rightarrow> bool \<Rightarrow> fw \<Rightarrow> bool \<times> fw" where
  "dispatch_each snapshot [] needs s = (needs, s)"
| "dispatch_each snapshot (jid # jids) needs s =
     (case dispatch_one snapshot jid s of (b, s') \<Rightarrow> dispatch_each snapshot jids (needs \<or> b) s')"

definition flush_to_local :: "fw \<Rightarrow> fw" where
  "flush_to_local s =
     (let flushed = pending (remote_dispatch s);
          s1 = fold fallback_to_local flushed s
      in if flushed \<noteq> [] then persist_jobs s1 else s1)"

definition dispatch_pending :: "fw \<Rightarrow> fw" where
  "dispatch_pending s =
     (case offloader s of
        None \<Rightarrow> flush_to_local s
      | Some snapshot \<Rightarrow>
          (case dispatch_each snapshot (pending (remote_dispatch s)) False s of
             (needs_persist, s1) \<Rightarrow> if needs_persist then persist_jobs s1 else s1))"

text \<open>One turn of the loop: it waits for the wake flag, clears it and runs a pass.\<close>

definition dispatch_turn :: "fw \<Rightarrow> fw" where
  "dispatch_turn s = (if wake (remote_dispatch s) then dispatch_pending (set_wake False s) else s)"

definition pool_wake_listener :: "EventType \<Rightarrow> fw \<Rightarrow> fw" where
  "pool_wake_listener et s = (if et \<in> set POOL_WAKE_EVENTS then set_wake True s else s)"

section \<open>The driver's end\<close>

text \<open>
  How \<open>run_remote_job\<close> came back: normally, having finalised the job itself; with the server lost; with
  a server that could not provision the version; or with any other exception.
\<close>

datatype RemoteOutcome =
    Returned
  | RemoteServerLost string
  | ProvisionUnavailable string
  | Raised string

definition ingest_notice :: "string \<Rightarrow> string \<Rightarrow> fw \<Rightarrow> fw" where
  "ingest_notice jid text s =
     (case now_iso s of
        (now, s1) \<Rightarrow>
          (case ingest_notice_line now (store s1 jid) text of
             (j, events) \<Rightarrow> fold fire_event events (upd_job jid (\<lambda>_. j) s1)))"

definition return_to_pool :: "string \<Rightarrow> fw \<Rightarrow> fw" where
  "return_to_pool jid s = place_on_lane jid (upd_job jid revert_to_pending_remote s)"

definition requeue_after_server_loss :: "string \<Rightarrow> string \<Rightarrow> fw \<Rightarrow> fw" where
  "requeue_after_server_loss jid reason s =
     (case record_loss jid (remote_dispatch s) of
        (attempt, d) \<Rightarrow>
          let s1 = s\<lparr>remote_dispatch := d\<rparr> in
          if attempt > MAX_SERVER_LOSS_RETRIES
          then upd_pool (forget_losses jid)
                 (snd (finalize_terminal jid FAILED
                   (Some (''remote build: server lost mid-build '' @ show_nat attempt @ ''x ('' @ reason @ '')'')) s1))
          else return_to_pool jid
                 (ingest_notice jid (''build server lost ('' @ reason @ ''); re-routing to another worker'') s1))"

definition requeue_after_provision_failure :: "string \<Rightarrow> string \<Rightarrow> fw \<Rightarrow> fw" where
  "requeue_after_provision_failure jid reason s =
     fallback_to_local jid
       (upd_job jid clear_run_state
         (ingest_notice jid
           (''receiver couldn'' @ [CHR 0x27] @ ''t provision esphome ('' @ reason @ ''); building locally instead'') s))"

definition drive_remote_end :: "string \<Rightarrow> RemoteOutcome \<Rightarrow> fw \<Rightarrow> fw" where
  "drive_remote_end jid oc s =
     (let s1 = (case oc of
                  Returned \<Rightarrow> s
                | RemoteServerLost reason \<Rightarrow> requeue_after_server_loss jid reason s
                | ProvisionUnavailable reason \<Rightarrow> requeue_after_provision_failure jid reason s
                | Raised text \<Rightarrow> snd (finalize_unexpected_error jid text s));
          s2 = upd_pool (release jid) s1;
          s3 = (if is_terminal (store s2 jid) then upd_pool (forget_losses jid) s2 else s2)
      in end_run jid s3)"


section \<open>What a finalisation leaves alone\<close>

text \<open>The bindings of the pool and the cancel flags.\<close>

definition bindings :: "fw \<Rightarrow> (string, string) dict \<times> string list \<times> string set" where
  "bindings s = (job_peer (remote_dispatch s), in_flight (remote_dispatch s), cancel_requested s)"

interpretation pool_frame: lifecycle_frame bindings
proof
  fix conf ty kwargs b s jid t
  show "create_job conf ty kwargs b s = (jid, t) \<Longrightarrow> bindings t = bindings s"
    by (drule create_job_eq) (simp add: bindings_def)
  show "bindings (place_on_lane jid s) = bindings s" for jid s
    by (simp add: bindings_def place_on_lane_def Let_def)
  show "bindings (release_lane_slot jid s) = bindings s" for jid s
    by (simp add: bindings_def release_lane_slot_def lane_names_def)
  show "bindings (on_job_terminal jid s) = bindings s" for jid s
    by (simp add: bindings_def on_job_terminal_def revert_rename_def)
qed (simp_all add: bindings_def)

lemma bindingsD:
  assumes "bindings s = bindings t"
  shows "job_peer (remote_dispatch s) = job_peer (remote_dispatch t)"
    "in_flight (remote_dispatch s) = in_flight (remote_dispatch t)"
    "cancel_requested s = cancel_requested t"
  using assms by (simp_all add: bindings_def)


section \<open>Steps of a well-formed state\<close>

text \<open>What every step of the queue keeps: \<open>safe\<close> without the claim that no job is created or started.\<close>

definition keeps :: "fw \<Rightarrow> fw \<Rightarrow> bool" where
  "keeps s s' \<longleftrightarrow>
     evolves s s' \<and> wf s' \<and> (\<forall>i. orphan s' i \<longrightarrow> orphan s i) \<and>
     (\<forall>i \<in> set (jobs s). is_active (store s' i) \<longrightarrow> i \<in> set (jobs s'))"

lemma keepsD:
  assumes "keeps s s'"
  shows "evolves s s'" "wf s'" "orphan s' i \<Longrightarrow> orphan s i"
    "i \<in> set (jobs s) \<Longrightarrow> is_active (store s' i) \<Longrightarrow> i \<in> set (jobs s')"
  using assms unfolding keeps_def by blast+

lemma keeps_refl: "wf s \<Longrightarrow> keeps s s"
  by (simp add: keeps_def)

lemma keeps_trans [trans]:
  assumes "wf s" "keeps s t" "keeps t u"
  shows "keeps s u"
proof -
  note st = keepsD [OF assms(2)] and tu = keepsD [OF assms(3)]
  have "i \<in> set (jobs u)" if "i \<in> set (jobs s)" "is_active (store u i)" for i
  proof -
    have "i \<notin> fresh_ids t" using evolvesD(8) [OF st(1)] wfD(4) [OF assms(1) that(1)] by blast
    then have "is_active (store t i)" using evolves_active [OF tu(1)] that(2) by blast
    then show ?thesis using st(4) [OF that(1)] tu(4) that(2) by blast
  qed
  then show ?thesis
    using evolves_trans [OF st(1) tu(1)] st(3) tu(2,3) unfolding keeps_def by blast
qed

lemma keeps_safe: "safe s t \<Longrightarrow> keeps s t"
  unfolding safe_def keeps_def by blast

lemma keeps_quiet: "wf s \<Longrightarrow> quiet s t \<Longrightarrow> keeps s t"
  by (rule keeps_safe [OF safe_quiet])

lemma keeps_steps: "steps_ok s t \<Longrightarrow> (\<And>i. orphan t i \<Longrightarrow> orphan s i) \<Longrightarrow> keeps s t"
  unfolding keeps_def using steps_okD by blast

lemma keeps_place:
  assumes "wf s" "i \<notin> fresh_ids s"
    "depends_on (store s i) \<noteq> [] \<Longrightarrow>
       depends_on (store s i) \<notin> fresh_ids s \<and> status (store s (depends_on (store s i))) = COMPLETED"
  shows "keeps s (place_on_lane i s)"
  by (rule keeps_steps [OF steps_ok_place_on_lane [OF assms]]) (auto dest: orphan_place_on_lane)

lemma keeps_finalize:
  assumes "wf s" "jid \<notin> fresh_ids s" "is_active (store s jid)" "st \<noteq> QUEUED" "st \<noteq> RUNNING"
  shows "keeps s (snd (finalize_terminal jid st err s))"
    "status (store (snd (finalize_terminal jid st err s)) jid) = st"
    "fst (finalize_terminal jid st err s) = Inr ()"
proof -
  obtain u where "finalize_terminal jid st err s = (Inr (), u)" "steps_ok s u" "status (store u jid) = st"
      "\<And>i. orphan u i \<Longrightarrow> orphan s i \<and> i \<notin> set (dependents s jid)"
    using finalize_terminal_aux [OF assms(1,2)] assms(3-5) by (metis is_terminal_iff_not_active terminal_iff)
  then show "keeps s (snd (finalize_terminal jid st err s))"
    "status (store (snd (finalize_terminal jid st err s)) jid) = st"
    "fst (finalize_terminal jid st err s) = Inr ()"
    by (auto intro: keeps_steps)
qed

text \<open>A job that may be placed: it exists, and what it depends on has completed and released it.\<close>

definition ready :: "fw \<Rightarrow> string \<Rightarrow> bool" where
  "ready s i \<longleftrightarrow> i \<notin> fresh_ids s \<and>
     (depends_on (store s i) \<noteq> [] \<longrightarrow> dependency_released (store s i) \<and>
        depends_on (store s i) \<notin> fresh_ids s \<and> status (store s (depends_on (store s i))) = COMPLETED)"

lemma ready_placed: "wf s \<Longrightarrow> placed s i \<Longrightarrow> ready s i"
  using wfD(5,6,7) unfolding ready_def by blast

lemma ready_evolves:
  assumes "evolves s t" "ready s i"
  shows "ready t i"
proof -
  note r = assms(2) [unfolded ready_def]
  have i: "depends_on (store t i) = depends_on (store s i)" "i \<notin> fresh_ids t"
    "dependency_released (store s i) \<Longrightarrow> dependency_released (store t i)"
    using evolvesD [OF assms(1), of i] r by blast+
  have "status (store t (depends_on (store s i))) = COMPLETED \<and> depends_on (store s i) \<notin> fresh_ids t"
    if "depends_on (store s i) \<noteq> []"
    using evolvesD(5,8) [OF assms(1), of "depends_on (store s i)"] r that by (simp add: is_terminal_def)
  then show ?thesis unfolding ready_def i(1) using i(2,3) r by blast
qed

text \<open>A ready job takes a slot: nothing but the bookkeeping of the slots changes.\<close>

lemma keeps_occupy:
  assumes "wf s" "ready s jid" "store t = store s" "jobs t = jobs s" "uuids t = uuids s" "next_uuid t = next_uuid s"
    and pl: "\<And>i. placed t i \<Longrightarrow> placed s i \<or> i = jid" and oc: "\<And>i. occupied s i \<Longrightarrow> occupied t i"
  shows "keeps s t"
proof -
  have fr: "fresh_ids t = fresh_ids s" using assms(5,6) by (simp add: fresh_ids_def)
  note w = wfD [OF assms(1)]
  have "wf t"
    unfolding wf_def fr assms(3-5)
  proof (intro conjI allI ballI impI)
    show "distinct (jobs s)" "inj (uuids s)" "[] \<notin> range (uuids s)" by (fact w)+
    show "i \<notin> fresh_ids s" if "i \<in> set (jobs s) \<or> placed t i" for i
      using that pl w(4,5) assms(2) by (auto simp: ready_def)
    show "job_id (store s i) = i" "depends_on (store s i) \<notin> fresh_ids s" if "i \<in> set (jobs s)" for i
      using that w(8,10) by simp_all
    show "occupied t i" if "i \<in> set (jobs s)" "status (store s i) = RUNNING" for i
      using that w(9) oc by simp
    show "dependency_released (store s i)" if "placed t i \<and> depends_on (store s i) \<noteq> []" for i
      using that pl w(6) assms(2) by (auto simp: ready_def)
    show "depends_on (store s i) \<notin> fresh_ids s" "status (store s (depends_on (store s i))) = COMPLETED"
      if "(i \<in> set (jobs s) \<or> placed t i) \<and> depends_on (store s i) \<noteq> [] \<and> dependency_released (store s i)" for i
      using that pl w(7) assms(2) by (auto simp: ready_def)
  qed
  then show ?thesis
    using assms(3-6) by (simp add: keeps_def evolves_same orphan_def held_def)
qed

lemma keeps_start:
  assumes "wf s" "ready s jid"
  shows "keeps s (upd_pool (start jid pin) s)"
  by (rule keeps_occupy [OF assms]) (auto simp: placed_def occupied_def)

lemma keeps_tick: "wf s \<Longrightarrow> now_iso s = (now, t) \<Longrightarrow> keeps s t"
  using placed_eqI [of "s\<lparr>ticks := Suc (ticks s)\<rparr>" s]
  by (intro keeps_quiet quiet_same) (auto simp: now_iso_def)

lemma keeps_upd_job:
  assumes "wf s" "\<And>j. job_identity (f j) = job_identity j"
    "\<And>j. dependency_released (f j) = dependency_released j" "is_active (store s jid)"
    "status (f (store s jid)) = QUEUED \<Longrightarrow> status (store s jid) = QUEUED"
    "is_active (f (store s jid))"
    "status (f (store s jid)) = RUNNING \<Longrightarrow> status (store s jid) = RUNNING \<or> occupied s jid"
  shows "keeps s (upd_job jid f s)"
proof (rule keeps_steps)
  have dep: "depends_on (f j) = depends_on j" for j using assms(2) [of j] by (simp add: job_identity_def)
  show "steps_ok s (upd_job jid f s)"
    using assms by (intro steps_ok_upd_job) (auto simp: is_terminal_iff_not_active)
  show "orphan (upd_job jid f s) i \<Longrightarrow> orphan s i" for i
    using assms(3-6) dep by (auto simp: orphan_def held_def split: if_splits)
qed

lemma bindings_persist [simp]: "bindings (persist_jobs s) = bindings s"
  by (simp add: bindings_def)

lemma begin_run_keeps:
  assumes "wf s" "status (store s jid) = QUEUED" "occupied s jid"
  shows "keeps s (begin_run jid s)" "status (store (begin_run jid s) jid) = RUNNING"
    "bindings (begin_run jid s) = bindings s"
proof -
  obtain now t where now: "now_iso s = (now, t)" by fastforce
  have t: "keeps s t" "store t = store s" "occupied t jid" "bindings t = bindings s"
    using keeps_tick [OF assms(1) now] now placed_eqI(2) [of t s jid] assms(3)
    by (auto simp: now_iso_def bindings_def)
  define m where "m = upd_job jid (mark_running now) t"
  have m: "keeps t m"
    unfolding m_def using t(2,3) assms(2) keepsD(2) [OF t(1)]
    by (intro keeps_upd_job) (auto simp: mark_running_def job_identity_def is_active_iff)
  define f where "f = fire_job_lifecycle JOB_STARTED jid m"
  have qf: "quiet m f" unfolding f_def by (rule quiet_fire_job_lifecycle [OF keepsD(2) [OF m]])
  have sm: "keeps s m" by (rule keeps_trans [OF assms(1) t(1) m])
  have sf: "keeps s f" by (rule keeps_trans [OF assms(1) sm keeps_quiet [OF keepsD(2) [OF m] qf]])
  have eq: "begin_run jid s = persist_jobs f" using now by (simp add: begin_run_def f_def m_def)
  show "keeps s (begin_run jid s)"
    unfolding eq by (rule keeps_trans [OF assms(1) sf keeps_safe [OF safe_persist [OF keepsD(2) [OF sf]]]])
  have "f = fire_event (Lifecycle JOB_STARTED (store m jid)) m"
    by (simp add: f_def fire_job_lifecycle_def Let_def)
  then show "status (store (begin_run jid s) jid) = RUNNING"
    unfolding eq persist_fields(1) [OF wfD(1) [OF keepsD(2) [OF sf]]] by (simp add: m_def mark_running_def)
  show "bindings (begin_run jid s) = bindings s"
    using t(4) by (simp add: eq f_def m_def)
qed

lemma flush_upd_pool: "flush_output i (upd_pool f s) = upd_pool f (flush_output i s)"
  by (simp add: flush_output_def upd_job_def write_job_sidecar_def upd_pool_def)

lemma fold_flush_upd_pool: "fold flush_output is (upd_pool f s) = upd_pool f (fold flush_output is s)"
  by (induction "is" arbitrary: s) (simp_all add: flush_upd_pool)

lemma persist_upd_pool: "persist_jobs (upd_pool f s) = upd_pool f (persist_jobs s)"
proof -
  have "persisted_ids (upd_pool f s) = persisted_ids s" by (simp add: persisted_ids_def)
  then show ?thesis
    by (simp add: persist_jobs_def Let_def fold_flush_upd_pool) (simp add: upd_pool_def reconcile_sidecars_def)
qed

lemma begin_run_upd_pool: "begin_run jid (upd_pool f s) = upd_pool f (begin_run jid s)"
proof -
  have "fire_event e (upd_pool f t) = upd_pool f (fire_event e t)" for e t
    by (simp add: fire_event_def upd_pool_def)
  moreover have "upd_job jid g (upd_pool f t) = upd_pool f (upd_job jid g t)" for g t
    by (simp add: upd_job_def upd_pool_def)
  moreover have "fire_job_lifecycle JOB_STARTED jid t = fire_event (Lifecycle JOB_STARTED (store t jid)) t" for t
    by (simp add: fire_job_lifecycle_def Let_def)
  moreover have "now_iso (upd_pool f s) = (fst (now_iso s), upd_pool f (snd (now_iso s)))"
    by (simp add: now_iso_def upd_pool_def)
  ultimately show ?thesis
    by (simp add: begin_run_def persist_upd_pool split: prod.split)
qed


section \<open>A server drives one job\<close>

definition pool_ok :: "fw \<Rightarrow> bool" where
  "pool_ok s \<longleftrightarrow>
     distinct (dict_keys (job_peer (remote_dispatch s))) \<and>
     distinct (dict_values (job_peer (remote_dispatch s))) \<and>
     set (in_flight (remote_dispatch s)) = set (dict_keys (job_peer (remote_dispatch s)))"

lemma pool_ok_bindings: "bindings t = bindings s \<Longrightarrow> pool_ok s \<Longrightarrow> pool_ok t"
  using bindingsD [of t s] by (simp add: pool_ok_def)

lemma dict_set_new: "k \<notin> set (dict_keys d) \<Longrightarrow> dict_set k v d = d @ [(k, v)]"
  by (induction d) auto

lemma distinct_values_pop:
  "distinct (dict_values d) \<Longrightarrow> distinct (dict_values (dict_pop k d))"
  by (induction d) (auto simp: AList.delete_eq)

lemma values_set: "set (dict_values (dict_set k v d)) \<subseteq> insert v (set (dict_values d))"
proof (induction d)
  case (Cons e d)
  then show ?case by (cases e) auto
qed simp

lemma distinct_values_set:
  "distinct (dict_values d) \<Longrightarrow> v \<notin> set (dict_values d) \<Longrightarrow> distinct (dict_values (dict_set k v d))"
proof (induction d)
  case (Cons e d)
  obtain k' v' where e: "e = (k', v')" by fastforce
  have "v' \<notin> set (dict_values (dict_set k v d))" if "k \<noteq> k'"
    using values_set [of k v d] Cons.prems e by auto
  then show ?case using Cons e by simp
qed simp

lemma pool_ok_start:
  assumes "pool_ok s" "pin \<notin> busy_pins (remote_dispatch s)"
  shows "pool_ok (upd_pool (start jid pin) s)"
proof -
  let ?d = "job_peer (remote_dispatch s)"
  have "distinct (dict_keys (dict_set jid pin ?d))"
    using assms(1) by (simp add: pool_ok_def AList.distinct_update)
  moreover have "distinct (dict_values (dict_set jid pin ?d))"
    using assms by (intro distinct_values_set) (simp_all add: pool_ok_def busy_pins_def)
  moreover have "set (dict_keys (dict_set jid pin ?d)) = insert jid (set (dict_keys ?d))"
    by (simp add: dict_keys_set insert_absorb)
  ultimately show ?thesis using assms(1) by (simp add: pool_ok_def start_def)
qed

lemma pool_ok_release:
  assumes "pool_ok s"
  shows "pool_ok (upd_pool (release jid) s)"
  using assms distinct_values_pop [of "job_peer (remote_dispatch s)" jid]
  by (auto simp: pool_ok_def dict_keys_pop)

interpretation pool_step: command_step "\<lambda>s t. pool_ok s \<longrightarrow> pool_ok t"
proof
  fix s t u conf ty kwargs b jid e q n ts js g f
  show "pool_ok s \<longrightarrow> pool_ok t \<Longrightarrow> pool_ok t \<longrightarrow> pool_ok u \<Longrightarrow> pool_ok s \<longrightarrow> pool_ok u" by blast
  show "create_job conf ty kwargs b s = (jid, t) \<Longrightarrow> pool_ok s \<longrightarrow> pool_ok t"
    using pool_ok_bindings [OF pool_frame.obs_create] by blast
  have drop: "pool_ok s \<longrightarrow> pool_ok (upd_pool (drop_waiting jid) s)"
    by (rule impI, rule pool_ok_bindings [rotated]) (simp_all add: bindings_def)
  have "upd_pool (discard jid) s = upd_pool (release jid) (upd_pool (drop_waiting jid) s)"
    by (simp add: upd_pool_def discard_def)
  then show "pool_ok s \<longrightarrow> pool_ok (upd_pool (discard jid) s)" using drop pool_ok_release by simp
  show "pool_ok s \<longrightarrow> pool_ok (request_cancel jid s)" "pool_ok s \<longrightarrow> pool_ok (terminate_job_process jid s)"
    "pool_ok s \<longrightarrow> pool_ok (persist_jobs s)"
    by (simp_all add: pool_ok_def request_cancel_def terminate_job_process_def)
  show "pool_ok s \<longrightarrow> pool_ok (upd_job jid f s)" by (simp add: pool_ok_def)
  show "pool_ok s \<longrightarrow> pool_ok (fire_event e s)" by (simp add: pool_ok_def)
  show "pool_ok s \<longrightarrow> pool_ok (place_on_lane jid s)" "pool_ok s \<longrightarrow> pool_ok (set_queued_update q conf s)"
    "pool_ok s \<longrightarrow> pool_ok (s\<lparr>ticks := n\<rparr>)" "pool_ok s \<longrightarrow> pool_ok (s\<lparr>tasks := ts\<rparr>)"
    "pool_ok s \<longrightarrow> pool_ok (s\<lparr>jobs := js\<rparr>)" "pool_ok s \<longrightarrow> pool_ok (s\<lparr>build_gate := g\<rparr>)"
    "pool_ok s \<longrightarrow> pool_ok (release_lane_slot jid s)" "pool_ok s \<longrightarrow> pool_ok (on_job_terminal jid s)"
    using pool_ok_bindings [of _ s] by simp_all
qed simp

text \<open>No step of a handler takes a slot of a lane or changes how many there are.\<close>

definition no_more_slots :: "fw \<Rightarrow> fw \<Rightarrow> bool" where
  "no_more_slots s t \<longleftrightarrow>
     (\<forall>n. length (active (get_lane n t)) \<le> length (active (get_lane n s)) \<and>
        max_concurrency (get_lane n t) = max_concurrency (get_lane n s))"

lemma no_more_slots_same: "(\<And>n. get_lane n t = get_lane n s) \<Longrightarrow> no_more_slots s t"
  by (simp add: no_more_slots_def)

lemma get_lane_eqI:
  "compile_lane t = compile_lane s \<Longrightarrow> upload_lane t = upload_lane s \<Longrightarrow>
   thread_upload_lane t = thread_upload_lane s \<Longrightarrow> get_lane n t = get_lane n s"
  by (cases n) simp_all

interpretation slot_step: command_step no_more_slots
proof
  fix s t u conf ty kwargs b jid e q n ts js g f
  show "no_more_slots s t \<Longrightarrow> no_more_slots t u \<Longrightarrow> no_more_slots s u"
    unfolding no_more_slots_def using le_trans by metis
  show "create_job conf ty kwargs b s = (jid, t) \<Longrightarrow> no_more_slots s t"
    by (drule create_job_eq) (auto intro!: no_more_slots_same get_lane_eqI)
  show "no_more_slots s (place_on_lane jid s)"
    by (auto simp: no_more_slots_def place_on_lane_def Let_def lane_put_def)
  have "length (active (get_lane m (release_lane_slot jid s))) \<le> length (active (get_lane m s)) \<and>
      max_concurrency (get_lane m (release_lane_slot jid s)) = max_concurrency (get_lane m s)" for m
    by (cases m) (simp_all add: release_lane_slot_def lane_names_def lane_release_def length_keys_pop_le)
  then show "no_more_slots s (release_lane_slot jid s)" by (simp add: no_more_slots_def)
  show "no_more_slots s (on_job_terminal jid s)"
    by (rule no_more_slots_same, rule get_lane_eqI) (simp_all add: on_job_terminal_def revert_rename_def)
  show "no_more_slots s (request_cancel jid s)" "no_more_slots s (terminate_job_process jid s)"
    by (rule no_more_slots_same, rule get_lane_eqI; simp add: request_cancel_def terminate_job_process_def)+
qed (rule no_more_slots_same, rule get_lane_eqI; simp)+

lemma keeps_tasks: "wf s \<Longrightarrow> keeps s (s\<lparr>tasks := ts\<rparr>)"
  using placed_eqI [of "s\<lparr>tasks := ts\<rparr>" s] by (intro keeps_quiet quiet_same) simp_all

lemma identity_apply [simp]:
  "job_identity (apply_build_source b j) = job_identity j" "status (apply_build_source b j) = status j"
  "dependency_released (apply_build_source b j) = dependency_released j"
  "depends_on (apply_build_source b j) = depends_on j"
  by (simp_all add: apply_build_source_def job_identity_def)

lemma keeps_apply:
  assumes "wf s" "status (store s jid) = QUEUED"
  shows "keeps s (upd_job jid (apply_build_source b) s)"
  using assms by (intro keeps_upd_job) (simp_all add: is_active_iff)

lemma dispatch_to_server_ok:
  assumes "wf s" "pool_ok s" "ready s jid" "status (store s jid) = QUEUED"
    "pin \<notin> busy_pins (remote_dispatch s)"
  shows "keeps s (dispatch_to_server jid pin snapshot s)" "pool_ok (dispatch_to_server jid pin snapshot s)"
    "set (in_flight (remote_dispatch (dispatch_to_server jid pin snapshot s))) \<subseteq>
       insert jid (set (in_flight (remote_dispatch s)))"
    "get_pairing s pin \<noteq> None \<Longrightarrow>
       status (store (dispatch_to_server jid pin snapshot s) jid) = RUNNING \<and>
       dict_get (job_peer (remote_dispatch (dispatch_to_server jid pin snapshot s))) jid = Some pin"
proof -
  have wake: "keeps s (set_wake True s)"
    using assms(1) by (intro keeps_quiet quiet_same) (auto simp: set_wake_def placed_def occupied_def)
  have "(keeps s (dispatch_to_server jid pin snapshot s) \<and> pool_ok (dispatch_to_server jid pin snapshot s) \<and>
      set (in_flight (remote_dispatch (dispatch_to_server jid pin snapshot s))) \<subseteq>
       insert jid (set (in_flight (remote_dispatch s)))) \<and> (get_pairing s pin \<noteq> None \<longrightarrow>
       status (store (dispatch_to_server jid pin snapshot s) jid) = RUNNING \<and>
       dict_get (job_peer (remote_dispatch (dispatch_to_server jid pin snapshot s))) jid = Some pin)"
  proof (cases "get_pairing s pin")
    case None
    then show ?thesis
      using wake assms(2) by (simp add: dispatch_to_server_def) (simp add: set_wake_def pool_ok_def subset_insertI)
  next
    case (Some p)
    define s1 where "s1 = upd_job jid (apply_build_source
                     (build_source_for_pairing p (offloader_esphome_version snapshot))) s"
    have s1: "keeps s s1" "status (store s1 jid) = QUEUED" "bindings s1 = bindings s"
      using keeps_apply [OF assms(1,4)] assms(4) by (simp_all add: s1_def)
    have p1: "pool_ok s1" "pin \<notin> busy_pins (remote_dispatch s1)"
      using pool_ok_bindings [OF s1(3) assms(2)] assms(5) by (simp_all add: s1_def)
    define a where "a = upd_pool (start jid pin) s1"
    have a: "keeps s1 a" "pool_ok a" "status (store a jid) = QUEUED" "occupied a jid"
      using keeps_start [OF keepsD(2) [OF s1(1)] ready_evolves [OF keepsD(1) [OF s1(1)] assms(3)]]
        pool_ok_start [OF p1] s1(2) by (auto simp: a_def occupied_def)
    note wa = keepsD(2) [OF a(1)]
    note b = begin_run_keeps [OF wa a(3,4)]
    let ?t = "begin_run jid a"
    have "?t = upd_pool (start jid pin) (drive_remote_start jid s1)"
      using s1(2) by (simp add: a_def begin_run_upd_pool drive_remote_start_def is_terminal_def)
    then have eq: "dispatch_to_server jid pin snapshot s = ?t\<lparr>tasks := tasks ?t @ [DriveRemote jid]\<rparr>"
      using Some by (simp add: dispatch_to_server_def Let_def s1_def [symmetric])
    have "keeps s ?t"
      using keeps_trans [OF assms(1) s1(1)] keeps_trans [OF keepsD(2) [OF s1(1)] a(1) b(1)] by blast
    then have "keeps s (dispatch_to_server jid pin snapshot s)"
      unfolding eq using keeps_trans [OF assms(1)] keeps_tasks keepsD(2) by blast
    moreover have "pool_ok ?t" by (rule pool_ok_bindings [OF b(3) a(2)])
    ultimately show ?thesis
      using bindingsD [OF b(3)] bindingsD [OF s1(3)] b(2) by (simp add: eq pool_ok_def a_def)
  qed
  then show "keeps s (dispatch_to_server jid pin snapshot s)" "pool_ok (dispatch_to_server jid pin snapshot s)"
    "set (in_flight (remote_dispatch (dispatch_to_server jid pin snapshot s))) \<subseteq>
       insert jid (set (in_flight (remote_dispatch s)))"
    "get_pairing s pin \<noteq> None \<Longrightarrow>
       status (store (dispatch_to_server jid pin snapshot s) jid) = RUNNING \<and>
       dict_get (job_peer (remote_dispatch (dispatch_to_server jid pin snapshot s))) jid = Some pin"
    by blast+
qed


lemma dispatch_remote_free:
  assumes "outcome (pick_dispatch_target inp) = DispatchOutcome.REMOTE"
  shows "\<exists>pin. decision_pin (pick_dispatch_target inp) = Some pin \<and> pin \<notin> busy_build_server_pins inp \<and>
    pin \<in> set (dict_keys (pairings inp))"
proof -
  obtain pin where p: "pick_free_pin (eligible_pairings inp) (peer_queue_status inp) = Some pin"
      "decision_pin (pick_dispatch_target inp) = Some pin"
    using assms
    by (auto simp: pick_dispatch_target_def Let_def DispatchDecision_local_def DispatchDecision_wait_def
        DispatchDecision_remote_def DispatchDecision_no_compatible_peer_def split: if_splits option.splits)
  have "pin \<in> set (eligible (eligible_pairings inp))" by (rule pick_free_pin_in [OF p(1)])
  then show ?thesis using p(2) by (auto simp: set_eligible filter_preds intro: rev_image_eqI)
qed

lemma fallback_ok:
  assumes "wf s" "ready s jid" "status (store s jid) = QUEUED"
  shows "keeps s (fallback_to_local jid s)" "bindings (fallback_to_local jid s) = bindings s"
proof -
  let ?t = "upd_job jid (apply_build_source LOCAL_JOB_BUILD_SOURCE) s"
  have t: "keeps s ?t" by (rule keeps_apply [OF assms(1,3)])
  have "keeps ?t (place_on_lane jid ?t)"
    using ready_evolves [OF keepsD(1) [OF t] assms(2)] by (intro keeps_place keepsD(2) [OF t]) (auto simp: ready_def)
  then show "keeps s (fallback_to_local jid s)"
    unfolding fallback_to_local_def using keeps_trans [OF assms(1) t] by blast
  show "bindings (fallback_to_local jid s) = bindings s" by (simp add: fallback_to_local_def)
qed

lemma keeps_drop: "wf s \<Longrightarrow> keeps s (upd_pool (drop_waiting jid) s)"
  by (intro keeps_quiet quiet_same) (auto simp: placed_def occupied_def)

lemma bindings_drop [simp]: "bindings (upd_pool (drop_waiting jid) s) = bindings s"
  by (simp add: bindings_def)

text \<open>One waiting compile.\<close>

lemma dispatch_one_ok:
  assumes "wf s" "pool_ok s" "ready s jid"
  shows "keeps s (snd (dispatch_one snapshot jid s)) \<and> pool_ok (snd (dispatch_one snapshot jid s))"
proof (cases "status (store s jid) = QUEUED")
  case False
  then show ?thesis
    using keeps_drop [OF assms(1)] pool_ok_bindings [OF bindings_drop assms(2)]
    by (simp add: dispatch_one_def)
next
  case True
  let ?d = "pick_dispatch_target (dispatch_inputs jid snapshot s)"
  have one: "snd (dispatch_one snapshot jid s) = t \<Longrightarrow> keeps s t \<Longrightarrow> bindings t = bindings s \<Longrightarrow> ?thesis" for t
    using pool_ok_bindings [of t s] assms(2) by auto
  show ?thesis
  proof (cases "outcome ?d")
    case REMOTE
    then obtain pin where pin: "decision_pin ?d = Some pin" "pin \<notin> busy_pins (remote_dispatch s)"
      using dispatch_remote_free [OF REMOTE] by (auto simp: dispatch_inputs_def)
    have "snd (dispatch_one snapshot jid s) = dispatch_to_server jid pin snapshot s"
      using True REMOTE pin(1) by (simp add: dispatch_one_def)
    then show ?thesis using dispatch_to_server_ok(1,2) [OF assms True pin(2)] by simp
  next
    case WAIT
    then show ?thesis using True one [of s] keeps_refl [OF assms(1)] by (simp add: dispatch_one_def)
  next
    case LOCAL
    then show ?thesis
      using True fallback_ok [OF assms(1,3) True] one [of "fallback_to_local jid s"] by (simp add: dispatch_one_def)
  next
    case NO_COMPATIBLE_PEER
    let ?u = "upd_pool (drop_waiting jid) s" and ?t = "fail_no_compatible_peer jid (decision_message ?d) s"
    have u: "keeps s ?u" by (rule keeps_drop [OF assms(1)])
    have "keeps ?u ?t"
      unfolding fail_no_compatible_peer_def
      using True assms(3) evolvesD(8) [OF keepsD(1) [OF u]]
      by (intro keeps_finalize(1) keepsD(2) [OF u]) (auto simp: ready_def is_active_iff)
    then have "keeps s ?t" using keeps_trans [OF assms(1) u] by blast
    moreover have "bindings ?t = bindings s" by (simp add: fail_no_compatible_peer_def)
    ultimately show ?thesis using True NO_COMPATIBLE_PEER one [of ?t] by (simp add: dispatch_one_def)
  qed
qed

lemma dispatch_each_ok:
  "wf s \<Longrightarrow> pool_ok s \<Longrightarrow> \<forall>i \<in> set jids. ready s i \<Longrightarrow>
   keeps s (snd (dispatch_each snapshot jids b s)) \<and> pool_ok (snd (dispatch_each snapshot jids b s))"
proof (induction jids arbitrary: b s)
  case Nil
  then show ?case by (simp add: keeps_refl)
next
  case (Cons jid jids)
  obtain r t where r: "dispatch_one snapshot jid s = (r, t)" by fastforce
  have t: "keeps s t" "pool_ok t" using dispatch_one_ok [OF Cons.prems(1,2), of jid snapshot] Cons.prems(3) r by auto
  have "\<forall>i \<in> set jids. ready t i" using Cons.prems(3) ready_evolves [OF keepsD(1) [OF t(1)]] by simp
  then show ?case
    using Cons.IH [OF keepsD(2) [OF t(1)] t(2)] r keeps_trans [OF Cons.prems(1) t(1)] by simp
qed

lemma dispatch_pending_ok:
  assumes "wf s" "pool_ok s" "offloader s = Some snapshot"
  shows "keeps s (dispatch_pending s)" "pool_ok (dispatch_pending s)"
proof -
  have "\<forall>i \<in> set (pending (remote_dispatch s)). ready s i"
    using ready_placed [OF assms(1)] by (auto simp: placed_def)
  then have t: "keeps s (snd (dispatch_each snapshot (pending (remote_dispatch s)) False s)) \<and>
      pool_ok (snd (dispatch_each snapshot (pending (remote_dispatch s)) False s))"
    by (intro dispatch_each_ok assms(1,2))
  obtain b u where u: "dispatch_each snapshot (pending (remote_dispatch s)) False s = (b, u)" by fastforce
  have eq: "dispatch_pending s = (if b then persist_jobs u else u)" using u assms(3) by (simp add: dispatch_pending_def)
  have "keeps u (if b then persist_jobs u else u)"
    using t u keepsD(2) keeps_safe [OF safe_persist] keeps_refl by auto
  then show "keeps s (dispatch_pending s)" unfolding eq using keeps_trans [OF assms(1), of u] t u by simp
  show "pool_ok (dispatch_pending s)"
    using t u pool_ok_bindings [OF bindings_persist, of u] by (simp add: eq)
qed

lemma one_binding:
  assumes "pool_ok s" "dict_get (job_peer (remote_dispatch s)) i = Some pin" "dict_get (job_peer (remote_dispatch s)) j = Some pin"
  shows "i = j \<and> i \<in> set (in_flight (remote_dispatch s))"
proof -
  let ?d = "job_peer (remote_dispatch s)"
  have mem: "(i, pin) \<in> set ?d" "(j, pin) \<in> set ?d" using assms(2,3) by (auto dest: map_of_SomeD)
  have inj: "inj_on snd (set ?d)" using assms(1) by (simp add: pool_ok_def distinct_map)
  have "(i, pin) = (j, pin)" by (intro inj_onD [OF inj] mem) simp
  moreover have "i \<in> set (dict_keys ?d)" using mem(1) by (auto intro: rev_image_eqI)
  ultimately show ?thesis using assms(1) by (auto simp: pool_ok_def)
qed

text \<open>
  C23. A matcher pass over the waiting compiles never binds one server to two jobs: when the pool was
  consistent before, every server drives at most one job after it, whatever the snapshot says and
  however many compiles wait. The pass keeps the queue well formed, drops no active job and strands none.
\<close>
theorem dispatch_no_double_booking:
  assumes "wf s" "pool_ok s" "offloader s = Some snapshot"
    "dict_get (job_peer (remote_dispatch (dispatch_pending s))) i = Some pin"
    "dict_get (job_peer (remote_dispatch (dispatch_pending s))) j = Some pin"
  shows "i = j \<and> i \<in> set (in_flight (remote_dispatch (dispatch_pending s))) \<and> wf (dispatch_pending s) \<and>
    (\<forall>k \<in> set (jobs s). is_active (store (dispatch_pending s) k) \<longrightarrow> k \<in> set (jobs (dispatch_pending s))) \<and>
    (\<forall>k. orphan (dispatch_pending s) k \<longrightarrow> orphan s k)"
  using one_binding [OF dispatch_pending_ok(2) [OF assms(1-3)] assms(4,5)]
    keepsD [OF dispatch_pending_ok(1) [OF assms(1-3)]] by blast

lemma source_local [simp]: "source (apply_build_source LOCAL_JOB_BUILD_SOURCE j) = JobSource.LOCAL"
  by (simp add: apply_build_source_def LOCAL_JOB_BUILD_SOURCE_def)

lemma fallback_other: "i \<noteq> k \<Longrightarrow> store (fallback_to_local k s) i = store s i"
  by (simp add: fallback_to_local_def place_on_lane_store)

lemma fallback_queue:
  "i \<in> set (lane_queue (get_lane n s)) \<Longrightarrow> i \<in> set (lane_queue (get_lane n (fallback_to_local k s)))"
  by (auto simp: fallback_to_local_def place_on_lane_def Let_def)

lemma fold_fallback_other: "i \<notin> set is \<Longrightarrow> store (fold fallback_to_local is s) i = store s i"
  by (induction "is" arbitrary: s) (simp_all add: fallback_other)

lemma fold_fallback_queue:
  "i \<in> set (lane_queue (get_lane n s)) \<Longrightarrow> i \<in> set (lane_queue (get_lane n (fold fallback_to_local is s)))"
  by (induction "is" arbitrary: s) (simp_all add: fallback_queue)

lemma fold_fallback_pending:
  "pending (remote_dispatch (fold fallback_to_local is s)) = filter (\<lambda>k. k \<notin> set is) (pending (remote_dispatch s))"
proof (induction "is" arbitrary: s)
  case (Cons k "is")
  have "pending (remote_dispatch (fallback_to_local k s)) = keys_pop k (pending (remote_dispatch s))"
    by (simp add: fallback_to_local_def place_on_lane_def Let_def)
  then show ?case using Cons [of "fallback_to_local k s"] by (simp add: keys_pop_def conj_commute)
qed simp

lemma fallback_lands:
  "i \<in> set is \<Longrightarrow> source (store (fold fallback_to_local is s) i) = JobSource.LOCAL \<and>
     (\<exists>n. i \<in> set (lane_queue (get_lane n (fold fallback_to_local is s))))"
proof (induction "is" arbitrary: s)
  case (Cons k "is")
  let ?t = "fallback_to_local k s"
  show ?case
  proof (cases "i \<in> set is")
    case True
    then show ?thesis using Cons.IH [of ?t] by simp
  next
    case False
    then have "i = k" using Cons.prems by simp
    have "source (store ?t k) = JobSource.LOCAL" "\<exists>n. k \<in> set (lane_queue (get_lane n ?t))"
      by (auto simp: fallback_to_local_def place_on_lane_def Let_def)
    then show ?thesis using fold_fallback_other [OF False, of ?t] fold_fallback_queue [of i _ ?t "is"] \<open>i = k\<close> by auto
  qed
qed simp

text \<open>
  C24. When remote builds go away no compile is left behind: the pass empties the waiting pool, and every
  compile that waited in it is on a lane, to be built locally.
\<close>
theorem flush_strands_none:
  assumes "offloader s = None"
  shows "pending (remote_dispatch (dispatch_pending s)) = [] \<and>
    (\<forall>i \<in> set (pending (remote_dispatch s)). source (store (dispatch_pending s) i) = JobSource.LOCAL \<and>
       (\<exists>n. i \<in> set (lane_queue (get_lane n (dispatch_pending s)))))"
proof -
  define f where "f = fold fallback_to_local (pending (remote_dispatch s)) s"
  have eq: "dispatch_pending s = (if pending (remote_dispatch s) \<noteq> [] then persist_jobs f else f)"
    using assms by (simp add: dispatch_pending_def flush_to_local_def f_def Let_def)
  have "pending (remote_dispatch f) = []" unfolding f_def fold_fallback_pending by (simp add: filter_empty_conv)
  moreover have lanes: "get_lane n (persist_jobs t) = get_lane n t" for n t by (cases n) simp_all
  moreover have src: "source (store (fold flush_output is t) i) = source (store t i)" for "is" t i
    by (induction "is" arbitrary: t) (simp_all add: flush_output_def write_job_sidecar_def)
  have "source (store (persist_jobs t) i) = source (store t i)" for t i
    by (simp add: persist_jobs_def Let_def reconcile_sidecars_def src)
  ultimately show ?thesis
    using fallback_lands [of _ "pending (remote_dispatch s)" s, folded f_def] unfolding eq by simp
qed


text \<open>Two compiles wait, one server is paired, and then none.\<close>

definition ex_pool :: "BuildSchedulerInputs option \<Rightarrow> fw" where
  "ex_pool off =
     (let r1 = create_job ''a.yaml'' COMPILE (\<lambda>j. j) REMOTE_PENDING_JOB_BUILD_SOURCE (ex_fw\<lparr>offloader := off\<rparr>);
          s1 = place_on_lane (fst r1) (snd r1);
          r2 = create_job ''b.yaml'' COMPILE (\<lambda>j. j) REMOTE_PENDING_JOB_BUILD_SOURCE s1
      in place_on_lane (fst r2) (snd r2))"

lemma ex_pool_pending: "pending (remote_dispatch (ex_pool off)) = [''u0'', ''u1'']"
  by (simp add: ex_pool_def Let_def create_job_def fresh_uuid_def now_iso_def ex_fw_def new_fw_def ex_ids_values
      place_on_lane_def apply_build_source_def new_FirmwareJob_def REMOTE_PENDING_JOB_BUILD_SOURCE_def
      REMOTE_POOL_JOB_TYPES_def new_pool_def hold_def keys_add_def upd_pool_def)

lemma flush_strands_none_witness:
  "pending (remote_dispatch (dispatch_pending (ex_pool None))) = [] \<and>
   source (store (dispatch_pending (ex_pool None)) ''u0'') = JobSource.LOCAL \<and>
   source (store (dispatch_pending (ex_pool None)) ''u1'') = JobSource.LOCAL"
proof -
  have "offloader (ex_pool None) = None"
    by (simp add: ex_pool_def Let_def create_job_def fresh_uuid_def now_iso_def ex_fw_def new_fw_def)
  from flush_strands_none [OF this] show ?thesis by (simp add: ex_pool_pending)
qed


lemma wf_create_place:
  assumes "wf s" "create_job conf ty (\<lambda>j. j) b s = (jid, t)"
  shows "wf t" "wf (place_on_lane jid t)"
proof -
  show t: "wf t" by (rule steps_ok_create_job(2) [OF assms(2,1)]) simp_all
  have "depends_on (store t jid) = []"
    using create_job_eq [OF assms(2)] by (simp add: apply_build_source_def new_FirmwareJob_def)
  then show "wf (place_on_lane jid t)"
    using create_job_fresh(2) [OF assms(2,1)] by (intro wf_place_on_lane [OF t]) simp_all
qed

lemma create_frame:
  "create_job conf ty kwargs b s = (jid, t) \<Longrightarrow> bindings t = bindings s \<and> offloader t = offloader s"
  by (drule create_job_eq) (simp add: bindings_def)

lemma ex_pool_facts:
  "wf (ex_pool off) \<and> bindings (ex_pool off) = ([], [], {}) \<and> offloader (ex_pool off) = off"
proof -
  define s0 where "s0 = ex_fw\<lparr>offloader := off\<rparr>"
  have w0: "wf s0"
    unfolding s0_def
  proof (rule quiet_wf [OF quiet_same [of ex_fw]])
    show "placed (ex_fw\<lparr>offloader := off\<rparr>) i \<Longrightarrow> placed ex_fw i" for i
      by (simp add: placed_eqI [of "ex_fw\<lparr>offloader := off\<rparr>" ex_fw])
    show "occupied ex_fw i \<Longrightarrow> occupied (ex_fw\<lparr>offloader := off\<rparr>) i" for i
      by (simp add: placed_eqI [of "ex_fw\<lparr>offloader := off\<rparr>" ex_fw])
  qed simp_all
  have b0: "bindings s0 = ([], [], {})" "offloader s0 = off"
    by (simp_all add: s0_def bindings_def ex_fw_def new_fw_def new_pool_def)
  obtain i t where c1: "create_job ''a.yaml'' COMPILE (\<lambda>j. j) REMOTE_PENDING_JOB_BUILD_SOURCE s0 = (i, t)" by fastforce
  note w1 = wf_create_place(2) [OF w0 c1]
  obtain k u where c2: "create_job ''b.yaml'' COMPILE (\<lambda>j. j) REMOTE_PENDING_JOB_BUILD_SOURCE (place_on_lane i t) = (k, u)"
    by fastforce
  have eq: "ex_pool off = place_on_lane k u" by (simp add: ex_pool_def c1 c2 flip: s0_def)
  show ?thesis unfolding eq
    using wf_create_place(2) [OF w1 c2] create_frame [OF c1] create_frame [OF c2] b0 by simp
qed

lemma wf_ex_pool [simp]: "wf (ex_pool off)"
  using ex_pool_facts by blast

lemma pool_ok_ex_pool: "pool_ok (ex_pool off)" "in_flight (remote_dispatch (ex_pool off)) = []" "offloader (ex_pool off) = off"
  using ex_pool_facts [of off] by (simp_all add: bindings_def pool_ok_def)

lemma dispatch_no_double_booking_witness:
  "''u0'' \<in> set (in_flight (remote_dispatch (dispatch_pending
     (ex_pool (Some (ex_inputs [(''pa'', ex_pairing ''pa'' 1 ''2026.5.0'')] {} False))))))"
proof -
  let ?off = "Some (ex_inputs [(''pa'', ex_pairing ''pa'' 1 ''2026.5.0'')] {} False)"
  have d: "dict_get (job_peer (remote_dispatch (dispatch_pending (ex_pool ?off)))) ''u0'' = Some ''pa''"
    by code_simp
  show ?thesis
    using dispatch_no_double_booking [OF wf_ex_pool pool_ok_ex_pool(1) pool_ok_ex_pool(3) d d] by simp
qed

section \<open>A lost server\<close>

lemma keeps_pool:
  assumes "wf s" "\<And>i. placed (s\<lparr>remote_dispatch := d\<rparr>) i \<Longrightarrow> placed s i"
    "\<And>i. status (store s i) = RUNNING \<Longrightarrow> occupied s i \<Longrightarrow> occupied (s\<lparr>remote_dispatch := d\<rparr>) i"
  shows "keeps s (s\<lparr>remote_dispatch := d\<rparr>)"
  using assms by (intro keeps_quiet quiet_same) simp_all

lemma get_lane_pool [simp]: "get_lane n (s\<lparr>remote_dispatch := d\<rparr>) = get_lane n s"
  by (cases n) simp_all

end
