(* ===== verification/RemoteDriver.thy ===== *)
theory RemoteDriver
  imports RemoteDispatch
begin

text \<open>
  What the end of a remote driver (\<open>_drive_remote\<close> and its requeues in
  \<open>controllers/firmware/remote_dispatch.py\<close>) does to the queue. The definitions are in
  \<open>RemoteDispatch\<close>; the lemmas show that a lost server frees its slot and re-routes the job a bounded
  number of times, and that every way the driver ends keeps the queue well formed.
\<close>

section \<open>A line added to a log\<close>

text \<open>An ingested line only touches the log, the gauge and the compile stamps.\<close>

lemma ingest_only:
  obtains out v n a b where
    "fst (ingest_output_line now j line) =
       j\<lparr>output := out, progress := v, ninja_total := n, compile_started_at := a, compile_ended_at := b\<rparr>"
proof -
  have st: "\<exists>a b. stamp_compile_phase now i line = i\<lparr>compile_started_at := a, compile_ended_at := b\<rparr>" for i
  proof -
    have "stamp_compile_phase now i line =
        i\<lparr>compile_started_at := compile_started_at (stamp_compile_phase now i line),
          compile_ended_at := compile_ended_at (stamp_compile_phase now i line)\<rparr>"
      by (simp add: stamp_compile_phase_def)
    then show ?thesis by blast
  qed
  have pa: "\<exists>n. snd (ingest_parse i line) = i\<lparr>ninja_total := n\<rparr>" for i
  proof -
    have "snd (ingest_parse i line) = i\<lparr>ninja_total := ninja_total (snd (ingest_parse i line))\<rparr>"
      by (simp add: ingest_parse_def ninja_progress_def split: option.split prod.split)
    then show ?thesis by blast
  qed
  obtain out a b where b: "ingest_buffer now j line =
      j\<lparr>output := out, compile_started_at := a, compile_ended_at := b\<rparr>"
    unfolding ingest_buffer_def using st by metis
  obtain v i where p: "ingest_parse (ingest_buffer now j line) line = (v, i)" by fastforce
  then obtain n where i: "i = (ingest_buffer now j line)\<lparr>ninja_total := n\<rparr>" using pa by (metis snd_conv)
  let ?r = "fst (ingest_output_line now j line)"
  have "?r = i \<or> (\<exists>v. ?r = i\<lparr>progress := Some v\<rparr>)"
    by (cases v) (auto simp: ingest_eq p)
  moreover have "i = i\<lparr>progress := progress i\<rparr>" by simp
  ultimately obtain w where "?r = i\<lparr>progress := w\<rparr>" by metis
  then have "?r = j\<lparr>output := out, progress := w, ninja_total := n, compile_started_at := a, compile_ended_at := b\<rparr>"
    by (simp add: i b)
  then show ?thesis by (rule that)
qed

lemma notice_fields [simp]:
  "job_identity (fst (ingest_notice_line now j text)) = job_identity j"
  "status (fst (ingest_notice_line now j text)) = status j"
  "dependency_released (fst (ingest_notice_line now j text)) = dependency_released j"
  "depends_on (fst (ingest_notice_line now j text)) = depends_on j"
  "job_type (fst (ingest_notice_line now j text)) = job_type j"
proof -
  obtain l where l: "ingest_notice_line now j text = ingest_output_line now j l"
    by (simp add: ingest_notice_line_def Let_def)
  obtain out v n a b where "fst (ingest_output_line now j l) =
       j\<lparr>output := out, progress := v, ninja_total := n, compile_started_at := a, compile_ended_at := b\<rparr>"
    by (rule ingest_only)
  then show "job_identity (fst (ingest_notice_line now j text)) = job_identity j"
    "status (fst (ingest_notice_line now j text)) = status j"
    "dependency_released (fst (ingest_notice_line now j text)) = dependency_released j"
    "depends_on (fst (ingest_notice_line now j text)) = depends_on j"
    "job_type (fst (ingest_notice_line now j text)) = job_type j"
    by (simp_all add: l job_identity_def)
qed

lemma fold_fire_frame [simp]:
  "store (fold fire_event es s) = store s" "jobs (fold fire_event es s) = jobs s"
  "remote_dispatch (fold fire_event es s) = remote_dispatch s"
  "cancel_requested (fold fire_event es s) = cancel_requested s"
  "bindings (fold fire_event es s) = bindings s"
  by (induction es arbitrary: s) simp_all

lemma quiet_fold_fire: "wf s \<Longrightarrow> quiet s (fold fire_event es s)"
proof (induction es arbitrary: s)
  case (Cons e es)
  then show ?case using quiet_trans [OF quiet_fire_event Cons.IH [OF quiet_wf [OF quiet_fire_event]]] by simp
qed (simp add: quiet_refl)

lemma ingest_notice_ok:
  assumes "wf s" "is_active (store s jid)"
  shows "keeps s (ingest_notice jid text s)" "remote_dispatch (ingest_notice jid text s) = remote_dispatch s"
    "cancel_requested (ingest_notice jid text s) = cancel_requested s"
    "jobs (ingest_notice jid text s) = jobs s"
    "status (store (ingest_notice jid text s) i) = status (store s i)"
proof -
  obtain now t where now: "now_iso s = (now, t)" by fastforce
  have t: "keeps s t" "store t = store s" "remote_dispatch t = remote_dispatch s" "jobs t = jobs s"
    "cancel_requested t = cancel_requested s"
    using keeps_tick [OF assms(1) now] now by (auto simp: now_iso_def)
  obtain j ev where j: "ingest_notice_line now (store s jid) text = (j, ev)" by fastforce
  define f where "f = (\<lambda>k. fst (ingest_notice_line now k text))"
  have eq: "ingest_notice jid text s = fold fire_event ev (upd_job jid f t)"
    using upd_job_cong [of "\<lambda>_. j" t jid f] t(2) j by (simp add: ingest_notice_def now f_def)
  have u: "keeps t (upd_job jid f t)"
    using assms(2) keepsD(2) [OF t(1)] t(2)
    by (intro keeps_upd_job) (simp_all add: f_def is_active_iff)
  note su = keeps_trans [OF assms(1) t(1) u]
  show "keeps s (ingest_notice jid text s)"
    unfolding eq using keepsD(2) [OF su] keeps_quiet quiet_fold_fire by (intro keeps_trans [OF assms(1) su]) blast
  show "remote_dispatch (ingest_notice jid text s) = remote_dispatch s"
    "cancel_requested (ingest_notice jid text s) = cancel_requested s"
    "jobs (ingest_notice jid text s) = jobs s"
    "status (store (ingest_notice jid text s) i) = status (store s i)"
    using t by (simp_all add: eq f_def)
qed

lemma bindings_notice [simp]:
  "wf s \<Longrightarrow> is_active (store s jid) \<Longrightarrow> bindings (ingest_notice jid text s) = bindings s"
  using ingest_notice_ok(2,3) [of s jid] by (simp add: bindings_def)

section \<open>Back to the pool\<close>

text \<open>A job that was let through once may wait for a slot again.\<close>

lemma keeps_requeue:
  assumes "wf s" "ready s jid" "is_active (store s jid)" "\<And>j. job_identity (f j) = job_identity j"
    "\<And>j. dependency_released (f j) = dependency_released j" "\<And>j. status (f j) = QUEUED"
  shows "keeps s (upd_job jid f s)" "ready (upd_job jid f s) jid"
proof -
  have dep: "depends_on (f j) = depends_on j" "job_id (f j) = job_id j" for j
    using assms(4) [of j] by (simp_all add: job_identity_def)
  have w: "wf (upd_job jid f s)"
    using assms(3) by (intro wf_upd_job [OF assms(1) dep(1) assms(5) dep(2)]) (auto simp: is_active_iff assms(6))
  moreover have e: "evolves s (upd_job jid f s)"
    using assms(3) by (intro evolves_upd_job) (simp_all add: assms(4,5) is_terminal_iff_not_active)
  moreover have "orphan s i" if "orphan (upd_job jid f s) i" for i
  proof (cases "i = jid")
    case True
    then have "depends_on (store s jid) \<noteq> [] \<and> \<not> dependency_released (store s jid)"
      using that by (simp add: orphan_def held_def dep assms(5))
    then show ?thesis using assms(2) by (simp add: ready_def)
  next
    case False
    then show ?thesis using that assms(3) by (auto simp: orphan_def held_def is_active_iff assms(6) split: if_splits)
  qed
  ultimately show "keeps s (upd_job jid f s)" by (simp add: keeps_def)
  show "ready (upd_job jid f s) jid" by (rule ready_evolves [OF e assms(2)])
qed

lemma revert_fields [simp]:
  "job_identity (revert_to_pending_remote j) = job_identity j" "status (revert_to_pending_remote j) = QUEUED"
  "dependency_released (revert_to_pending_remote j) = dependency_released j"
  "source (revert_to_pending_remote j) = JobSource.REMOTE_PENDING"
  "job_type (revert_to_pending_remote j) = job_type j"
  by (simp_all add: revert_to_pending_remote_def apply_build_source_def clear_run_state_def job_identity_def
      REMOTE_PENDING_JOB_BUILD_SOURCE_def)

lemma return_to_pool_ok:
  assumes "wf s" "ready s jid" "is_active (store s jid)"
  shows "keeps s (return_to_pool jid s)" "bindings (return_to_pool jid s) = bindings s"
    "retries (remote_dispatch (return_to_pool jid s)) = retries (remote_dispatch s) \<or>
       job_type (store s jid) \<notin> REMOTE_POOL_JOB_TYPES"
    "jid \<in> set (pending (remote_dispatch (return_to_pool jid s))) \<or> job_type (store s jid) \<notin> REMOTE_POOL_JOB_TYPES"
    "status (store (return_to_pool jid s) jid) = QUEUED"
    "source (store (return_to_pool jid s) jid) = JobSource.REMOTE_PENDING"
    "jobs (return_to_pool jid s) = jobs s"
proof -
  define u where "u = upd_job jid revert_to_pending_remote s"
  have u: "keeps s u" "ready u jid" unfolding u_def by (rule keeps_requeue [OF assms]; simp)+
  have eq: "return_to_pool jid s = place_on_lane jid u" by (simp add: return_to_pool_def u_def)
  show "keeps s (return_to_pool jid s)"
    unfolding eq using u(2) by (intro keeps_trans [OF assms(1) u(1)] keeps_place keepsD(2) [OF u(1)]) (auto simp: ready_def)
  show "bindings (return_to_pool jid s) = bindings s" by (simp add: eq u_def)
  show "retries (remote_dispatch (return_to_pool jid s)) = retries (remote_dispatch s) \<or>
       job_type (store s jid) \<notin> REMOTE_POOL_JOB_TYPES"
    "jid \<in> set (pending (remote_dispatch (return_to_pool jid s))) \<or> job_type (store s jid) \<notin> REMOTE_POOL_JOB_TYPES"
    by (auto simp: eq place_on_lane_def u_def Let_def)
  show "status (store (return_to_pool jid s) jid) = QUEUED"
    "source (store (return_to_pool jid s) jid) = JobSource.REMOTE_PENDING"
    by (simp_all add: eq place_on_lane_store u_def)
  show "jobs (return_to_pool jid s) = jobs s" by (simp add: eq u_def)
qed

text \<open>Only the waiting jobs and the losses of the pool change.\<close>

lemma keeps_retries:
  assumes "wf s"
  shows "keeps s (upd_pool (\<lambda>d. d\<lparr>retries := f d\<rparr>) s)"
  using assms by (intro keeps_quiet quiet_same) (auto simp: placed_def occupied_def)

lemma record_loss_upd:
  "record_loss jid (remote_dispatch s) = (n, d) \<Longrightarrow>
   n = Suc (losses (remote_dispatch s) jid) \<and>
   s\<lparr>remote_dispatch := d\<rparr> = upd_pool (\<lambda>d. d\<lparr>retries := dict_set jid (Suc (losses d jid)) (retries d)\<rparr>) s"
  by (auto simp: record_loss_def Let_def upd_pool_def)

lemma forget_upd: "upd_pool (forget_losses jid) = upd_pool (\<lambda>d. d\<lparr>retries := dict_pop jid (retries d)\<rparr>)"
  by (simp add: forget_losses_def fun_eq_iff)

lemma bindings_retries [simp]: "bindings (upd_pool (\<lambda>d. d\<lparr>retries := f d\<rparr>) s) = bindings s"
  by (simp add: bindings_def)

lemma requeue_after_server_loss_ok:
  fixes reason
  assumes "wf s" "ready s jid" "status (store s jid) = RUNNING"
  defines "t \<equiv> requeue_after_server_loss jid reason s"
  shows "keeps s t" "bindings t = bindings s"
    "losses (remote_dispatch s) jid < MAX_SERVER_LOSS_RETRIES \<Longrightarrow>
       status (store t jid) = QUEUED \<and> source (store t jid) = JobSource.REMOTE_PENDING"
    "losses (remote_dispatch s) jid < MAX_SERVER_LOSS_RETRIES \<Longrightarrow> job_type (store s jid) \<in> REMOTE_POOL_JOB_TYPES \<Longrightarrow>
       jid \<in> set (pending (remote_dispatch t)) \<and> losses (remote_dispatch t) jid = Suc (losses (remote_dispatch s) jid)"
    "\<not> losses (remote_dispatch s) jid < MAX_SERVER_LOSS_RETRIES \<Longrightarrow>
       status (store t jid) = FAILED \<and> losses (remote_dispatch t) jid = 0"
proof -
  obtain n d where n: "record_loss jid (remote_dispatch s) = (n, d)" by fastforce
  define u where "u = s\<lparr>remote_dispatch := d\<rparr>"
  have u_eq: "n = Suc (losses (remote_dispatch s) jid)"
    "u = upd_pool (\<lambda>d. d\<lparr>retries := dict_set jid (Suc (losses d jid)) (retries d)\<rparr>) s"
    using record_loss_upd [OF n] by (simp_all add: u_def)
  have u: "keeps s u" "store u = store s" "bindings u = bindings s" "losses (remote_dispatch u) jid = n"
    "jobs u = jobs s"
    using keeps_retries [OF assms(1)] by (simp_all add: u_eq losses_def)
  note wu = keepsD(2) [OF u(1)] and ru = ready_evolves [OF keepsD(1) [OF u(1)] assms(2)]
  have act: "is_active (store u jid)" using assms(3) u(2) by (simp add: is_active_iff)
  show "keeps s t" "bindings t = bindings s"
    "losses (remote_dispatch s) jid < MAX_SERVER_LOSS_RETRIES \<Longrightarrow>
       status (store t jid) = QUEUED \<and> source (store t jid) = JobSource.REMOTE_PENDING"
    "losses (remote_dispatch s) jid < MAX_SERVER_LOSS_RETRIES \<Longrightarrow> job_type (store s jid) \<in> REMOTE_POOL_JOB_TYPES \<Longrightarrow>
       jid \<in> set (pending (remote_dispatch t)) \<and> losses (remote_dispatch t) jid = Suc (losses (remote_dispatch s) jid)"
    "\<not> losses (remote_dispatch s) jid < MAX_SERVER_LOSS_RETRIES \<Longrightarrow>
       status (store t jid) = FAILED \<and> losses (remote_dispatch t) jid = 0"
  proof (atomize (full), goal_cases)
    case 1
    show ?case
    proof (cases "n > MAX_SERVER_LOSS_RETRIES")
      case True
      obtain err where t: "t = upd_pool (forget_losses jid) (snd (finalize_terminal jid FAILED err u))"
        using True by (simp add: t_def requeue_after_server_loss_def n u_def [symmetric])
      have f: "keeps u (snd (finalize_terminal jid FAILED err u))"
        "status (store (snd (finalize_terminal jid FAILED err u)) jid) = FAILED"
        using keeps_finalize(1,2) [OF wu _ act, of FAILED err] ru by (simp_all add: ready_def)
      note sf = keeps_trans [OF assms(1) u(1) f(1)]
      have "keeps s t"
        unfolding t forget_upd by (rule keeps_trans [OF assms(1) sf keeps_retries [OF keepsD(2) [OF sf]]])
      moreover have "bindings t = bindings s" using u(3) by (simp add: t forget_upd)
      ultimately show ?thesis using True u_eq(1) f(2) by (simp add: t losses_def forget_losses_def)
    next
      case False
      obtain msg where t: "t = return_to_pool jid (ingest_notice jid msg u)"
        using False by (simp add: t_def requeue_after_server_loss_def n u_def [symmetric])
      define w where "w = ingest_notice jid msg u"
      note i = ingest_notice_ok [OF wu act, of msg, folded w_def]
      have aw: "is_active (store w jid)" using i(5) act by (simp add: is_active_def)
      have "jid \<notin> fresh_ids u" using ru by (simp add: ready_def)
      then have ty: "job_type (store w jid) = job_type (store s jid)"
        using evolvesD(2) [OF keepsD(1) [OF i(1)]] u(2) by simp
      note r = return_to_pool_ok [OF keepsD(2) [OF i(1)] ready_evolves [OF keepsD(1) [OF i(1)] ru] aw]
      have "keeps s t"
        unfolding t w_def [symmetric]
        using keeps_trans [OF assms(1) u(1)] keeps_trans [OF wu i(1) r(1)] by blast
      moreover have "bindings t = bindings s"
        using r(2) i(2,3) u(3) by (simp add: t w_def [symmetric] bindings_def)
      moreover have "job_type (store s jid) \<in> REMOTE_POOL_JOB_TYPES \<Longrightarrow> losses (remote_dispatch t) jid = n"
        using r(3) ty i(2) u(4) by (simp add: t w_def [symmetric] losses_def)
      ultimately show ?thesis
        using False u_eq(1) r(4,5,6) ty by (auto simp: t w_def [symmetric])
    qed
  qed
qed

section \<open>The end of the driver\<close>

lemma trim_fields [simp]:
  "job_identity (trim_job_output k j) = job_identity j" "status (trim_job_output k j) = status j"
  "dependency_released (trim_job_output k j) = dependency_released j"
  "is_deferred_install (trim_job_output k j) = is_deferred_install j" "source (trim_job_output k j) = source j"
  by (simp_all add: trim_job_output_def job_identity_def)

lemma keeps_trim:
  assumes "wf s"
  shows "keeps s (upd_job jid (trim_job_output k) s)"
proof (rule keeps_steps)
  show "steps_ok s (upd_job jid (trim_job_output k) s)"
    using assms by (intro steps_ok_upd_job) simp_all
  show "orphan (upd_job jid (trim_job_output k) s) i \<Longrightarrow> orphan s i" for i
    by (auto simp: orphan_def held_def trim_job_output_def is_active_def split: if_splits)
qed

lemma end_run_ok:
  assumes "wf s"
  shows "keeps s (end_run jid s)" "remote_dispatch (end_run jid s) = remote_dispatch s"
    "cancel_requested (end_run jid s) = cancel_requested s"
    "status (store (end_run jid s) i) = status (store s i)"
    "source (store (end_run jid s) i) = source (store s i)"
proof -
  define u where "u = (if job_type (store s jid) \<notin> EPHEMERAL_JOB_TYPES
    then upd_job jid (trim_job_output MAX_OUTPUT_LINES_RETAINED) s else s)"
  define v where "v = (if is_terminal (store s jid) then prune_history u else s)"
  have u: "keeps s u" "status (store u i) = status (store s i)" "source (store u i) = source (store s i)" for i
    using keeps_trim [OF assms] keeps_refl [OF assms] by (simp_all add: u_def)
  have p: "keeps u (prune_history u)" by (rule keeps_safe [OF safe_prune [OF keepsD(2) [OF u(1)]]])
  have v: "keeps s v" using keeps_trans [OF assms u(1) p] keeps_refl [OF assms] by (simp add: v_def)
  have eq: "end_run jid s = persist_jobs v" by (simp add: end_run_def v_def u_def)
  show "keeps s (end_run jid s)"
    unfolding eq by (rule keeps_trans [OF assms v keeps_safe [OF safe_persist [OF keepsD(2) [OF v]]]])
  show "remote_dispatch (end_run jid s) = remote_dispatch s"
    "cancel_requested (end_run jid s) = cancel_requested s"
    by (simp_all add: eq v_def u_def prune_history_def)
  note pe = persist_store [OF wfD(1) [OF keepsD(2) [OF v]]]
  show "status (store (end_run jid s) i) = status (store s i)" "source (store (end_run jid s) i) = source (store s i)"
    using u(2,3) by (simp_all add: eq pe) (simp_all add: v_def prune_history_def)
qed

text \<open>Releasing the slot is sound once the job no longer runs.\<close>

lemma keeps_release:
  assumes "wf s" "status (store s jid) \<noteq> RUNNING"
  shows "keeps s (upd_pool (release jid) s)"
  using assms by (intro keeps_quiet quiet_same) (auto simp: placed_def occupied_def)

text \<open>The slot freed, the losses of a finished job forgotten, the history saved.\<close>

lemma drive_end_tail:
  assumes "wf u" "pool_ok u" "status (store u jid) \<noteq> RUNNING"
  defines "v \<equiv> upd_pool (release jid) u"
  defines "t \<equiv> end_run jid (if is_terminal (store v jid) then upd_pool (forget_losses jid) v else v)"
  shows "keeps u t" "pool_ok t" "jid \<notin> set (in_flight (remote_dispatch t))"
    "dict_get (job_peer (remote_dispatch t)) jid = None"
    "status (store t i) = status (store u i)" "source (store t i) = source (store u i)"
    "pending (remote_dispatch t) = pending (remote_dispatch u)"
    "losses (remote_dispatch t) jid = (if is_terminal (store u jid) then 0 else losses (remote_dispatch u) jid)"
    "wake (remote_dispatch t)"
proof -
  define w where "w = (if is_terminal (store v jid) then upd_pool (forget_losses jid) v else v)"
  have v: "keeps u v" unfolding v_def by (rule keeps_release [OF assms(1,3)])
  have w: "keeps v w" "store w = store v" "bindings w = bindings v"
    "pending (remote_dispatch w) = pending (remote_dispatch v)" "wake (remote_dispatch w) = wake (remote_dispatch v)"
    using keeps_retries [OF keepsD(2) [OF v]] keeps_refl [OF keepsD(2) [OF v]] by (simp_all add: w_def forget_upd)
  note uw = keeps_trans [OF assms(1) v w(1)]
  note e = end_run_ok [OF keepsD(2) [OF uw], of jid]
  have t: "t = end_run jid w" by (simp add: t_def w_def)
  show "keeps u t" unfolding t by (rule keeps_trans [OF assms(1) uw e(1)])
  have b: "bindings t = bindings v" using e(2,3) w(3) by (simp add: t bindings_def)
  show "pool_ok t" using pool_ok_bindings [OF b] pool_ok_release [OF assms(2)] by (simp add: v_def)
  show "jid \<notin> set (in_flight (remote_dispatch t))" "dict_get (job_peer (remote_dispatch t)) jid = None"
    using bindingsD [OF b] by (simp_all add: v_def)
  show "status (store t i) = status (store u i)" "source (store t i) = source (store u i)"
    using e(4,5) w(2) by (simp_all add: t v_def)
  show "pending (remote_dispatch t) = pending (remote_dispatch u)" "wake (remote_dispatch t)"
    using e(2) w(4,5) by (simp_all add: t v_def release_def)
  show "losses (remote_dispatch t) jid = (if is_terminal (store u jid) then 0 else losses (remote_dispatch u) jid)"
    by (simp add: t e(2)) (simp add: w_def v_def losses_def forget_losses_def)
qed

lemma drive_remote_end_eq:
  "drive_remote_end jid oc s =
     (let u = (case oc of
                  Returned \<Rightarrow> s
                | RemoteServerLost reason \<Rightarrow> requeue_after_server_loss jid reason s
                | ProvisionUnavailable reason \<Rightarrow> requeue_after_provision_failure jid reason s
                | Raised text \<Rightarrow> snd (finalize_unexpected_error jid text s));
          v = upd_pool (release jid) u
      in end_run jid (if is_terminal (store v jid) then upd_pool (forget_losses jid) v else v))"
  by (simp add: drive_remote_end_def Let_def)

text \<open>
  C25. A compile whose server vanished mid-build is re-routed a bounded number of times: while it was lost
  fewer than three times before, it waits in the pool again, queued, unpinned and with one more loss on
  record, and the matcher is woken; the next loss fails it and forgets its losses. Either way its server
  is free again, the pool stays consistent and no job is stranded.
\<close>
theorem server_loss_spec:
  assumes "wf s" "pool_ok s" "jid \<in> set (jobs s)" "jid \<in> set (in_flight (remote_dispatch s))"
    "status (store s jid) = RUNNING" "job_type (store s jid) \<in> REMOTE_POOL_JOB_TYPES"
    "t = drive_remote_end jid (RemoteServerLost reason) s"
  shows "wf t \<and> pool_ok t \<and> jid \<notin> set (in_flight (remote_dispatch t)) \<and>
    dict_get (job_peer (remote_dispatch t)) jid = None \<and> wake (remote_dispatch t) \<and>
    (\<forall>i. orphan t i \<longrightarrow> orphan s i) \<and>
    (if losses (remote_dispatch s) jid < 3
     then status (store t jid) = QUEUED \<and> source (store t jid) = JobSource.REMOTE_PENDING \<and>
       jid \<in> set (pending (remote_dispatch t)) \<and> jid \<in> set (jobs t) \<and>
       losses (remote_dispatch t) jid = Suc (losses (remote_dispatch s) jid)
     else status (store t jid) = FAILED \<and> losses (remote_dispatch t) jid = 0)"
proof -
  define u where "u = requeue_after_server_loss jid reason s"
  have rdy: "ready s jid" using assms(1,4) by (intro ready_placed) (auto simp: placed_def)
  note r = requeue_after_server_loss_ok [OF assms(1) rdy assms(5), of reason, folded u_def]
  have lim: "MAX_SERVER_LOSS_RETRIES = 3" by (simp add: MAX_SERVER_LOSS_RETRIES_def)
  have nr: "status (store u jid) \<noteq> RUNNING" using r(3,5) by (cases "losses (remote_dispatch s) jid < 3") (simp_all add: lim)
  have t: "t = (let v = upd_pool (release jid) u
      in end_run jid (if is_terminal (store v jid) then upd_pool (forget_losses jid) v else v))"
    unfolding assms(7) drive_remote_end_eq u_def Let_def by simp
  note e = drive_end_tail [OF keepsD(2) [OF r(1)] pool_ok_bindings [OF r(2) assms(2)] nr,
      folded t [unfolded Let_def]]
  note st = keepsD [OF keeps_trans [OF assms(1) r(1) e(1)]]
  show ?thesis
    using e(2-9) st(2,3) st(4) [OF assms(3)] r(3-5) assms(6) by (simp add: lim is_terminal_def is_active_iff)
qed

section \<open>A server that cannot provision the version\<close>

lemma notice_running:
  assumes "status (store s jid) = RUNNING"
  shows "status (store (ingest_notice jid msg s) jid) = RUNNING"
    "cancel_requested (ingest_notice jid msg s) = cancel_requested s"
    "remote_dispatch (ingest_notice jid msg s) = remote_dispatch s"
    "get_lane n (ingest_notice jid msg s) = get_lane n s" "jobs (ingest_notice jid msg s) = jobs s"
proof -
  obtain now t where now: "now_iso s = (now, t)" by fastforce
  then have t: "t = s\<lparr>ticks := Suc (ticks s)\<rparr>" by (simp add: now_iso_def)
  obtain j ev where j: "ingest_notice_line now (store s jid) msg = (j, ev)" by fastforce
  have eq: "ingest_notice jid msg s = fold fire_event ev (upd_job jid (\<lambda>_. j) t)"
    using j by (simp add: ingest_notice_def now t)
  have "status j = RUNNING" using notice_fields(2) [of now "store s jid" msg] j assms by simp
  moreover have "get_lane n (fold fire_event es u) = get_lane n u" for es u
    by (induction es arbitrary: u) simp_all
  moreover have "get_lane n (s\<lparr>ticks := k\<rparr>) = get_lane n s" for k by (cases n) simp_all
  ultimately show "status (store (ingest_notice jid msg s) jid) = RUNNING"
    "cancel_requested (ingest_notice jid msg s) = cancel_requested s"
    "remote_dispatch (ingest_notice jid msg s) = remote_dispatch s"
    "get_lane n (ingest_notice jid msg s) = get_lane n s" "jobs (ingest_notice jid msg s) = jobs s"
    by (simp_all add: eq t)
qed

lemma end_run_running:
  assumes "\<not> is_terminal (store s jid)" "distinct (jobs s)"
  shows "status (store (end_run jid s) i) = status (store s i)" "remote_dispatch (end_run jid s) = remote_dispatch s"
    "get_lane n (end_run jid s) = get_lane n s" "jobs (end_run jid s) = jobs s"
    "source (store (end_run jid s) i) = source (store s i)"
proof -
  have eq: "end_run jid s = persist_jobs s" using assms(1) by (simp add: end_run_def)
  show "get_lane n (end_run jid s) = get_lane n s" by (cases n) (simp_all add: eq)
  have "jobs (fold flush_output is u) = jobs u" for "is" u
    by (induction "is" arbitrary: u) (simp_all add: flush_output_def write_job_sidecar_def)
  then show "jobs (end_run jid s) = jobs s" by (simp add: eq persist_jobs_def Let_def reconcile_sidecars_def)
  show "status (store (end_run jid s) i) = status (store s i)" "remote_dispatch (end_run jid s) = remote_dispatch s"
    "source (store (end_run jid s) i) = source (store s i)"
    by (simp_all add: eq persist_store [OF assms(2)])
qed

text \<open>
  C26. A compile whose server could not provision the version goes to a lane's queue for a local build, but
  it keeps the status of the run that ended: it is still \<open>RUNNING\<close> while it waits, holds no slot, and
  cancelling it raises the \<open>state out of sync\<close> error until the lane picks it up.
\<close>
theorem provision_failure_uncancellable:
  assumes "distinct (jobs s)" "jid \<in> set (jobs s)" "status (store s jid) = RUNNING"
    "\<not> job_is_on_a_lane s jid" "t = drive_remote_end jid (ProvisionUnavailable reason) s"
  shows "source (store t jid) = JobSource.LOCAL \<and> status (store t jid) = RUNNING \<and>
    (\<exists>n. jid \<in> set (lane_queue (get_lane n t))) \<and> jid \<notin> set (in_flight (remote_dispatch t)) \<and>
    cancel jid t = (Inl (RuntimeError ''Running job is not the active subprocess (state out of sync)''), t)"
proof -
  obtain msg where msg: "requeue_after_provision_failure jid reason s =
      fallback_to_local jid (upd_job jid clear_run_state (ingest_notice jid msg s))"
    by (simp add: requeue_after_provision_failure_def)
  define a where "a = upd_job jid clear_run_state (ingest_notice jid msg s)"
  define u where "u = fallback_to_local jid a"
  define v where "v = upd_pool (release jid) u"
  note n = notice_running [OF assms(3), where msg = msg]
  have a: "status (store a jid) = RUNNING" "jobs a = jobs s" "get_lane l a = get_lane l s" for l
    using n by (simp_all add: a_def)
  have act: "active (get_lane l u) = active (get_lane l s)" for l
    using a(3) by (simp add: u_def fallback_to_local_def)
  have u: "status (store u jid) = RUNNING" "source (store u jid) = JobSource.LOCAL" "jobs u = jobs s"
    using a(1,2) by (simp_all add: u_def fallback_to_local_def place_on_lane_store)
  have "\<exists>l. jid \<in> set (lane_queue (get_lane l u))"
    by (auto simp: u_def fallback_to_local_def place_on_lane_def Let_def)
  moreover have t: "t = end_run jid v"
    using u(1) by (simp add: assms(5) drive_remote_end_def msg a_def [symmetric] u_def [symmetric] v_def is_terminal_def)
  have v: "\<not> is_terminal (store v jid)" "distinct (jobs v)" using u assms(1) by (simp_all add: v_def is_terminal_def)
  note e = end_run_running [OF v, folded t]
  have "\<not> job_is_on_a_lane t jid"
    using assms(4) act by (auto simp: job_is_on_a_lane_iff e(3) v_def)
  ultimately show ?thesis
    using u assms(2) by (auto simp: e v_def cancel_def cancel_running_def is_in_flight_def)
qed

section \<open>A running remote compile\<close>

definition ex_remote :: fw where
  "ex_remote = begin_run ''u0'' (upd_pool (start ''u0'' ''pa'') (ex_pool None))"

lemma ex_pool_u0 [simp]:
  "status (store (ex_pool off) ''u0'') = QUEUED" "job_type (store (ex_pool off) ''u0'') = COMPILE"
  "retries (remote_dispatch (ex_pool off)) = []" "jobs (ex_pool off) = [''u0'', ''u1'']"
  "active (get_lane n (ex_pool off)) = []"
  by (cases n; simp add: ex_pool_def Let_def create_job_def fresh_uuid_def now_iso_def ex_fw_def new_fw_def ex_ids_values
      place_on_lane_def apply_build_source_def new_FirmwareJob_def REMOTE_PENDING_JOB_BUILD_SOURCE_def
      REMOTE_POOL_JOB_TYPES_def new_pool_def hold_def keys_add_def upd_pool_def new_lane_def)+

lemma begin_run_pool: "remote_dispatch (begin_run jid s) = remote_dispatch s" "get_lane n (begin_run jid s) = get_lane n s"
  by (cases n; simp add: begin_run_def now_iso_def fire_job_lifecycle_def)+

lemma ex_remote_ok:
  "wf ex_remote" "pool_ok ex_remote" "''u0'' \<in> set (jobs ex_remote)" "''u0'' \<in> set (in_flight (remote_dispatch ex_remote))"
  "status (store ex_remote ''u0'') = RUNNING" "job_type (store ex_remote ''u0'') \<in> REMOTE_POOL_JOB_TYPES"
  "losses (remote_dispatch ex_remote) ''u0'' = 0" "\<not> job_is_on_a_lane ex_remote ''u0''"
proof -
  let ?s = "ex_pool None" and ?a = "upd_pool (start ''u0'' ''pa'') (ex_pool None)"
  have r: "ready ?s ''u0''" by (rule ready_placed) (simp_all add: placed_def ex_pool_pending)
  have a: "keeps ?s ?a" by (rule keeps_start [OF wf_ex_pool r])
  have oc: "occupied ?a ''u0''" by (simp add: occupied_def)
  note b = begin_run_keeps [OF keepsD(2) [OF a] _ oc, folded ex_remote_def]
  have b1: "keeps ?a ex_remote" "status (store ex_remote ''u0'') = RUNNING" "bindings ex_remote = bindings ?a"
    by (rule b; simp)+
  note sb = keeps_trans [OF wf_ex_pool a b1(1)]
  show "wf ex_remote" "status (store ex_remote ''u0'') = RUNNING" using b1(2) keepsD(2) [OF sb] by simp_all
  have "pool_ok ?a" by (rule pool_ok_start) (use ex_pool_facts [of None] in \<open>simp_all add: pool_ok_ex_pool bindings_def busy_pins_def\<close>)
  then show "pool_ok ex_remote" by (rule pool_ok_bindings [OF b1(3)])
  show "''u0'' \<in> set (jobs ex_remote)" by (rule keepsD(4) [OF sb]) (simp_all add: b1(2) is_active_iff)
  show "''u0'' \<in> set (in_flight (remote_dispatch ex_remote))" using bindingsD [OF b1(3)] by simp
  have "''u0'' \<notin> fresh_ids ?s" by (rule wfD(4) [OF wf_ex_pool]) simp
  then show "job_type (store ex_remote ''u0'') \<in> REMOTE_POOL_JOB_TYPES"
    using evolvesD(2) [OF keepsD(1) [OF sb]] by (simp add: REMOTE_POOL_JOB_TYPES_def)
  show "losses (remote_dispatch ex_remote) ''u0'' = 0" by (simp add: ex_remote_def begin_run_pool losses_def)
  show "\<not> job_is_on_a_lane ex_remote ''u0''"
    by (simp add: job_is_on_a_lane_iff ex_remote_def begin_run_pool)
qed

lemma server_loss_spec_witness:
  "status (store (drive_remote_end ''u0'' (RemoteServerLost ''transport_error'') ex_remote) ''u0'') = QUEUED"
  using server_loss_spec [OF ex_remote_ok(1-6) refl, of "''transport_error''"] ex_remote_ok(7) by simp

lemma provision_failure_uncancellable_witness:
  "fst (cancel ''u0'' (drive_remote_end ''u0'' (ProvisionUnavailable ''no wheel'') ex_remote)) =
     Inl (RuntimeError ''Running job is not the active subprocess (state out of sync)'')"
  using provision_failure_uncancellable [OF wfD(1) [OF ex_remote_ok(1)] ex_remote_ok(3,5,8) refl, of "''no wheel''"]
  by simp

end
