(* ===== verification/RenameFlow.thy ===== *)
theory RenameFlow
  imports Frames
begin

text \<open>
  \<open>controllers/firmware/rename_flow.py\<close>: a rename writes the new YAML and queues a compile of it with a
  dependent flash-and-swap tail. The revert of an ended chain is in \<open>Lifecycle\<close>. What reads YAML text
  (\<open>rewrite_rename_content\<close>, \<open>resolved_device_name\<close>) and the stored address are arguments. The section
  under \<open>rename_fs_lock\<close> is one step: it is entered when the lock is free, and the reverts its
  cancellations schedule wait as tasks until it has left. The lemmas show that the reverts of the chains
  a rename supersedes never remove the file it has written.
\<close>

section \<open>Names and addresses\<close>

definition configuration_filename :: "string \<Rightarrow> string" where
  "configuration_filename name = name @ ''.yaml''"

definition default_mdns_address :: "string \<Rightarrow> string" where
  "default_mdns_address name = name @ ''.local''"

definition active_chain_owns_target :: "fw \<Rightarrow> string \<Rightarrow> string \<Rightarrow> bool" where
  "active_chain_owns_target s conf nn \<longleftrightarrow>
     (\<exists>i \<in> set (active_jobs s). is_rename_tail (store s i) \<and> configuration (store s i) = conf \<and>
        new_name (store s i) = nn)"

definition resolve_old_device_address :: "string option \<Rightarrow> fw \<Rightarrow> string \<Rightarrow> string \<Rightarrow> string" where
  "resolve_old_device_address stored s conf fallback_name =
     (let from_devices =
            (case device_for_configuration s conf of
               None \<Rightarrow> default_mdns_address fallback_name
             | Some d \<Rightarrow> if device_address d \<noteq> [] then device_address d
                         else if device_ip d \<noteq> [] then device_ip d
                         else default_mdns_address fallback_name)
      in case stored of
           None \<Rightarrow> from_devices
         | Some a \<Rightarrow> if a \<noteq> [] then a else from_devices)"

section \<open>Beginning a rename\<close>

definition read_device_config :: "fw \<Rightarrow> string \<Rightarrow> string result" where
  "read_device_config s conf =
     (case dict_get (yaml_files s) conf of
        None \<Rightarrow> Inl (CommandError NOT_FOUND (''Device '' @ quoted conf @ '' not found''))
      | Some content \<Rightarrow> Inr content)"

definition rename_stage :: "string \<Rightarrow> string set \<Rightarrow> string \<Rightarrow> string \<Rightarrow> fw \<Rightarrow> unit result \<times> fw" where
  "rename_stage conf exclude fname content s =
     (case supersede_active_jobs conf exclude s of
        (Inl e, s1) \<Rightarrow> (Inl e, s1)
      | (Inr u, s1) \<Rightarrow>
          let s2 = persist_jobs s1
          in (Inr (), s2\<lparr>yaml_files := dict_set fname content (yaml_files s2)\<rparr>))"

definition rename_commit ::
    "string \<Rightarrow> string \<Rightarrow> string \<Rightarrow> JobBuildSource \<Rightarrow> string \<Rightarrow> string \<Rightarrow> fw \<Rightarrow> (string \<times> string) result \<times> fw" where
  "rename_commit conf nn p build_source fname content s =
     (case create_job fname COMPILE (\<lambda>j. j\<lparr>skip_bootloader := True\<rparr>) build_source s of
        (hid, s1) \<Rightarrow>
          (case create_job conf RENAME (\<lambda>j. j\<lparr>new_name := nn, port := p, depends_on := hid\<rparr>)
                  LOCAL_JOB_BUILD_SOURCE s1 of
             (tid, s2) \<Rightarrow>
               (case commit_chain [tid, hid] (Some fname) tid {hid, tid}
                       (rename_stage conf {hid, tid} fname content) s2 of
                  (Inl e, s3) \<Rightarrow> (Inl e, s3)
                | (Inr u, s3) \<Rightarrow> (Inr (hid, tid), s3))))"

definition under_rename_lock :: "(fw \<Rightarrow> 'a \<times> fw) \<Rightarrow> fw \<Rightarrow> 'a \<times> fw" where
  "under_rename_lock f s =
     (case f (s\<lparr>rename_fs_lock := True\<rparr>) of (r, s1) \<Rightarrow> (r, s1\<lparr>rename_fs_lock := False\<rparr>))"

definition begin_rename ::
    "(string \<Rightarrow> string \<Rightarrow> string result) \<Rightarrow> (string \<Rightarrow> string \<Rightarrow> string) \<Rightarrow> string option \<Rightarrow> string \<Rightarrow> string \<Rightarrow>
     string option \<Rightarrow> string option \<Rightarrow> fw \<Rightarrow> (string \<times> string) result \<times> fw" where
  "begin_rename rewrite name_of stored conf nn content new_content s =
     (let fname = configuration_filename nn in
      case (case content of Some c \<Rightarrow> Inr c | None \<Rightarrow> read_device_config s conf) of
        Inl e \<Rightarrow> (Inl e, s)
      | Inr existing \<Rightarrow>
          (case (case new_content of Some c \<Rightarrow> Inr c | None \<Rightarrow> rewrite existing nn) of
             Inl e \<Rightarrow> (Inl e, s)
           | Inr text_new \<Rightarrow>
               let p = resolve_old_device_address stored s conf (name_of existing conf) in
               (case resolve_install_source False COMPILE s of
                  Inl e \<Rightarrow> (Inl e, s)
                | Inr build_source \<Rightarrow>
                    under_rename_lock (rename_commit conf nn p build_source fname text_new) s)))"

section \<open>Finishing one\<close>

text \<open>\<open>removed\<close> says whether the old files could be removed; a failure is logged.\<close>

definition finalize_rename_swap :: "bool \<Rightarrow> string \<Rightarrow> fw \<Rightarrow> fw" where
  "finalize_rename_swap removed jid s =
     (if removed then s\<lparr>yaml_files := dict_pop (configuration (store s jid)) (yaml_files s)\<rparr> else s)"

section \<open>The new file survives\<close>

lemma wf_files [simp]:
  "wf (s\<lparr>rename_fs_lock := b\<rparr>) = wf s" "wf (s\<lparr>yaml_files := y\<rparr>) = wf s"
proof -
  have same: "wf t = wf s" if "store t = store s" "uuids t = uuids s" "next_uuid t = next_uuid s" "jobs t = jobs s"
      "compile_lane t = compile_lane s" "upload_lane t = upload_lane s"
      "thread_upload_lane t = thread_upload_lane s" "remote_dispatch t = remote_dispatch s" for t
  proof -
    have "fresh_ids t = fresh_ids s" using that by (simp add: fresh_ids_def)
    moreover have "placed t i = placed s i" "occupied t i = occupied s i" for i
      using placed_eqI [OF that(5-8)] by simp_all
    ultimately show ?thesis unfolding wf_def using that(1-4) by simp
  qed
  show "wf (s\<lparr>rename_fs_lock := b\<rparr>) = wf s" "wf (s\<lparr>yaml_files := y\<rparr>) = wf s" by (rule same; simp)+
qed

lemma rename_stage_ok:
  assumes "wf s" "closed_chain E s" "rename_fs_lock s"
  obtains u where "rename_stage conf E fname content s = (Inr (), u)" "wf u" "evolves s u" "untouched E s u"
    "\<And>i. i \<in> set (jobs s) \<Longrightarrow> is_active (store u i) \<Longrightarrow> i \<in> set (jobs u)" "\<And>i. orphan u i \<Longrightarrow> orphan s i"
    "yaml_files u = dict_set fname content (yaml_files s)" "rename_fs_lock u" "uuids u = uuids s"
proof -
  obtain a where a: "supersede_active_jobs conf E s = (Inr (), a)" "safe s a" "untouched E s a"
    using cancel_active_jobs_ok [OF assms(1,2), of "Some conf"] by (auto simp: supersede_active_jobs_def)
  define b where "b = persist_jobs a"
  note sa = safeD [OF a(2)]
  have ab: "safe a b" "untouched E a b" unfolding b_def by (rule safe_persist [OF sa(2)], rule untouched_persist)
  note sb = safeD [OF safe_trans [OF assms(1) a(2) ab(1)]]
  have "locked_files b = locked_files s"
    using locked.supersede_obs [of conf E s] a(1) by (simp add: b_def)
  note y = locked_yaml [OF assms(3) this]
  let ?u = "b\<lparr>yaml_files := dict_set fname content (yaml_files b)\<rparr>"
  show thesis
  proof (rule that [of ?u])
    show "rename_stage conf E fname content s = (Inr (), ?u)" by (simp add: rename_stage_def a(1) b_def Let_def)
    show "evolves s ?u" by (rule evolves_trans [OF sb(1)]) (simp add: evolves_same)
    show "untouched E s ?u"
      by (rule untouched_trans [OF untouched_trans [OF a(3) ab(2)]], rule untouched_same) simp_all
    show "is_active (store ?u i) \<Longrightarrow> i \<in> set (jobs s) \<Longrightarrow> i \<in> set (jobs ?u)" for i using sb(5) by simp
    show "orphan ?u i \<Longrightarrow> orphan s i" for i using sb(4) by (simp add: orphan_def held_def)
    show "uuids ?u = uuids s" using sb(1) by (simp add: evolves_def)
  qed (use sb(2) y in simp_all)
qed

lemma rename_commit_ok:
  assumes "wf s" "rename_fs_lock s"
  shows "case rename_commit conf nn p b fname content s of
      (Inl e, t) \<Rightarrow> wf t \<and> jobs t = jobs s \<and> yaml_files t = yaml_files s \<and> evolves s t \<and> (\<forall>i. orphan t i \<longrightarrow> orphan s i)
    | (Inr (hid, tid), t) \<Rightarrow> wf t \<and> evolves s t \<and> (\<forall>i \<in> set (jobs s). is_active (store t i) \<longrightarrow> i \<in> set (jobs t)) \<and> hid \<noteq> tid \<and> {hid, tid} \<inter> set (jobs s) = {} \<and> {hid, tid} \<subseteq> set (jobs t) \<and>
        status (store t hid) = QUEUED \<and> placed t hid \<and> status (store t tid) = QUEUED \<and> \<not> placed t tid \<and>
        depends_on (store t tid) = hid \<and> hid \<noteq> [] \<and> job_type (store t tid) = RENAME \<and> new_name (store t tid) = nn \<and>
        configuration (store t tid) = conf \<and> yaml_files t = dict_set fname content (yaml_files s) \<and>
        (\<forall>i. orphan t i \<longrightarrow> orphan s i)"
proof -
  let ?k1 = "\<lambda>j. j\<lparr>skip_bootloader := True\<rparr>"
  obtain hid s1 where c1: "create_job fname COMPILE ?k1 b s = (hid, s1)" by fastforce
  let ?k2 = "\<lambda>j. j\<lparr>new_name := nn, port := p, depends_on := hid\<rparr>"
  obtain tid s2 where c2: "create_job conf RENAME ?k2 LOCAL_JOB_BUILD_SOURCE s1 = (tid, s2)" by fastforce
  note ch = create_chain [OF assms(1) c1 c2, simplified]
  have e2: "job_type (store s2 tid) = RENAME" "new_name (store s2 tid) = nn"
    using create_job_eq [OF c2] by (simp_all add: apply_build_source_def new_FirmwareJob_def)
  have lk: "rename_fs_lock s2" "yaml_files s2 = yaml_files s"
    using create_job_eq [OF c1] create_job_eq [OF c2] assms(2) by simp_all
  obtain a where a: "rename_stage conf {hid, tid} fname content s2 = (Inr (), a)" "wf a" "evolves s2 a" "untouched {hid, tid} s2 a"
      "\<And>i. i \<in> set (jobs s2) \<Longrightarrow> is_active (store a i) \<Longrightarrow> i \<in> set (jobs a)" "\<And>i. orphan a i \<Longrightarrow> orphan s2 i"
      "yaml_files a = dict_set fname content (yaml_files s2)" "rename_fs_lock a"
    using rename_stage_ok [OF ch(1,10) lk(1)] by metis
  note ua = untouchedD [OF a(4)]
  have sa: "status (store a hid) = QUEUED" "status (store a tid) = QUEUED" using ua(1) ch(13,14) by simp_all
  have ja: "{hid, tid} \<subseteq> set (jobs a)" using a(5) sa ch(7) by (simp add: is_active_iff)
  have da: "depends_on (store a hid) = []" "depends_on (store a tid) = hid" using ua(3) ch(15,16) by simp_all
  obtain u where u:
    "(let s2 = fold place_and_announce [tid, hid] a in
        (case (if fname = [] then (Inr (), s2) else supersede_active_jobs fname {tid, hid} s2) of
           (Inl e, s3) \<Rightarrow> (Inl e, s3)
         | (Inr u, s3) \<Rightarrow> (Inr (), persist_jobs s3))) = (Inr (), u)"
    "wf u" "evolves a u" "status (store u hid) = QUEUED" "status (store u tid) = QUEUED" "placed u hid" "\<not> placed u tid"
    "hid \<in> set (jobs u)" "tid \<in> set (jobs u)" "cancel_requested u \<inter> {hid, tid} \<subseteq> cancel_requested a"
    "\<And>i. orphan u i \<Longrightarrow> orphan a i" "\<And>i. i \<in> set (jobs a) \<Longrightarrow> is_active (store u i) \<Longrightarrow> i \<in> set (jobs u)"
    "\<And>i. i \<in> set (jobs a) \<Longrightarrow> i \<notin> {hid, tid} \<Longrightarrow> fname \<noteq> [] \<Longrightarrow> configuration (store a i) = fname \<Longrightarrow>
       is_terminal (store u i) \<or> i \<in> cancel_requested u"
    "map job_id (disk_jobs u) = persisted_ids u"
    by (rule commit_placed [OF a(2) ja ch(3) closed_untouched [OF ch(10) a(4)] sa da ch(6), of fname]) (rule that)
  have yu: "yaml_files u = yaml_files a"
    using locked_yaml(1) [OF a(8), of u] locked.place_sweep_obs [where chain = "[tid, hid]" and conf = fname and E = "{tid, hid}" and s = a] u(1) by simp
  show ?thesis
  proof (cases "check_rename_lock tid {hid, tid} s2")
    case (Inl e)
    let ?t = "roll_out [tid, hid] s2"
    have "rename_commit conf nn p b fname content s = (Inl e, ?t)"
      using c1 c2 Inl by (simp add: rename_commit_def commit_chain_def)
    then show ?thesis using lk(2) rolled_back [OF assms(1) ch(1,2,4,5,3,7,8)] by (simp add: roll_out_def)
  next
    case (Inr x)
    have "commit_chain [tid, hid] (Some fname) tid {hid, tid} (rename_stage conf {hid, tid} fname content) s2 = (Inr (), u)"
      using Inr u(1) a(1) by (cases "fname = []") (simp_all add: commit_chain_def Let_def)
    then have res: "rename_commit conf nn p b fname content s = (Inr (hid, tid), u)"
      using c1 c2 by (simp add: rename_commit_def)
    have nf: "tid \<notin> fresh_ids a" using evolvesD(8) [OF a(3) ch(12)] .
    note ev = evolvesD [OF evolves_trans [OF a(3) u(3)] ch(12)]
    have st: "evolves s u" by (rule evolves_trans [OF ch(2) evolves_trans [OF a(3) u(3)]])
    have act: "i \<in> set (jobs u)" if "i \<in> set (jobs s)" "is_active (store u i)" for i
    proof -
      have "i \<notin> fresh_ids a"
        using evolvesD(8) [OF evolves_trans [OF ch(2) a(3)] wfD(4) [OF assms(1) that(1)]] .
      then have "is_active (store a i)" using evolves_active [OF u(3)] that(2) by blast
      then show ?thesis using a(5) [of i] u(12) that ch(7) by simp
    qed
    have ident: "job_type (store u tid) = RENAME" "new_name (store u tid) = nn" "depends_on (store u tid) = hid"
      "configuration (store u tid) = conf"
      using ev(1,2,4,9) e2 ch(16,18) by (simp_all add: job_identity_def)
    show ?thesis
      unfolding res prod.case sum.case
      using u(2,4-9,11) a(6,7) ident ch(3-6,9) yu lk(2) st act by auto
  qed
qed

lemma revert_spares:
  assumes "tid \<in> set (active_jobs s)" "job_id (store s tid) = tid" "is_rename_tail (store s tid)"
    "new_name (store s tid) = nn" "job_id (store s jid) \<noteq> tid"
  shows "dict_get (yaml_files (revert_rename jid s)) (configuration_filename nn) =
    dict_get (yaml_files s) (configuration_filename nn)"
  using assms by (auto simp: revert_rename_def configuration_filename_def new_filename_def)

text \<open>The section under the lock, and what a rename does before it enters it.\<close>

lemma rename_section_ok:
  assumes "wf s" "\<not> rename_fs_lock s"
  shows "case under_rename_lock (rename_commit conf nn p b (configuration_filename nn) text_new) s of
      (Inl e, t) \<Rightarrow> wf t \<and> jobs t = jobs s \<and> yaml_files t = yaml_files s \<and> \<not> rename_fs_lock t \<and>
        evolves s t \<and> (\<forall>i. orphan t i \<longrightarrow> orphan s i)
    | (Inr (hid, tid), t) \<Rightarrow> wf t \<and> \<not> rename_fs_lock t \<and> evolves s t \<and>
        (\<forall>i \<in> set (jobs s). is_active (store t i) \<longrightarrow> i \<in> set (jobs t)) \<and> {hid, tid} \<inter> set (jobs s) = {} \<and>
        status (store t hid) = QUEUED \<and> placed t hid \<and> status (store t tid) = QUEUED \<and> \<not> placed t tid \<and>
        is_rename_tail (store t tid) \<and> depends_on (store t tid) = hid \<and> configuration (store t tid) = conf \<and>
        (\<forall>i. orphan t i \<longrightarrow> orphan s i) \<and> yaml_files t = dict_set (configuration_filename nn) text_new (yaml_files s) \<and>
        (\<forall>jid. job_id (store t jid) \<noteq> tid \<longrightarrow>
           dict_get (yaml_files (revert_rename jid t)) (configuration_filename nn) = Some text_new)"
proof -
  let ?s = "s\<lparr>rename_fs_lock := True\<rparr>" and ?fn = "configuration_filename nn"
  have orph: "orphan (t\<lparr>rename_fs_lock := b\<rparr>) i = orphan t i" for t b i by (simp add: orphan_def held_def)
  have pl: "placed (t\<lparr>rename_fs_lock := b\<rparr>) i = placed t i" for t b i by (rule placed_eqI) simp_all
  have ev: "evolves s (t\<lparr>rename_fs_lock := b\<rparr>)" if "evolves ?s t" for t b
    by (rule evolves_trans [OF evolves_trans [OF evolves_same that] evolves_same]) simp_all
  have ok: "wf ?s" "rename_fs_lock ?s" using assms by simp_all
  note c = rename_commit_ok [OF ok, where conf = conf and nn = nn and p = p and b = b and fname = ?fn and content = text_new]
  obtain r u where Pair: "rename_commit conf nn p b ?fn text_new ?s = (r, u)" by fastforce
  show ?thesis
  proof (cases r)
    case (Inl e)
    then show ?thesis using c Pair ev [of u] by (simp add: under_rename_lock_def orph)
  next
    case (Inr q)
    obtain hid tid where q: "q = (hid, tid)" by fastforce
    note d = c [unfolded Pair Inr q prod.case sum.case]
    let ?t = "u\<lparr>rename_fs_lock := False\<rparr>"
    have tl: "is_rename_tail (store ?t tid)" using d by (simp add: is_rename_tail_def)
    have "tid \<in> set (active_jobs ?t)" "job_id (store ?t tid) = tid"
      using d wfD(8) [of u tid] by (simp_all add: active_jobs_def is_active_iff)
    then have "dict_get (yaml_files (revert_rename jid ?t)) ?fn = Some text_new"
      if "job_id (store ?t jid) \<noteq> tid" for jid
      using revert_spares [of tid ?t nn jid] tl d that by simp
    then show ?thesis
      using d tl Pair Inr q ev [of u] by (simp add: under_rename_lock_def orph pl)
  qed
qed

lemma begin_rename_cases:
  obtains (rejected) e where "begin_rename rewrite name_of stored conf nn content new_content s = (Inl e, s)"
  | (entered) p b text_new where "begin_rename rewrite name_of stored conf nn content new_content s =
      under_rename_lock (rename_commit conf nn p b (configuration_filename nn) text_new) s"
      "\<forall>c. new_content = Some c \<longrightarrow> text_new = c"
proof -
  have "(\<exists>e. begin_rename rewrite name_of stored conf nn content new_content s = (Inl e, s)) \<or>
    (\<exists>p b text_new. begin_rename rewrite name_of stored conf nn content new_content s =
       under_rename_lock (rename_commit conf nn p b (configuration_filename nn) text_new) s \<and>
       (\<forall>c. new_content = Some c \<longrightarrow> text_new = c))"
    by (auto simp: begin_rename_def Let_def split: sum.splits option.splits)
  then show thesis using that by blast
qed



end
