(* ===== verification/Restore.thy ===== *)
theory Restore
  imports Jobs
begin

text \<open>
  The start-up half of \<open>controllers/firmware/persistence.py\<close>: the persisted rows are read back into the job
  dictionary, interrupted jobs are queued again, routed, held or cancelled, and inline logs of old files
  move to their sidecars. A row is \<open>None\<close> when decoding it raised; the decoder itself is mashumaro's.
  The lemmas show that no interrupted job is lost or left waiting for a prerequisite that is gone, and
  that what was saved comes back.
\<close>

section \<open>Reading the rows\<close>

text \<open>The two lists collect the ids of the active jobs and of the finished ones with an inline log.\<close>

definition restore_job_entry ::
    "FirmwareJob option \<Rightarrow> fw \<times> string list \<times> string list \<Rightarrow> fw \<times> string list \<times> string list" where
  "restore_job_entry row acc =
     (case acc of (s, act, to_migrate) \<Rightarrow>
        (case row of
           None \<Rightarrow> (s, act, to_migrate)
         | Some j \<Rightarrow>
             let s1 = s\<lparr>store := (store s)(job_id j := j), jobs := keys_add (job_id j) (jobs s)\<rparr> in
             if is_active j then (upd_job (job_id j) restore_for_requeue s1, act @ [job_id j], to_migrate)
             else if output j \<noteq> [] then (s1, act, to_migrate @ [job_id j])
             else (s1, act, to_migrate)))"

definition restore_to_lane :: "string \<Rightarrow> fw \<Rightarrow> fw" where
  "restore_to_lane jid s =
     (let j = store s jid in
      if dependency_satisfied s j \<or> dependency_released j then place_on_lane jid s
      else if (case get_job_obj s (depends_on j) of None \<Rightarrow> False | Some p \<Rightarrow> is_active p) then s
      else (case now_iso s of
              (now, s1) \<Rightarrow>
                (case mark_terminal now CANCELLED (Some PREREQUISITE_FAILED_ERROR) (store s1 jid) of
                   Inl e \<Rightarrow> s
                 | Inr j' \<Rightarrow> on_job_terminal jid (upd_job jid (\<lambda>_. j') s1))))"

text \<open>\<open>fails\<close> holds the jobs whose sidecar could not be written: their log stays in memory.\<close>

definition migrate_output :: "string set \<Rightarrow> string \<Rightarrow> fw \<Rightarrow> fw" where
  "migrate_output fails jid s =
     (if jid \<in> fails then s
      else upd_job jid (\<lambda>j. j\<lparr>output := []\<rparr>) (write_job_sidecar jid (output (store s jid)) s))"

definition load_jobs :: "string set \<Rightarrow> FirmwareJob option list \<Rightarrow> fw \<Rightarrow> fw" where
  "load_jobs fails rows s =
     (case fold restore_job_entry rows (s, [], []) of
        (s1, act, to_migrate) \<Rightarrow> fold (migrate_output fails) to_migrate (fold restore_to_lane act s1))"

section \<open>What the rows become\<close>

definition restored :: "FirmwareJob \<Rightarrow> FirmwareJob" where
  "restored j = (if is_active j then restore_for_requeue j else j)"

lemma restore_entries:
  assumes "distinct (map job_id js)"
  shows "fold restore_job_entry (map Some js) (s, act, mig) =
    (s\<lparr>store := (\<lambda>i. case List.find (\<lambda>j. job_id j = i) js of None \<Rightarrow> store s i | Some j \<Rightarrow> restored j),
       jobs := fold keys_add (map job_id js) (jobs s)\<rparr>,
     act @ map job_id (filter is_active js),
     mig @ map job_id (filter (\<lambda>j. \<not> is_active j \<and> output j \<noteq> []) js))"
  using assms
proof (induction js arbitrary: s act mig)
  case (Cons j js)
  have nf: "List.find (\<lambda>k. job_id k = job_id j) js = None" using Cons.prems by (simp add: find_None_iff) (metis imageI)
  let ?s = "s\<lparr>store := (store s)(job_id j := restored j), jobs := keys_add (job_id j) (jobs s)\<rparr>"
  have one: "restore_job_entry (Some j) (s, act, mig) =
      (?s, act @ (if is_active j then [job_id j] else []),
       mig @ (if \<not> is_active j \<and> output j \<noteq> [] then [job_id j] else []))"
    by (simp add: restore_job_entry_def Let_def restored_def upd_job_def)
  have st: "(\<lambda>i. case List.find (\<lambda>k. job_id k = i) js of None \<Rightarrow> store ?s i | Some k \<Rightarrow> restored k) =
      (\<lambda>i. case List.find (\<lambda>k. job_id k = i) (j # js) of None \<Rightarrow> store s i | Some k \<Rightarrow> restored k)"
    using nf by (auto simp: fun_eq_iff split: option.split)
  show ?case
    using Cons.IH [of ?s] Cons.prems st by (simp add: one)
qed simp

section \<open>Routing the restored jobs\<close>

definition lands :: "fw \<Rightarrow> string \<Rightarrow> bool" where
  "lands s i \<longleftrightarrow> dependency_satisfied s (store s i) \<or> dependency_released (store s i)"

definition waits :: "fw \<Rightarrow> string \<Rightarrow> bool" where
  "waits s i \<longleftrightarrow> (case get_job_obj s (depends_on (store s i)) of None \<Rightarrow> False | Some p \<Rightarrow> is_active p)"

text \<open>What routing does to one job.\<close>

definition routed :: "fw \<Rightarrow> fw \<Rightarrow> string \<Rightarrow> bool" where
  "routed s t i \<longleftrightarrow>
     job_identity (store t i) = job_identity (store s i) \<and>
     (if lands s i then status (store t i) = status (store s i) \<and> placed t i \<and>
        (depends_on (store s i) \<noteq> [] \<longrightarrow> dependency_released (store t i))
      else if waits s i then store t i = store s i \<and> placed t i = placed s i
      else status (store t i) = CANCELLED)"

lemma placed_place_other:
  assumes "k \<noteq> jid"
  shows "placed (place_on_lane jid s) k = placed s k"
proof -
  have "k \<in> set (lane_queue (get_lane n (place_on_lane jid s))) \<longleftrightarrow> k \<in> set (lane_queue (get_lane n s))" for n
    using assms by (simp add: place_on_lane_def Let_def)
  moreover have "k \<in> set (pending (remote_dispatch (place_on_lane jid s))) \<longleftrightarrow> k \<in> set (pending (remote_dispatch s))"
    using assms by (simp add: place_on_lane_def Let_def)
  ultimately show ?thesis by (simp add: placed_def)
qed

lemma placed_on_job_terminal: "placed (on_job_terminal jid s) k = placed s k"
  by (rule placed_eqI) (simp_all add: on_job_terminal_def revert_rename_def)

lemma restore_to_lane_ok:
  "jobs (restore_to_lane jid s) = jobs s" "uuids (restore_to_lane jid s) = uuids s"
  "next_uuid (restore_to_lane jid s) = next_uuid s"
  "k \<noteq> jid \<Longrightarrow> store (restore_to_lane jid s) k = store s k"
  "k \<noteq> jid \<Longrightarrow> placed (restore_to_lane jid s) k = placed s k"
  "lands s jid \<Longrightarrow> depends_on (store s jid) = [] \<Longrightarrow> store (restore_to_lane jid s) = store s"
  "routed s (restore_to_lane jid s) jid"
proof -
  consider (land) "lands s jid" | (wait) "\<not> lands s jid" "waits s jid" | (cancel) "\<not> lands s jid" "\<not> waits s jid"
    by blast
  then have "jobs (restore_to_lane jid s) = jobs s \<and> uuids (restore_to_lane jid s) = uuids s \<and>
    next_uuid (restore_to_lane jid s) = next_uuid s \<and>
    (k \<noteq> jid \<longrightarrow> store (restore_to_lane jid s) k = store s k \<and> placed (restore_to_lane jid s) k = placed s k) \<and>
    (lands s jid \<longrightarrow> depends_on (store s jid) = [] \<longrightarrow> store (restore_to_lane jid s) = store s) \<and>
    routed s (restore_to_lane jid s) jid"
  proof cases
    case land
    then have "restore_to_lane jid s = place_on_lane jid s" by (auto simp: restore_to_lane_def lands_def)
    then show ?thesis
      using land placed_placed [of jid s]
      by (auto simp: place_on_lane_store placed_place_other routed_def job_identity_def fun_eq_iff)
  next
    case wait
    then have "restore_to_lane jid s = s" by (auto simp: restore_to_lane_def lands_def waits_def)
    then show ?thesis using wait by (simp add: routed_def)
  next
    case cancel
    obtain now s1 where now: "now_iso s = (now, s1)" by fastforce
    have s1: "s1 = s\<lparr>ticks := Suc (ticks s)\<rparr>" using now by (simp add: now_iso_def)
    obtain j where j: "mark_terminal now CANCELLED (Some PREREQUISITE_FAILED_ERROR) (store s1 jid) = Inr j"
      using mark_terminal_ok [of CANCELLED now "Some PREREQUISITE_FAILED_ERROR" "store s1 jid"] by auto
    have jf: "status j = CANCELLED" "job_identity j = job_identity (store s jid)"
      using j by (auto simp: mark_terminal_spec s1 job_identity_def)
    have eq: "restore_to_lane jid s = on_job_terminal jid (upd_job jid (\<lambda>_. j) s1)"
      using cancel now j by (auto simp: restore_to_lane_def lands_def waits_def Let_def)
    have "store (on_job_terminal jid u) = store u" "jobs (on_job_terminal jid u) = jobs u"
      "uuids (on_job_terminal jid u) = uuids u" "next_uuid (on_job_terminal jid u) = next_uuid u" for u
      by (simp_all add: on_job_terminal_def revert_rename_def)
    moreover have "placed (upd_job jid (\<lambda>_. j) s1) k = placed s k" by (rule placed_eqI) (simp_all add: s1)
    ultimately show ?thesis
      using cancel jf by (simp add: eq placed_on_job_terminal routed_def) (simp add: s1)
  qed
  then show "jobs (restore_to_lane jid s) = jobs s" "uuids (restore_to_lane jid s) = uuids s"
    "next_uuid (restore_to_lane jid s) = next_uuid s"
    "k \<noteq> jid \<Longrightarrow> store (restore_to_lane jid s) k = store s k"
    "k \<noteq> jid \<Longrightarrow> placed (restore_to_lane jid s) k = placed s k"
    "lands s jid \<Longrightarrow> depends_on (store s jid) = [] \<Longrightarrow> store (restore_to_lane jid s) = store s"
    "routed s (restore_to_lane jid s) jid"
    by blast+
qed

text \<open>A prerequisite has none itself, so routing one job never changes what another one depends on.\<close>

definition flat_chains :: "fw \<Rightarrow> string list \<Rightarrow> bool" where
  "flat_chains s act \<longleftrightarrow>
     (\<forall>i \<in> set act. \<forall>k \<in> set act. depends_on (store s k) = i \<longrightarrow> depends_on (store s i) = [])"

lemma routed_step:
  assumes "flat_chains s (i # act)" "k \<in> set act" "i \<notin> set act" "routed (restore_to_lane i s) t k"
  shows "routed s t k"
proof -
  let ?u = "restore_to_lane i s"
  note r = restore_to_lane_ok [where jid = i and s = s]
  have ki: "k \<noteq> i" using assms(2,3) by blast
  note k = r(4) [OF ki] r(5) [OF ki]
  have dep: "store ?u (depends_on (store s k)) = store s (depends_on (store s k))"
  proof (cases "depends_on (store s k) = i")
    case True
    then have e: "depends_on (store s i) = []" using assms(1,2) by (auto simp: flat_chains_def)
    then have "lands s i" by (simp add: lands_def dependency_satisfied_def)
    then show ?thesis using r(6) e by simp
  qed (use r(4) in simp)
  have "lands ?u k = lands s k" "waits ?u k = waits s k"
    using dep by (simp_all add: lands_def waits_def dependency_satisfied_def get_job_obj_def k r(1))
  then show ?thesis using assms(4) k by (simp add: routed_def)
qed

lemma fold_restore:
  assumes "distinct act" "flat_chains s act"
  defines "t \<equiv> fold restore_to_lane act s"
  shows "jobs t = jobs s" "uuids t = uuids s" "next_uuid t = next_uuid s"
    "k \<notin> set act \<Longrightarrow> store t k = store s k" "k \<notin> set act \<Longrightarrow> placed t k = placed s k"
    "k \<in> set act \<Longrightarrow> routed s t k"
proof -
  have "jobs t = jobs s \<and> uuids t = uuids s \<and> next_uuid t = next_uuid s \<and>
    (\<forall>k. k \<notin> set act \<longrightarrow> store t k = store s k \<and> placed t k = placed s k) \<and> (\<forall>k \<in> set act. routed s t k)"
    unfolding t_def using assms(1,2)
  proof (induction act arbitrary: s)
    case (Cons i act)
    let ?u = "restore_to_lane i s" and ?t = "fold restore_to_lane act (restore_to_lane i s)"
    note r = restore_to_lane_ok [where jid = i and s = s]
    have ident: "job_identity (store ?u k) = job_identity (store s k)" for k
      using r(4) [of k] r(7) by (cases "k = i") (auto simp: routed_def)
    have dep: "depends_on (store ?u k) = depends_on (store s k)" for k
      using ident [of k] by (simp add: job_identity_def)
    have "flat_chains ?u act" using Cons.prems(2) by (simp add: flat_chains_def dep)
    then have ih: "jobs ?t = jobs ?u" "uuids ?t = uuids ?u" "next_uuid ?t = next_uuid ?u"
      "\<And>k. k \<notin> set act \<Longrightarrow> store ?t k = store ?u k" "\<And>k. k \<notin> set act \<Longrightarrow> placed ?t k = placed ?u k"
      "\<And>k. k \<in> set act \<Longrightarrow> routed ?u ?t k"
      using Cons.IH [of ?u] Cons.prems(1) by simp_all
    have "routed s ?t k" if "k \<in> set (i # act)" for k
    proof (cases "k = i")
      case True
      then show ?thesis using r(7) ih(4,5) [of i] Cons.prems(1) by (simp add: routed_def)
    next
      case False
      then show ?thesis using routed_step [OF Cons.prems(2) _ _ ih(6)] that Cons.prems(1) by simp
    qed
    then show ?case using ih(1-5) r(1-5) by simp
  qed simp
  then show "jobs t = jobs s" "uuids t = uuids s" "next_uuid t = next_uuid s"
    "k \<notin> set act \<Longrightarrow> store t k = store s k" "k \<notin> set act \<Longrightarrow> placed t k = placed s k"
    "k \<in> set act \<Longrightarrow> routed s t k"
    by blast+
qed

lemma fold_migrate:
  "jobs (fold (migrate_output fails) is s) = jobs s \<and> placed (fold (migrate_output fails) is s) k = placed s k \<and>
   (\<exists>ls. store (fold (migrate_output fails) is s) k = (store s k)\<lparr>output := ls\<rparr>) \<and>
   (k \<notin> set is \<longrightarrow> store (fold (migrate_output fails) is s) k = store s k)"
proof (induction "is" arbitrary: s)
  case Nil
  have "store s k = (store s k)\<lparr>output := output (store s k)\<rparr>" by simp
  then show ?case by (metis fold_simps(1))
next
  case (Cons i "is")
  let ?u = "migrate_output fails i s"
  have "placed ?u k = placed s k" by (rule placed_eqI) (simp_all add: migrate_output_def write_job_sidecar_def)
  moreover have "jobs ?u = jobs s" by (simp add: migrate_output_def write_job_sidecar_def)
  moreover have "\<exists>ls. store ?u k = (store s k)\<lparr>output := ls\<rparr>"
  proof -
    have "store ?u k = (store s k)\<lparr>output := output (store ?u k)\<rparr>"
      by (simp add: migrate_output_def write_job_sidecar_def)
    then show ?thesis by blast
  qed
  moreover have "k \<noteq> i \<Longrightarrow> store ?u k = store s k" by (simp add: migrate_output_def write_job_sidecar_def)
  ultimately show ?case using Cons.IH [of ?u] by auto
qed

section \<open>A restart\<close>

lemma fold_keys_add: "distinct (ks @ is) \<Longrightarrow> fold keys_add is ks = ks @ is"
  by (induction "is" arbitrary: ks) (simp_all add: keys_add_def)

lemma restored_fields:
  "job_identity (restored (metadata_row j)) = job_identity j"
  "dependency_released (restored (metadata_row j)) = dependency_released j"
  "is_active (metadata_row j) = is_active j"
  "status (restored (metadata_row j)) = (if is_active j then QUEUED else status j)"
proof -
  have id: "job_identity (restore_for_requeue k) = job_identity k" for k
    by (simp add: restore_for_requeue_def Let_def job_simps job_identity_def)
  show "job_identity (restored (metadata_row j)) = job_identity j"
    by (simp add: restored_def id) (simp add: metadata_row_def job_identity_def)
  show "dependency_released (restored (metadata_row j)) = dependency_released j"
    "is_active (metadata_row j) = is_active j"
    "status (restored (metadata_row j)) = (if is_active j then QUEUED else status j)"
    by (simp_all add: restored_def metadata_row_def is_active_def)
qed

lemma find_rows:
  assumes "\<And>k. k \<in> set is \<Longrightarrow> job_id (r k) = k" "i \<in> set is"
  shows "List.find (\<lambda>j. job_id j = i) (map r is) = Some (r i)"
  using assms by (induction "is") auto

text \<open>The state the rows build, before any job is routed.\<close>

lemma rows_of_persisted:
  assumes "wf s" "jobs s0 = []"
  defines "rows \<equiv> disk_jobs (persist_jobs s)"
  obtains s1 mig where "fold restore_job_entry (map Some rows) (s0, [], []) =
      (s1, filter (\<lambda>i. is_active (store s i)) (persisted_ids s), mig)"
    "jobs s1 = persisted_ids s" "\<And>i. i \<in> set (persisted_ids s) \<Longrightarrow> store s1 i = restored (metadata_row (store (persist_jobs s) i))"
    "\<And>i. placed s1 i = placed s0 i" "set mig \<inter> {i. is_active (store s i)} = {}"
proof -
  let ?r = "\<lambda>i. metadata_row (store (persist_jobs s) i)"
  have rows: "rows = map ?r (persisted_ids s)"
    by (simp add: rows_def persist_jobs_def Let_def)
  note f = persist_fields [OF wfD(1) [OF assms(1)]]
  have jid: "job_id (?r i) = i" if "i \<in> set (persisted_ids s)" for i
    using that wfD(8) [OF assms(1), of i] f(4) [of i] by (simp add: metadata_row_def set_persisted_ids)
  have ids: "map job_id rows = persisted_ids s" by (simp add: rows jid map_idI)
  have d: "distinct (persisted_ids s)" using wfD(1) [OF assms(1)] by (simp add: persisted_ids_def)
  have act: "is_active (?r i) = is_active (store s i)" for i
    using f(1) [of i] restored_fields(3) by (simp add: is_active_def)
  define s1 where "s1 = s0\<lparr>store := (\<lambda>i. case List.find (\<lambda>j. job_id j = i) rows of None \<Rightarrow> store s0 i | Some j \<Rightarrow> restored j),
       jobs := persisted_ids s\<rparr>"
  define mig where "mig = map job_id (filter (\<lambda>j. \<not> is_active j \<and> output j \<noteq> []) rows)"
  have active: "map job_id (filter is_active rows) = filter (\<lambda>i. is_active (store s i)) (persisted_ids s)"
    by (simp add: rows filter_map o_def act) (rule map_idI, simp add: jid)
  show thesis
  proof (rule that [of s1 mig])
    have "fold restore_job_entry (map Some rows) (s0, [], []) =
      (s0\<lparr>store := (\<lambda>i. case List.find (\<lambda>j. job_id j = i) rows of None \<Rightarrow> store s0 i | Some j \<Rightarrow> restored j),
         jobs := fold keys_add (map job_id rows) (jobs s0)\<rparr>, [] @ map job_id (filter is_active rows), [] @ mig)"
      unfolding mig_def by (rule restore_entries) (simp add: ids d)
    then show "fold restore_job_entry (map Some rows) (s0, [], []) =
      (s1, filter (\<lambda>i. is_active (store s i)) (persisted_ids s), mig)"
      using fold_keys_add [of "[]" "persisted_ids s"] d assms(2) by (simp add: s1_def ids active)
    show "store s1 i = restored (?r i)" if "i \<in> set (persisted_ids s)" for i
      using find_rows [of "persisted_ids s" ?r i] that jid by (simp add: s1_def rows)
    show "placed s1 i = placed s0 i" for i by (rule placed_eqI) (simp_all add: s1_def)
    show "set mig \<inter> {i. is_active (store s i)} = {}" using jid act by (auto simp: mig_def rows)
  qed (simp add: s1_def)
qed

text \<open>
  C28. A restart loses no work. When no job was stranded before and a prerequisite has none itself, loading
  what was last saved gives the same jobs in the same order, each with its identity; a finished job
  keeps its result; and every job that was queued or running is queued again and either placed, to be
  run, or held behind a prerequisite that is itself active. None is cancelled and none is stranded.
\<close>
theorem restart_keeps_jobs:
  assumes "wf s" "\<forall>i. \<not> orphan s i"
    "\<forall>i \<in> set (jobs s). \<forall>p \<in> set (jobs s). depends_on (store s i) = p \<longrightarrow>
       depends_on (store s p) = [] \<and> job_type (store s p) \<notin> EPHEMERAL_JOB_TYPES"
    "jobs s0 = []" "\<forall>i. \<not> placed s0 i"
  shows "let t = load_jobs fails (map Some (disk_jobs (persist_jobs s))) s0 in
    jobs t = persisted_ids s \<and> (\<forall>i. \<not> orphan t i) \<and>
    (\<forall>i \<in> set (jobs t). job_identity (store t i) = job_identity (store s i) \<and>
       (if is_active (store s i) then status (store t i) = QUEUED \<and> (placed t i \<or> waits t i)
        else status (store t i) = status (store s i)))"
proof -
  obtain s1 mig where s1: "fold restore_job_entry (map Some (disk_jobs (persist_jobs s))) (s0, [], []) =
      (s1, filter (\<lambda>i. is_active (store s i)) (persisted_ids s), mig)"
    "jobs s1 = persisted_ids s" "\<And>i. i \<in> set (persisted_ids s) \<Longrightarrow> store s1 i = restored (metadata_row (store (persist_jobs s) i))"
    "\<And>i. placed s1 i = placed s0 i" "set mig \<inter> {i. is_active (store s i)} = {}"
    by (rule rows_of_persisted [OF assms(1,4)]) (rule that)
  let ?act = "filter (\<lambda>i. is_active (store s i)) (persisted_ids s)"
  define u where "u = fold restore_to_lane ?act s1"
  define t where "t = fold (migrate_output fails) mig u"
  have t: "load_jobs fails (map Some (disk_jobs (persist_jobs s))) s0 = t"
    unfolding load_jobs_def s1(1) by (simp add: t_def u_def)
  note f = persist_fields [OF wfD(1) [OF assms(1)]]
  have sub: "i \<in> set (jobs s)" "job_type (store s i) \<notin> EPHEMERAL_JOB_TYPES" if "i \<in> set (persisted_ids s)" for i
    using that by (simp_all add: set_persisted_ids)
  have j1: "job_identity (store s1 i) = job_identity (store s i)" "depends_on (store s1 i) = depends_on (store s i)"
    "dependency_released (store s1 i) = dependency_released (store s i)"
    "status (store s1 i) = (if is_active (store s i) then QUEUED else status (store s i))"
    if "i \<in> set (persisted_ids s)" for i
    using restored_fields [of "store (persist_jobs s) i"] f(1,3,9) [of i] s1(3) [OF that]
    by (auto simp: is_active_def job_identity_def)
  have flat: "flat_chains s1 ?act"
    using assms(3) sub(1) j1(2) by (auto simp: flat_chains_def)
  have d: "distinct ?act" using wfD(1) [OF assms(1)] by (simp add: persisted_ids_def)
  note fr = fold_restore [OF d flat, folded u_def]
  have cases: "if lands s1 i then True else waits s1 i" if i: "i \<in> set ?act" for i
  proof (cases "lands s1 i")
    case False
    have ip: "i \<in> set (persisted_ids s)" "is_active (store s i)" using i by simp_all
    have dep: "depends_on (store s i) \<noteq> []" "\<not> dependency_released (store s i)"
      using False j1(2,3) [OF ip(1)] by (auto simp: lands_def dependency_satisfied_def)
    have "status (store s i) \<noteq> RUNNING"
      using dep wfD(6,9) [OF assms(1)] occupied_placed sub(1) [OF ip(1)] by blast
    then have "held s i" using ip sub(1) dep by (auto simp: held_def is_active_iff)
    then have p: "depends_on (store s i) \<in> set (jobs s)" "is_active (store s (depends_on (store s i)))"
      using assms(2) [rule_format, of i] dep unfolding orphan_def by blast+
    then have mem: "depends_on (store s i) \<in> set (persisted_ids s)"
      using assms(3) [rule_format, OF sub(1) [OF ip(1)] p(1) refl] p(1) by (simp add: set_persisted_ids)
    have "status (store s1 (depends_on (store s i))) = QUEUED" using j1(4) [OF mem] p(2) by simp
    moreover have "get_job_obj s1 (depends_on (store s1 i)) = Some (store s1 (depends_on (store s i)))"
      unfolding get_job_obj_def j1(2) [OF ip(1)] s1(2) using mem by simp
    ultimately have "waits s1 i" by (simp add: waits_def is_active_iff)
    then show ?thesis by simp
  qed simp
  have tu: "status (store t i) = status (store u i) \<and> job_identity (store t i) = job_identity (store u i) \<and>
      dependency_released (store t i) = dependency_released (store u i) \<and> depends_on (store t i) = depends_on (store u i)" for i
  proof -
    obtain ls where "store t i = (store u i)\<lparr>output := ls\<rparr>"
      using fold_migrate [of fails mig u i] by (auto simp: t_def)
    then show ?thesis by (simp add: job_identity_def)
  qed
  have pt: "placed t i = placed u i" "jobs t = persisted_ids s" for i
    using fold_migrate [of fails mig u i] fr(1) s1(2) by (simp_all add: t_def)
  have main: "job_identity (store t i) = job_identity (store s i) \<and>
       (if is_active (store s i) then status (store t i) = QUEUED \<and> (placed t i \<or> waits t i) \<and>
          (depends_on (store s i) \<noteq> [] \<longrightarrow> dependency_released (store t i) \<or> waits t i)
        else status (store t i) = status (store s i))" if i: "i \<in> set (persisted_ids s)" for i
  proof (cases "is_active (store s i)")
    case False
    then have "store u i = store s1 i" by (intro fr(4)) simp
    then show ?thesis using False tu [of i] j1 [OF i] by simp
  next
    case True
    then have a: "i \<in> set ?act" using i by simp
    note r = fr(6) [OF a, unfolded routed_def] and c = cases [OF a]
    have ident: "job_identity (store t i) = job_identity (store s i)" using r tu [of i] j1(1) [OF i] by simp
    show ?thesis
    proof (cases "lands s1 i")
      case l: True
      then show ?thesis using r True ident tu [of i] j1 [OF i] pt(1) by simp
    next
      case False
      have q: "store u i = store s1 i" using r False c by simp
      let ?p = "depends_on (store s i)"
      have "waits s1 i" using c False by simp
      then have p: "?p \<in> set (persisted_ids s)" "is_active (store s1 ?p)"
        unfolding waits_def get_job_obj_def j1(2) [OF i] s1(2) by (simp_all split: if_splits)
      have "depends_on (store s ?p) = []" using assms(3) sub(1) i p(1) by blast
      then have "lands s1 ?p" using j1(2) [OF p(1)] by (simp add: lands_def dependency_satisfied_def)
      moreover have "is_active (store s ?p)" using p(2) j1(4) [OF p(1)] by (auto simp: is_active_def split: if_splits)
      ultimately have "status (store t ?p) = QUEUED"
        using fr(6) [of ?p] p(1) tu [of ?p] j1(4) [OF p(1)] by (simp add: routed_def)
      moreover have "depends_on (store t i) = ?p" using q tu [of i] j1(2) [OF i] by simp
      ultimately have "waits t i"
        using p(1) unfolding waits_def get_job_obj_def by (simp add: pt(2) is_active_iff)
      then show ?thesis using True ident q tu [of i] j1(4) [OF i] by simp
    qed
  qed
  have "\<not> orphan t i" for i
  proof
    assume o: "orphan t i"
    then have i: "i \<in> set (persisted_ids s)" "is_active (store t i)" "depends_on (store t i) \<noteq> []"
      "\<not> dependency_released (store t i)" "\<not> waits t i"
      using pt(2) by (auto simp: orphan_def held_def is_active_iff waits_def get_job_obj_def)
    have "depends_on (store t i) = depends_on (store s i)"
      using main [OF i(1)] by (simp add: job_identity_def)
    moreover have "is_active (store s i)" using main [OF i(1)] i(2) by (auto simp: is_active_def split: if_splits)
    ultimately show False using main [OF i(1)] i(3-5) by auto
  qed
  then show ?thesis unfolding t Let_def using main pt(2) by auto
qed

lemma restart_keeps_jobs_witness:
  "let t = load_jobs {} (map Some (disk_jobs (persist_jobs ex_chain))) ex_fw in
     jobs t = [''u0'', ''u1''] \<and> (\<forall>i. \<not> orphan t i) \<and>
     (\<forall>i \<in> {''u0'', ''u1''}. status (store t i) = QUEUED \<and> (placed t i \<or> waits t i))"
proof -
  have o: "\<forall>i. \<not> orphan ex_chain i" by (auto simp: orphan_def held_def is_active_iff)
  have p: "persisted_ids ex_chain = [''u0'', ''u1'']"
    by (simp add: persisted_ids_def EPHEMERAL_JOB_TYPES_def)
  have "jobs ex_fw = []" by (simp add: ex_fw_def new_fw_def)
  moreover have "\<forall>i. \<not> placed ex_fw i"
    using placed_new_fw by (simp add: ex_fw_def)
  ultimately show ?thesis
    using restart_keeps_jobs [OF wf_ex_chain(2) o, of ex_fw "{}"] p
    by (simp add: Let_def is_active_iff EPHEMERAL_JOB_TYPES_def)
qed

end
