(* ===== verification/Cli.thy ===== *)
theory Cli
  imports Enqueue RemoteLayout
begin

text \<open>
  \<open>controllers/firmware/cli.py\<close> and the target checks of \<open>controllers/firmware/helpers.py\<close>: the argument
  vector of a job's esphome process, its environment, the chip verification of a serial flash and the
  validation of a flash target. The installed version, the stored target platform and what esptool
  printed are arguments, as are esphome's \<open>get_port_type\<close> and Python's \<open>ipaddress\<close>. Strings are
  Latin-1; an em dash in a message is written \<open>-\<close>.
\<close>

section \<open>Strings the commands use\<close>

definition char_upper :: "char \<Rightarrow> char" where
  "char_upper c = (if is_lower c then char_of (of_char c - (32 :: nat)) else c)"

definition upper :: "string \<Rightarrow> string" where
  "upper s = map char_upper s"

text \<open>The last piece of \<open>s.split(sep)\<close>; \<open>acc\<close> is the piece being read, reversed.\<close>

function last_piece :: "string \<Rightarrow> string \<Rightarrow> string \<Rightarrow> string" where
  "last_piece sep acc s =
     (if s = [] then rev acc
      else if sep \<noteq> [] \<and> starts_with s sep then last_piece sep [] (drop (length sep) s)
      else last_piece sep (hd s # acc) (tl s))"
  by pat_completeness auto
termination
  by (relation "measure (\<lambda>(sep, acc, s). length s)") auto

declare last_piece.simps [simp del]

text \<open>\<open>str.splitlines\<close> on the characters of a Latin-1 text.\<close>

definition line_break :: "char \<Rightarrow> bool" where
  "line_break c \<longleftrightarrow>
     c \<in> {CHR 0x0A, CHR 0x0B, CHR 0x0C, CHR 0x0D, CHR 0x1C, CHR 0x1D, CHR 0x1E, CHR 0x85}"

fun splitlines_from :: "string \<Rightarrow> string \<Rightarrow> string list" where
  "splitlines_from acc [] = (if acc = [] then [] else [rev acc])"
| "splitlines_from acc [c] = (if line_break c then [rev acc] else [rev (c # acc)])"
| "splitlines_from acc (c # d # s) =
     (if c = CHR 0x0D \<and> d = CHR 0x0A then rev acc # splitlines_from [] s
      else if line_break c then rev acc # splitlines_from [] (d # s)
      else splitlines_from (c # acc) (d # s))"

definition splitlines :: "string \<Rightarrow> string list" where
  "splitlines s = splitlines_from [] s"

section \<open>The command line\<close>

definition SKIP_BOOTLOADER_RELEASE :: "nat \<times> nat" where
  "SKIP_BOOTLOADER_RELEASE = (2026, 10)"

definition effective_skip_bootloader :: "string \<Rightarrow> FirmwareJob \<Rightarrow> bool" where
  "effective_skip_bootloader installed j =
     (let version = (if target_esphome_version j \<noteq> [] then target_esphome_version j else installed)
      in skip_bootloader j \<and> release_line_at_least version SKIP_BOOTLOADER_RELEASE)"

definition cmd_map :: "JobType \<Rightarrow> string" where
  "cmd_map ty =
     (case ty of COMPILE \<Rightarrow> ''compile'' | UPLOAD \<Rightarrow> ''upload'' | INSTALL \<Rightarrow> ''run'' | CLEAN \<Rightarrow> ''clean''
      | RENAME \<Rightarrow> ''rename'' | ANALYZE_MEMORY \<Rightarrow> ''analyze-memory'' | RESET_BUILD_ENV \<Rightarrow> ''clean-all'')"

definition build_command ::
    "string list \<Rightarrow> JobType \<Rightarrow> string \<Rightarrow> string \<Rightarrow> string list \<Rightarrow> string \<Rightarrow> bool \<Rightarrow> bool \<Rightarrow> string list" where
  "build_command esphome_cmd ty config_path p cache_args nn flash_boot skip_boot =
     esphome_cmd @ [''--dashboard''] @ cache_args @ [cmd_map ty, config_path] @
     (if ty = INSTALL then [''--no-logs''] else []) @
     (if ty \<in> {UPLOAD, INSTALL} \<and> p \<noteq> [] then [''--device'', p] else []) @
     (if ty = UPLOAD \<and> flash_boot then [''--bootloader''] else []) @
     (if ty = COMPILE \<and> skip_boot then [''--skip-bootloader''] else []) @
     (if ty = RENAME then [nn] else [])"

text \<open>The environment, \<open>os_environ\<close> the process's and \<open>layer\<close> the constant overrides.\<close>

definition compose_subprocess_env ::
    "(string, string) dict \<Rightarrow> (string, string) dict \<Rightarrow> (string list \<Rightarrow> string) \<Rightarrow> string list \<Rightarrow> FirmwareJob \<Rightarrow>
     (string, string) dict" where
  "compose_subprocess_env os_environ layer path_str data_dir j =
     (let env = fold (\<lambda>(k, v) d. dict_set k v d) layer os_environ in
      case parse_from_configuration (configuration j) of
        None \<Rightarrow> env
      | Some p \<Rightarrow> dict_pop ''ESPHOME_IS_HA_ADDON''
                   (dict_set ''ESPHOME_DATA_DIR'' (path_str (build_data_dir p data_dir)) env))"

definition OTA_ADDRESS_CACHE_JOB_TYPES :: "JobType set" where
  "OTA_ADDRESS_CACHE_JOB_TYPES = {UPLOAD, INSTALL, RENAME}"

text \<open>\<open>address_args\<close> stands for the devices controller's \<open>get_address_cache_args\<close>.\<close>

definition get_ota_address_cache_args :: "(string \<Rightarrow> string list) \<Rightarrow> string \<Rightarrow> string option \<Rightarrow> string list" where
  "get_ota_address_cache_args address_args conf p =
     (if p \<noteq> None \<and> p \<noteq> Some OTA_PORT then [] else address_args conf)"

definition build_cache_args :: "(string \<Rightarrow> string list) \<Rightarrow> FirmwareJob \<Rightarrow> fw \<Rightarrow> string list" where
  "build_cache_args address_args j s =
     (if job_type j \<notin> OTA_ADDRESS_CACHE_JOB_TYPES \<or> devices s = None then []
      else let p = (if job_type j = RENAME then None else Some (port j))
           in get_ota_address_cache_args address_args (configuration j) p)"

section \<open>Chip verification\<close>

definition checks_chip :: "FirmwareJob \<Rightarrow> bool" where
  "checks_chip j \<longleftrightarrow> port j \<noteq> [] \<and> upper (port j) \<noteq> OTA_PORT \<and> starts_with (port j) ''/dev''"

definition detected_chip :: "string \<Rightarrow> string" where
  "detected_chip out =
     (case List.find (\<lambda>l. contains l ''Detecting chip type'') (splitlines out) of
        None \<Rightarrow> []
      | Some l \<Rightarrow> filter (\<lambda>c. c \<noteq> CHR ''-'') (lower (strip (last_piece ''...'' [] l))))"

text \<open>
  \<open>platform\<close> is the stored target platform, when there is one; \<open>out\<close> what esptool printed. The spawn is
  registered for the probe only.
\<close>

definition verify_chip :: "string option \<Rightarrow> string \<Rightarrow> string \<Rightarrow> fw \<Rightarrow> unit result" where
  "verify_chip platform out jid s =
     (if \<not> checks_chip (store s jid) then Inr ()
      else case platform of
        None \<Rightarrow> Inr ()
      | Some p \<Rightarrow>
          if p = [] then Inr ()
          else let expected_platform = lower p in
            (case raise_if_cancelled jid ''chip verification'' s of
               Inl e \<Rightarrow> Inl e
             | Inr u \<Rightarrow>
                 let detected = detected_chip out in
                 if detected = [] then Inr ()
                 else let expected = filter (\<lambda>c. c \<noteq> CHR ''-'' \<and> c \<noteq> CHR ''_'') (lower expected_platform);
                          found = filter (\<lambda>c. c \<noteq> CHR '' '') detected
                      in if expected \<noteq> found
                         then Inl (ValueError (''Chip mismatch: config expects '' @ expected_platform @ '' but '' @
                                port (store s jid) @ '' has '' @ detected @ ''. Wrong board selected?''))
                         else Inr ()))"

section \<open>Flash targets\<close>

definition is_alnum :: "char \<Rightarrow> bool" where
  "is_alnum c \<longleftrightarrow> is_digit c \<or> is_upper c \<or> is_lower c"

text \<open>One label: letters, digits and inner hyphens, at most 63 characters.\<close>

definition LABEL_RE :: re where
  "LABEL_RE =
     Seq (Chr is_alnum)
       (Opt (Seq (UpTo 61 (Chr (\<lambda>c. is_alnum c \<or> c = CHR ''-''))) (Chr is_alnum)))"

definition HOSTNAME_RE :: re where
  "HOSTNAME_RE = Seq LABEL_RE (Star True (Seq (Lit CHR ''.'') LABEL_RE))"

definition removesuffix :: "string \<Rightarrow> string \<Rightarrow> string" where
  "removesuffix p s = (if p \<noteq> [] \<and> ends_with s p then take (length s - length p) s else s)"

text \<open>\<open>s.isdigit()\<close> of a Latin-1 string: the superscripts one to three are digits, too.\<close>

definition isdigit :: "string \<Rightarrow> bool" where
  "isdigit s \<longleftrightarrow> s \<noteq> [] \<and> (\<forall>c \<in> set s. is_digit c \<or> c \<in> {CHR 0xB2, CHR 0xB3, CHR 0xB9})"

definition looks_ip :: "string \<Rightarrow> bool" where
  "looks_ip p \<longleftrightarrow>
     CHR '':'' \<in> set p \<or> (isdigit (filter (\<lambda>c. c \<noteq> CHR ''.'') p) \<and> CHR ''.'' \<in> set p)"

text \<open>\<open>parse_ip\<close> is \<open>ipaddress.ip_address\<close>: the text of its \<open>ValueError\<close>, or success.\<close>

definition validate_port :: "(string \<Rightarrow> PortType) \<Rightarrow> (string \<Rightarrow> string option) \<Rightarrow> string \<Rightarrow> unit result" where
  "validate_port get_port_type parse_ip p =
     (if p = [] \<or> p = OTA_PORT then Inr ()
      else if get_port_type p = SERIAL then Inr ()
      else if looks_ip p then
        (case parse_ip p of
           None \<Rightarrow> Inr ()
         | Some exc \<Rightarrow> Inl (CommandError INVALID_ARGS
             (''Invalid device target '' @ quoted p @ '' - looks like an IP but didn'' @ [CHR 0x27] @ ''t parse: '' @ exc)))
      else if re_fullmatch HOSTNAME_RE (removesuffix ''.'' p) \<noteq> None then Inr ()
      else Inl (CommandError INVALID_ARGS
             (''Invalid device target '' @ quoted p @ '' - expected ``OTA``, a serial path, an IP address, or a hostname'')))"

definition validate_upload_target ::
    "(string \<Rightarrow> PortType) \<Rightarrow> (string \<Rightarrow> string option) \<Rightarrow> string \<Rightarrow> bool \<Rightarrow> unit result" where
  "validate_upload_target get_port_type parse_ip p bootloader =
     (case validate_port get_port_type parse_ip p of
        Inl e \<Rightarrow> Inl e
      | Inr u \<Rightarrow>
          if bootloader \<and> (p = [] \<or> get_port_type p = SERIAL)
          then Inl (CommandError INVALID_ARGS
                 ''Bootloader update runs over OTA only - target must be OTA, an IP address, or a hostname'')
          else Inr ())"

section \<open>What the target check accepts\<close>

text \<open>A host label: 1 to 63 letters, digits and hyphens, the first and the last not a hyphen.\<close>

definition host_label :: "string \<Rightarrow> bool" where
  "host_label l \<longleftrightarrow>
     l \<noteq> [] \<and> length l \<le> 63 \<and> is_alnum (hd l) \<and> is_alnum (last l) \<and>
     (\<forall>c \<in> set l. is_alnum c \<or> c = CHR ''-'')"

lemma anchor_free_UpTo [simp]: "anchor_free (UpTo n r) \<longleftrightarrow> n = 0 \<or> anchor_free r"
  by (induction n) auto

lemma lang_UpTo_Chr [simp]: "lang (UpTo n (Chr f)) w \<longleftrightarrow> length w \<le> n \<and> (\<forall>c \<in> set w. f c)"
proof (induction n arbitrary: w)
  case (Suc n)
  then show ?case by (cases w) (auto simp: lang_Seq_Chr)
qed auto

lemma lang_label: "lang LABEL_RE w \<longleftrightarrow> host_label w"
proof (cases w)
  case Nil
  then show ?thesis by (auto simp: LABEL_RE_def lang_Seq_Chr host_label_def)
next
  case (Cons c v)
  show ?thesis
  proof (cases v rule: rev_cases)
    case Nil
    then show ?thesis using Cons by (auto simp: LABEL_RE_def lang_Seq_Chr lang_Seq_iff lang_Chr_iff host_label_def)
  next
    case (snoc m d)
    have tl_eq: "lang (Seq (UpTo 61 (Chr (\<lambda>c. is_alnum c \<or> c = CHR ''-''))) (Chr is_alnum)) (m @ [d]) \<longleftrightarrow>
        is_alnum d \<and> length m \<le> 61 \<and> (\<forall>c \<in> set m. is_alnum c \<or> c = CHR ''-'')"
      by (auto simp: lang_Seq_iff lang_Chr_iff simp del: UpTo.simps)
    have "lang LABEL_RE w \<longleftrightarrow> is_alnum c \<and> lang (Seq (UpTo 61 (Chr (\<lambda>c. is_alnum c \<or> c = CHR ''-''))) (Chr is_alnum)) (m @ [d])"
      unfolding LABEL_RE_def Cons snoc by (simp add: lang_Seq_Chr del: UpTo.simps)
    then show ?thesis unfolding tl_eq using Cons snoc by (auto simp: host_label_def)
  qed
qed

lemma host_label_no_dot: "host_label l \<Longrightarrow> CHR ''.'' \<notin> set l"
  by (auto simp: host_label_def is_alnum_def is_digit_def is_upper_def is_lower_def)

lemma lang_hostname: "lang HOSTNAME_RE w \<longleftrightarrow> (\<forall>l \<in> set (split_on CHR ''.'' w). host_label l)"
proof -
  have dotted: "lang (Seq (Lit CHR ''.'') LABEL_RE) u \<longleftrightarrow> (\<exists>l. u = CHR ''.'' # l \<and> host_label l)" for u
    by (auto simp: lang_Seq_Chr lang_label)
  have star: "lang (Star True (Seq (Lit CHR ''.'') LABEL_RE)) (List.concat (map (\<lambda>l. CHR ''.'' # l) ls))"
    if "\<forall>l \<in> set ls. host_label l" for ls
    using that by (intro lang_Star_closure) (auto simp: dotted)
  have join: "join_with CHR ''.'' (l # ls) = l @ List.concat (map (\<lambda>l. CHR ''.'' # l) ls)" for l ls
    by (induction ls arbitrary: l) auto
  have rejoin: "join_with CHR ''.'' (split_on CHR ''.'' u) = u" for u
  proof (induction u)
    case (Cons c u)
    then show ?case by (cases "split_on CHR ''.'' u") (auto simp: join)
  qed simp
  show ?thesis
  proof
    assume "lang HOSTNAME_RE w"
    then obtain l t where w: "w = l @ t" "host_label l" "lang (Star True (Seq (Lit CHR ''.'') LABEL_RE)) t"
      unfolding HOSTNAME_RE_def by (auto simp: lang_Seq_iff [of LABEL_RE] lang_label)
    obtain us where us: "t = List.concat us" "\<forall>u \<in> set us. lang (Seq (Lit CHR ''.'') LABEL_RE) u"
      using lang_Star_decomp [OF w(3)] by blast
    have "\<exists>ls. us = map (\<lambda>l. CHR ''.'' # l) ls \<and> (\<forall>l \<in> set ls. host_label l)"
      using us(2)
    proof (induction us)
      case (Cons u us)
      then obtain ls l where "us = map (\<lambda>l. CHR ''.'' # l) ls" "\<forall>l \<in> set ls. host_label l" "u = CHR ''.'' # l" "host_label l"
        by (auto simp: dotted)
      then show ?case by (intro exI [of _ "l # ls"]) simp
    qed simp
    then obtain ls where ls: "us = map (\<lambda>l. CHR ''.'' # l) ls" "\<forall>l \<in> set ls. host_label l" by blast
    have "split_on CHR ''.'' w = l # ls"
      unfolding w(1) us(1) ls(1) join [symmetric]
      using w(2) ls(2) by (intro split_join) (auto dest: host_label_no_dot)
    then show "\<forall>l \<in> set (split_on CHR ''.'' w). host_label l" using w(2) ls(2) by simp
  next
    assume h: "\<forall>l \<in> set (split_on CHR ''.'' w). host_label l"
    obtain l ls where sp: "split_on CHR ''.'' w = l # ls" by (cases "split_on CHR ''.'' w") auto
    then have "w = l @ List.concat (map (\<lambda>l. CHR ''.'' # l) ls)" using rejoin [of w] join by simp
    moreover have "lang LABEL_RE l" using h sp by (simp add: lang_label)
    ultimately show "lang HOSTNAME_RE w"
      unfolding HOSTNAME_RE_def using star [of ls] h sp by (auto intro: lang_Seq)
  qed
qed



end
