(* ===== verification/Runner.thy ===== *)
theory Runner
  imports RemoteDriver RenameFlow Cli
begin

text \<open>
  \<open>controllers/firmware/runner.py\<close>: a worker of a lane takes a job off its queue, holds a flash at the
  build gate while a wipe of its build tree is pending, runs the job's subprocess, scans its output for
  errors and finalises the job. The pieces between two suspensions of the coroutine are functions on the
  state; what the subprocess prints and how it ends are arguments. The lemmas show that every way a run
  can end makes the job terminal, with the status the outcome calls for, frees its slot and strands no
  other job, and that a flash never starts while its build tree is about to be wiped.
\<close>

section \<open>Scanning the output\<close>

definition ERROR_PATTERNS :: "string list" where
  "ERROR_PATTERNS = [''ModuleNotFoundError'', ''ImportError'', ''FileNotFoundError'', ''command not found'']"

definition NO_ESPHOME_MODULE_MARKER :: string where
  "NO_ESPHOME_MODULE_MARKER = ''No module named '' @ [CHR 0x27] @ ''esphome'' @ [CHR 0x27]"

definition is_no_module_named_esphome :: "string \<Rightarrow> bool" where
  "is_no_module_named_esphome line \<longleftrightarrow> contains line NO_ESPHOME_MODULE_MARKER"

text \<open>The two \<open>nonlocal\<close> flags of \<open>execute_job\<close>.\<close>

record ScanFlags =
  has_error_in_output :: bool
  saw_no_esphome_module :: bool

definition no_flags :: ScanFlags where
  "no_flags = \<lparr>has_error_in_output = False, saw_no_esphome_module = False\<rparr>"

definition is_warning_line :: "string \<Rightarrow> bool" where
  "is_warning_line line \<longleftrightarrow> starts_with (dropWhile is_space (re_delete ANSI_CSI_RE line)) ''WARNING ''"

definition check_error :: "string \<Rightarrow> ScanFlags \<Rightarrow> ScanFlags" where
  "check_error line f =
     (if is_warning_line line then f
      else let f1 = (if \<not> saw_no_esphome_module f \<and> is_no_module_named_esphome line
                     then f\<lparr>saw_no_esphome_module := True\<rparr> else f)
           in if has_error_in_output f1 then f1
              else if \<exists>p \<in> set ERROR_PATTERNS. contains line p then f1\<lparr>has_error_in_output := True\<rparr>
              else f1)"

section \<open>The worker of a lane\<close>

text \<open>\<open>lane.queue.get()\<close>, when something is queued.\<close>

definition take_job :: "lane_name \<Rightarrow> fw \<Rightarrow> (string \<times> fw) option" where
  "take_job n s =
     (case lane_queue (get_lane n s) of
        [] \<Rightarrow> None
      | jid # waiting \<Rightarrow> Some (jid, upd_lane n (\<lambda>l. l\<lparr>lane_queue := waiting\<rparr>) s))"

text \<open>
  One turn at the gate: \<open>True\<close> when the wait is over. The gate is cleared before it is checked; nothing
  runs between the check and the wait.
\<close>

definition gate_turn :: "string \<Rightarrow> fw \<Rightarrow> bool \<times> fw" where
  "gate_turn jid s =
     (if \<not> is_network_flash (store s jid) then (True, s)
      else let s1 = s\<lparr>build_gate := False\<rparr>
           in (status (store s1 jid) = CANCELLED \<or> \<not> upload_blocked s1 (store s1 jid), s1))"

text \<open>The \<open>finally\<close> of one round of the worker.\<close>

definition round_end :: "lane_name \<Rightarrow> fw \<Rightarrow> fw" where
  "round_end n s = (if n = CompileLane then upd_pool rearm_if_pending s else s)"

definition lane_claim :: "string \<Rightarrow> Lane \<Rightarrow> Lane" where
  "lane_claim jid l = l\<lparr>active := keys_add jid (active l)\<rparr>"

text \<open>The prologue of \<open>execute_job\<close>: the slot is claimed before the start is announced.\<close>

definition execute_start :: "lane_name \<Rightarrow> string \<Rightarrow> fw \<Rightarrow> fw" where
  "execute_start n jid s = begin_run jid (upd_lane n (lane_claim jid) s)"

text \<open>
  What a worker that holds a job does next: it skips a cancelled one, waits at the gate, or runs it.
  \<open>run_lane\<close> looks at the status before and after the gate.
\<close>

datatype worker_turn = Skipped | Waiting | Started

definition run_lane_turn :: "lane_name \<Rightarrow> string \<Rightarrow> fw \<Rightarrow> worker_turn \<times> fw" where
  "run_lane_turn n jid s =
     (if status (store s jid) = CANCELLED then (Skipped, round_end n s)
      else case gate_turn jid s of
             (False, s1) \<Rightarrow> (Waiting, s1)
           | (True, s1) \<Rightarrow>
               if status (store s1 jid) = CANCELLED then (Skipped, round_end n s1)
               else (Started, execute_start n jid s1))"

section \<open>One run\<close>

text \<open>
  How a run ends early: the runner task is cancelled, the receiver cannot provision the version, or any
  other exception, with its text.
\<close>

datatype run_fail = RunnerCancelled | EnvProvisionError string | Raised string

fun exn_text :: "exn \<Rightarrow> string" where
  "exn_text (CommandError c m) = m"
| "exn_text (ValueError m) = m"
| "exn_text (RuntimeError m) = m"
| "exn_text (TypeError m) = m"
| "exn_text (FileNotFoundError m) = m"
| "exn_text (OSError m) = m"

definition ingest_line :: "string \<Rightarrow> string \<Rightarrow> fw \<Rightarrow> fw" where
  "ingest_line jid line s =
     (case now_iso s of
        (now, s1) \<Rightarrow>
          (case ingest_output_line now (store s1 jid) line of
             (j, ev) \<Rightarrow> fold fire_event ev (upd_job jid (\<lambda>_. j) s1)))"

text \<open>
  What the process around the queue answers. \<open>provision\<close> and \<open>cached_cmd\<close> are the receiver's environment
  provisioner: provisioning prints lines and gives a command line or the text of its error. \<open>rel_path\<close>
  is the settings' path resolution, which can refuse a path.
\<close>

record EnvProvisioner =
  provision :: "string \<Rightarrow> string list \<times> (string + string list)"
  cached_cmd :: "string \<Rightarrow> string list option"

record RunHost =
  stored_platform :: "string \<Rightarrow> string option"
  esptool_output :: "string \<Rightarrow> string"
  rel_path :: "string \<Rightarrow> string result"
  address_args :: "string \<Rightarrow> string list"
  esphome_cmd :: "string list"
  installed_esphome_version :: string
  env_provisioner :: "EnvProvisioner option"

definition UNDER_PURGE_NOTICE :: "string \<Rightarrow> string" where
  "UNDER_PURGE_NOTICE version =
     ''No cached esphome '' @ version @ ''; cleaning with the installed esphome, which may not fully '' @
     ''purge artifacts built with '' @ version @ ''.'' @ [CHR 0x0A]"

definition resolve_esphome_cmd :: "RunHost \<Rightarrow> string \<Rightarrow> fw \<Rightarrow> (run_fail + string list) \<times> fw" where
  "resolve_esphome_cmd h jid s =
     (let version = target_esphome_version (store s jid) in
      if version = [] \<or> version = installed_esphome_version h then (Inr (esphome_cmd h), s)
      else if job_type (store s jid) \<in> COMPILING_JOB_TYPES then
        (case env_provisioner h of
           None \<Rightarrow> (Inl (EnvProvisionError (''no provisioner available to build esphome '' @ version @
             '' (receiver stopping?); refusing to compile with the installed version'')), s)
         | Some p \<Rightarrow>
             (case provision p version of
                (lines, r) \<Rightarrow> (case r of Inl e \<Rightarrow> Inl (EnvProvisionError e) | Inr cmd \<Rightarrow> Inr cmd,
                               fold (ingest_line jid) lines s)))
      else if job_type (store s jid) = CLEAN then
        (case Option.bind (env_provisioner h) (\<lambda>p. cached_cmd p version) of
           Some cmd \<Rightarrow> if cmd \<noteq> [] then (Inr cmd, s)
                       else (Inr (esphome_cmd h), ingest_line jid (UNDER_PURGE_NOTICE version) s)
         | None \<Rightarrow> (Inr (esphome_cmd h), ingest_line jid (UNDER_PURGE_NOTICE version) s))
      else (Inr (esphome_cmd h), s))"

text \<open>From the start of the \<open>try\<close> to the command line; a rename tail runs as an upload of the new YAML.\<close>

definition local_command :: "RunHost \<Rightarrow> string \<Rightarrow> fw \<Rightarrow> (run_fail + string list) \<times> fw" where
  "local_command h jid s =
     (let j = store s jid in
      case (if job_type j \<in> {UPLOAD, INSTALL}
            then verify_chip (stored_platform h (configuration j)) (esptool_output h (port j)) jid s
            else Inr ()) of
        Inl e \<Rightarrow> (Inl (Raised (exn_text e)), s)
      | Inr u \<Rightarrow>
          (case rel_path h (flash_configuration j) of
             Inl e \<Rightarrow> (Inl (Raised (exn_text e)), s)
           | Inr config_path \<Rightarrow>
               (case resolve_esphome_cmd h jid s of
                  (Inl e, s1) \<Rightarrow> (Inl e, s1)
                | (Inr cmd, s1) \<Rightarrow>
                    (Inr (build_command cmd (if is_rename_tail j then UPLOAD else job_type j) config_path (port j)
                       (build_cache_args (address_args h) j s) (new_name j) (flash_bootloader j)
                       (effective_skip_bootloader (installed_esphome_version h) j)), s1))))"

text \<open>The spawn becomes visible to a cancel; one that came earlier is delivered now.\<close>

definition tracked_spawn :: "string \<Rightarrow> fw \<Rightarrow> fw" where
  "tracked_spawn jid s =
     (let s1 = register_spawn jid s
      in if jid \<in> cancel_requested s1 then terminate_job_process jid s1 else s1)"

text \<open>One line of output.\<close>

definition on_line :: "string \<Rightarrow> string \<Rightarrow> ScanFlags \<times> fw \<Rightarrow> ScanFlags \<times> fw" where
  "on_line jid line st = (check_error line (fst st), ingest_line jid line (snd st))"

text \<open>
  The output loop, one element of the list per poll: whether the reader is done, the return code of the
  process, whether the job is flagged. \<open>None\<close>: still running after these polls. A flagged job does not
  wait for a surviving child that holds the pipe open.
\<close>

fun exit_of :: "(bool \<times> int option \<times> bool) list \<Rightarrow> int option" where
  "exit_of [] = None"
| "exit_of ((reader_done, returncode, flagged) # polls) =
     (case returncode of None \<Rightarrow> exit_of polls | Some code \<Rightarrow> Some code)"

fun pump_output_until_exit :: "(bool \<times> int option \<times> bool) list \<Rightarrow> int option" where
  "pump_output_until_exit [] = None"
| "pump_output_until_exit ((reader_done, returncode, flagged) # polls) =
     (if reader_done then exit_of ((reader_done, returncode, flagged) # polls)
      else case returncode of
             None \<Rightarrow> pump_output_until_exit polls
           | Some code \<Rightarrow> if flagged then Some code else pump_output_until_exit polls)"

definition NOT_IMPORTABLE_ERROR :: "string \<Rightarrow> string" where
  "NOT_IMPORTABLE_ERROR executable =
     ''esphome is not importable from the dashboard'' @ [CHR 0x27] @ ''s Python environment ('' @ executable @
     ''). Install it with ``pip install -e '' @ [CHR 0x27] @ ''.[esphome]'' @ [CHR 0x27] @
     ''`` (or ``pip install esphome``) in the same venv and restart the dashboard.''"

definition OUTPUT_ERRORS_ERROR :: string where
  "OUTPUT_ERRORS_ERROR = ''Process exited 0 but output contains errors''"

text \<open>
  After the process has exited: the end of the \<open>try\<close>. \<open>removed\<close> says whether a rename's old files could be
  removed, \<open>venv_error\<close> whether wiping the receiver's environments raised.
\<close>

definition after_exit ::
    "string \<Rightarrow> bool \<Rightarrow> string option \<Rightarrow> int \<Rightarrow> ScanFlags \<Rightarrow> string \<Rightarrow> fw \<Rightarrow> (run_fail + unit) \<times> fw" where
  "after_exit executable removed venv_error code f jid s =
     (let s1 = release_spawn jid (upd_job jid (\<lambda>j. j\<lparr>exit_code := Some code\<rparr>) s) in
      case cancel_if_requested jid s1 of
        (Inl e, s2) \<Rightarrow> (Inl (Raised (exn_text e)), s2)
      | (Inr True, s2) \<Rightarrow> (Inr (), s2)
      | (Inr False, s2) \<Rightarrow>
          let success = (code = 0 \<and> \<not> has_error_in_output f);
              s3 = (if has_error_in_output f \<and> code = 0
                    then upd_job jid (\<lambda>j. j\<lparr>error := Some (if saw_no_esphome_module f
                           then NOT_IMPORTABLE_ERROR executable else OUTPUT_ERRORS_ERROR)\<rparr>) s2
                    else s2);
              s4 = (if success \<and> is_rename_tail (store s3 jid) then finalize_rename_swap removed jid s3 else s3)
          in if success \<and> job_type (store s4 jid) = RESET_BUILD_ENV \<and> venv_error \<noteq> None
             then (Inl (Raised (the venv_error)), s4)
             else (case finalize_terminal jid (if success then COMPLETED else FAILED) None s4 of
                     (Inl e, s5) \<Rightarrow> (Inl (Raised (exn_text e)), s5)
                   | (Inr u, s5) \<Rightarrow> (Inr (), s5)))"

text \<open>The runner task is cancelled while the subprocess runs: its tree is told to terminate.\<close>

definition runner_cancelled :: "string \<Rightarrow> fw \<Rightarrow> (run_fail + unit) \<times> fw" where
  "runner_cancelled jid s = (Inl RunnerCancelled, release_spawn jid (terminate_job_process jid s))"

text \<open>
  The handlers and the \<open>finally\<close> of \<open>execute_job\<close>. The flag says whether an exception leaves it: the
  cancellation of the runner does, and so would an exception of a handler.
\<close>

definition execute_end :: "lane_name \<Rightarrow> string \<Rightarrow> (run_fail + unit) \<times> fw \<Rightarrow> bool \<times> fw" where
  "execute_end n jid r =
     (case (case r of
              (Inr u, s) \<Rightarrow> (False, s)
            | (Inl RunnerCancelled, s) \<Rightarrow> (True, snd (finalize_cancelled jid s))
            | (Inl (EnvProvisionError e), s) \<Rightarrow>
                (case finalize_unexpected_error jid e (upd_job jid (\<lambda>j. j\<lparr>failure_reason := PROVISION\<rparr>) s) of
                   (x, s1) \<Rightarrow> (isl x, s1))
            | (Inl (Raised e), s) \<Rightarrow>
                (case finalize_unexpected_error jid e s of (x, s1) \<Rightarrow> (isl x, s1))) of
        (escapes, s) \<Rightarrow> (escapes, end_run jid (upd_lane n (lane_release jid) s)))"

section \<open>Frames\<close>

lemma quiet_cancel_requested: "wf s \<Longrightarrow> quiet s (s\<lparr>cancel_requested := c\<rparr>)"
  using placed_eqI [of "s\<lparr>cancel_requested := c\<rparr>" s] by (intro quiet_same) auto

lemma quiet_spawns: "wf s \<Longrightarrow> quiet s (register_spawn jid s)" "wf s \<Longrightarrow> quiet s (release_spawn jid s)"
proof -
  have "placed (register_spawn jid s) i = placed s i" "occupied (register_spawn jid s) i = occupied s i"
    "placed (release_spawn jid s) i = placed s i" "occupied (release_spawn jid s) i = occupied s i" for i
    unfolding register_spawn_def release_spawn_def by (rule placed_eqI; simp)+
  then show "wf s \<Longrightarrow> quiet s (register_spawn jid s)" "wf s \<Longrightarrow> quiet s (release_spawn jid s)"
    by (intro quiet_same; simp add: register_spawn_def release_spawn_def)+
qed

lemma quiet_swap: "wf s \<Longrightarrow> quiet s (finalize_rename_swap removed jid s)"
proof -
  have "placed (finalize_rename_swap removed jid s) i = placed s i"
    "occupied (finalize_rename_swap removed jid s) i = occupied s i" for i
    by (rule placed_eqI; simp add: finalize_rename_swap_def)+
  then show "wf s \<Longrightarrow> quiet s (finalize_rename_swap removed jid s)"
    by (intro quiet_same) (simp_all add: finalize_rename_swap_def)
qed

lemma quiet_lane_release:
  assumes "wf s" "status (store s jid) \<noteq> RUNNING"
  shows "quiet s (upd_lane n (lane_release jid) s)"
proof -
  let ?t = "upd_lane n (lane_release jid) s"
  have m: "lane_queue (get_lane m ?t) = lane_queue (get_lane m s)"
    "i \<in> set (active (get_lane m ?t)) \<Longrightarrow> i \<in> set (active (get_lane m s))"
    "i \<noteq> jid \<Longrightarrow> i \<in> set (active (get_lane m ?t)) \<longleftrightarrow> i \<in> set (active (get_lane m s))" for m i
    by (cases n; cases m; simp add: lane_release_def)+
  have "placed ?t i \<Longrightarrow> placed s i" for i
    using m(1,2) unfolding placed_def by (simp only: upd_lane_frame) blast
  moreover have "i \<noteq> jid \<Longrightarrow> occupied ?t i = occupied s i" for i
    using m(3) [of i] unfolding occupied_def by (simp only: upd_lane_frame) blast
  moreover have "status (store s i) = RUNNING \<Longrightarrow> i \<noteq> jid" for i using assms(2) by blast
  ultimately show ?thesis by (intro quiet_same [OF assms(1)]) simp_all
qed

lemma end_run_lane [simp]: "get_lane n (end_run jid s) = get_lane n s"
  by (cases n) (simp_all add: end_run_def prune_history_def)

section \<open>How a run ends\<close>

text \<open>What the end of a run does to the state, before the slot is given back.\<close>

definition settles :: "string \<Rightarrow> JobStatus \<Rightarrow> fw \<Rightarrow> fw \<Rightarrow> bool" where
  "settles jid st s t \<longleftrightarrow> keeps s t \<and> status (store t jid) = st"

lemma finalize_settles:
  assumes "wf s" "jid \<notin> fresh_ids s" "is_active (store s jid)" "st \<noteq> QUEUED" "st \<noteq> RUNNING"
  shows "\<exists>t. finalize_terminal jid st err s = (Inr (), t) \<and> settles jid st s t"
  using keeps_finalize [OF assms] unfolding settles_def by (metis prod.collapse)

lemma cancelled_settles:
  assumes "wf s" "jid \<notin> fresh_ids s" "is_active (store s jid)"
  shows "\<exists>t. finalize_cancelled jid s = (Inr (), t) \<and> settles jid CANCELLED s t"
proof -
  let ?u = "s\<lparr>cancel_requested := cancel_requested s - {jid}\<rparr>"
  have u: "keeps s ?u" by (rule keeps_quiet [OF assms(1) quiet_cancel_requested [OF assms(1)]])
  have "jid \<notin> fresh_ids ?u" using assms(2) by (simp add: fresh_ids_def)
  then obtain t where t: "finalize_terminal jid CANCELLED None ?u = (Inr (), t)" "settles jid CANCELLED ?u t"
    using finalize_settles [OF keepsD(2) [OF u], of jid CANCELLED None] assms(3) by auto
  then have "settles jid CANCELLED s t"
    using keeps_trans [OF assms(1) u] by (auto simp: settles_def)
  then show ?thesis using t(1) by (auto simp: finalize_cancelled_def)
qed

lemma error_settles:
  assumes "wf s" "jid \<notin> fresh_ids s" "is_active (store s jid)"
  shows "\<exists>t. finalize_unexpected_error jid e s = (Inr (), t) \<and>
    settles jid (if jid \<in> cancel_requested s then CANCELLED else FAILED) s t"
  using cancelled_settles [OF assms] finalize_settles [OF assms, of FAILED "Some e"]
  by (simp add: finalize_unexpected_error_def)

text \<open>An update of a running job that leaves its identity and its status alone.\<close>

lemma keeps_touch:
  assumes "wf s" "\<And>j. job_identity (f j) = job_identity j"
    "\<And>j. dependency_released (f j) = dependency_released j" "\<And>j. status (f j) = status j"
    "is_active (store s jid)"
  shows "keeps s (upd_job jid f s)"
  using assms by (intro keeps_upd_job) (simp_all add: is_active_def)

text \<open>\<open>t\<close> is \<open>s\<close> with the job still running under the same cancel flags.\<close>

definition runs_on :: "string \<Rightarrow> fw \<Rightarrow> fw \<Rightarrow> bool" where
  "runs_on jid s t \<longleftrightarrow> keeps s t \<and> status (store t jid) = status (store s jid) \<and>
     cancel_requested t = cancel_requested s"

lemma runs_on_trans: "wf s \<Longrightarrow> runs_on jid s t \<Longrightarrow> runs_on jid t u \<Longrightarrow> runs_on jid s u"
  unfolding runs_on_def using keeps_trans by metis

lemma runs_onD:
  assumes "runs_on jid s t"
  shows "keeps s t" "wf t" "status (store t jid) = status (store s jid)" "cancel_requested t = cancel_requested s"
  using assms keepsD(2) unfolding runs_on_def by blast+

lemma runs_on_fresh: "runs_on jid s t \<Longrightarrow> jid \<notin> fresh_ids s \<Longrightarrow> jid \<notin> fresh_ids t"
  using runs_onD(1) keepsD(1) evolvesD(8) by blast

lemma runs_on_steps:
  assumes "wf s" "is_active (store s jid)"
  shows "runs_on jid s (release_spawn jid (upd_job jid (\<lambda>j. j\<lparr>exit_code := c\<rparr>) s))"
    "runs_on jid s (upd_job jid (\<lambda>j. j\<lparr>error := e\<rparr>) s)"
    "runs_on jid s (upd_job jid (\<lambda>j. j\<lparr>failure_reason := r\<rparr>) s)"
    "runs_on jid s (finalize_rename_swap removed jid s)"
    "runs_on jid s (release_spawn jid (terminate_job_process jid s))"
    "runs_on jid s s" "runs_on jid s (release_spawn jid s)"
proof -
  let ?u = "upd_job jid (\<lambda>j. j\<lparr>exit_code := c\<rparr>) s" and ?v = "terminate_job_process jid s"
  have u: "keeps s ?u" using assms by (intro keeps_touch) (simp_all add: job_identity_def)
  have "keeps s (release_spawn jid ?u)"
    by (rule keeps_trans [OF assms(1) u keeps_quiet [OF keepsD(2) [OF u] quiet_spawns(2) [OF keepsD(2) [OF u]]]])
  then show "runs_on jid s (release_spawn jid ?u)" by (simp add: runs_on_def release_spawn_def)
  show "runs_on jid s (upd_job jid (\<lambda>j. j\<lparr>error := e\<rparr>) s)" "runs_on jid s (upd_job jid (\<lambda>j. j\<lparr>failure_reason := r\<rparr>) s)"
    unfolding runs_on_def using assms by (simp_all add: keeps_touch job_identity_def)
  show "runs_on jid s (finalize_rename_swap removed jid s)"
    using keeps_quiet [OF assms(1) quiet_swap [OF assms(1)]] by (simp add: runs_on_def finalize_rename_swap_def)
  have v: "keeps s ?v" by (rule keeps_quiet [OF assms(1) quiet_terminate [OF assms(1)]])
  have "keeps s (release_spawn jid ?v)"
    by (rule keeps_trans [OF assms(1) v keeps_quiet [OF keepsD(2) [OF v] quiet_spawns(2) [OF keepsD(2) [OF v]]]])
  then show "runs_on jid s (release_spawn jid ?v)"
    by (simp add: runs_on_def release_spawn_def terminate_job_process_def)
  show "runs_on jid s s" using keeps_refl [OF assms(1)] by (simp add: runs_on_def)
  show "runs_on jid s (release_spawn jid s)"
    using keeps_quiet [OF assms(1) quiet_spawns(2) [OF assms(1)]] by (simp add: runs_on_def release_spawn_def)
qed

lemma error_run:
  assumes "wf s" "jid \<notin> fresh_ids s" "is_active (store s jid)" "runs_on jid s v"
  shows "\<exists>u. finalize_unexpected_error jid e v = (Inr (), u) \<and>
    settles jid (if jid \<in> cancel_requested s then CANCELLED else FAILED) s u"
proof -
  note r = runs_onD [OF assms(4)]
  have "is_active (store v jid)" using assms(3) r(3) by (simp add: is_active_def)
  then obtain u where u: "finalize_unexpected_error jid e v = (Inr (), u)"
    "settles jid (if jid \<in> cancel_requested v then CANCELLED else FAILED) v u"
    using error_settles [OF r(2) runs_on_fresh [OF assms(4,2)]] by blast
  then show ?thesis using keeps_trans [OF assms(1) r(1)] r(4) by (auto simp: settles_def)
qed

lemma after_exit_ok:
  assumes "wf s" "jid \<notin> fresh_ids s" "is_active (store s jid)"
    "after_exit executable removed venv_error code f jid s = (r, t)"
  shows "(case r of Inr u \<Rightarrow> settles jid (if jid \<in> cancel_requested s then CANCELLED
             else if code = 0 \<and> \<not> has_error_in_output f then COMPLETED else FAILED) s t \<and>
           (jid \<in> cancel_requested s \<or> code \<noteq> 0 \<or> has_error_in_output f \<or> venv_error = None \<or>
             job_type (store s jid) \<noteq> RESET_BUILD_ENV)
         | Inl x \<Rightarrow> runs_on jid s t \<and> jid \<notin> cancel_requested s \<and> code = 0 \<and> \<not> has_error_in_output f \<and>
             job_type (store s jid) = RESET_BUILD_ENV \<and> (\<exists>e. venv_error = Some e \<and> x = Raised e))"
proof -
  define s1 where "s1 = release_spawn jid (upd_job jid (\<lambda>j. j\<lparr>exit_code := Some code\<rparr>) s)"
  note s1 = runs_on_steps(1) [OF assms(1,3), of "Some code", folded s1_def]
  have a1: "is_active (store s1 jid)" "jid \<notin> fresh_ids s1" "wf s1" "cancel_requested s1 = cancel_requested s"
    using runs_onD [OF s1] runs_on_fresh [OF s1 assms(2)] assms(3) by (simp_all add: is_active_def)
  show ?thesis
  proof (cases "jid \<in> cancel_requested s")
    case True
    obtain u where u: "finalize_cancelled jid s1 = (Inr (), u)" "settles jid CANCELLED s1 u"
      using cancelled_settles [OF a1(3,2,1)] by blast
    then have "settles jid CANCELLED s u"
      using keeps_trans [OF assms(1) runs_onD(1) [OF s1]] by (auto simp: settles_def)
    moreover have "(r, t) = (Inr (), u)"
      using assms(4) True a1(4) u(1) by (simp add: after_exit_def cancel_if_requested_def s1_def [symmetric])
    ultimately show ?thesis using True by simp
  next
    case False
    define success where "success \<longleftrightarrow> code = 0 \<and> \<not> has_error_in_output f"
    define s3 where "s3 = (if has_error_in_output f \<and> code = 0
      then upd_job jid (\<lambda>j. j\<lparr>error := Some (if saw_no_esphome_module f
             then NOT_IMPORTABLE_ERROR executable else OUTPUT_ERRORS_ERROR)\<rparr>) s1 else s1)"
    define s4 where "s4 = (if success \<and> is_rename_tail (store s3 jid)
      then finalize_rename_swap removed jid s3 else s3)"
    have s3: "runs_on jid s1 s3"
      using runs_on_steps(2,6) [OF a1(3,1)] by (simp add: s3_def)
    have a3: "is_active (store s3 jid)" "wf s3"
      using runs_onD [OF s3] a1(1) by (simp_all add: is_active_def)
    have s4: "runs_on jid s3 s4" using runs_on_steps(4,6) [OF a3(2,1)] by (simp add: s4_def)
    have r4: "runs_on jid s s4"
      by (rule runs_on_trans [OF assms(1) s1 runs_on_trans [OF a1(3) s3 s4]])
    have a4: "is_active (store s4 jid)" "wf s4" "jid \<notin> fresh_ids s4"
      using runs_onD [OF r4] runs_on_fresh [OF r4 assms(2)] assms(3) by (simp_all add: is_active_def)
    have ty: "job_type (store s4 jid) = job_type (store s jid)"
      using evolvesD(2) [OF keepsD(1) [OF runs_onD(1) [OF r4]]] assms(2) by simp
    have c: "cancel_if_requested jid s1 = (Inr False, s1)"
      using False a1(4) by (simp add: cancel_if_requested_def)
    have eq: "after_exit executable removed venv_error code f jid s =
        (if success \<and> job_type (store s4 jid) = RESET_BUILD_ENV \<and> venv_error \<noteq> None
         then (Inl (Raised (the venv_error)), s4)
         else (case finalize_terminal jid (if success then COMPLETED else FAILED) None s4 of
                 (Inl e, s5) \<Rightarrow> (Inl (Raised (exn_text e)), s5) | (Inr u, s5) \<Rightarrow> (Inr (), s5)))"
      by (simp only: after_exit_def Let_def s1_def [symmetric] c s4_def s3_def success_def prod.case
          sum.case bool.case)
    have ne: "(if success then COMPLETED else FAILED) \<noteq> QUEUED" "(if success then COMPLETED else FAILED) \<noteq> RUNNING"
      by simp_all
    obtain u where u: "finalize_terminal jid (if success then COMPLETED else FAILED) None s4 = (Inr (), u)"
      "settles jid (if success then COMPLETED else FAILED) s4 u"
      using finalize_settles [OF a4(2,3,1) ne, of None] by blast
    have su: "settles jid (if success then COMPLETED else FAILED) s u"
      using u(2) keeps_trans [OF assms(1) runs_onD(1) [OF r4]] by (auto simp: settles_def)
    show ?thesis
    proof (cases "success \<and> job_type (store s4 jid) = RESET_BUILD_ENV \<and> venv_error \<noteq> None")
      case True
      then have "(r, t) = (Inl (Raised (the venv_error)), s4)" using assms(4) eq by simp
      then show ?thesis using True r4 False ty by (auto simp: success_def)
    next
      case nf: False
      have "(r, t) = (Inr (), u)" using assms(4) unfolding eq if_not_P [OF nf] u(1) by simp
      then show ?thesis using nf su False ty by (auto simp: success_def)
    qed
  qed
qed

lemma execute_tail:
  assumes "wf s" "status (store s jid) \<noteq> RUNNING"
  shows "keeps s (end_run jid (upd_lane n (lane_release jid) s))"
    "status (store (end_run jid (upd_lane n (lane_release jid) s)) i) = status (store s i)"
    "jid \<notin> set (active (get_lane n (end_run jid (upd_lane n (lane_release jid) s))))"
proof -
  let ?u = "upd_lane n (lane_release jid) s"
  have u: "keeps s ?u" by (rule keeps_quiet [OF assms(1) quiet_lane_release [OF assms]])
  note e = end_run_ok [OF keepsD(2) [OF u], of jid]
  show "keeps s (end_run jid ?u)" by (rule keeps_trans [OF assms(1) u e(1)])
  show "status (store (end_run jid ?u) i) = status (store s i)" using e(4) by simp
  show "jid \<notin> set (active (get_lane n (end_run jid ?u)))" by (simp add: lane_release_def)
qed

text \<open>
  The ways a run reaches its end: the process has exited, the code before or around it raised, or the
  runner was cancelled. \<open>run_status\<close> is the status each calls for.
\<close>

datatype run_outcome = Exited string bool "string option" int ScanFlags | Failed run_fail

definition run_body_end :: "run_outcome \<Rightarrow> string \<Rightarrow> fw \<Rightarrow> (run_fail + unit) \<times> fw" where
  "run_body_end out jid s =
     (case out of
        Exited executable removed venv_error code f \<Rightarrow> after_exit executable removed venv_error code f jid s
      | Failed x \<Rightarrow> if x = RunnerCancelled then runner_cancelled jid s else (Inl x, release_spawn jid s))"

definition run_status :: "run_outcome \<Rightarrow> bool \<Rightarrow> bool \<Rightarrow> JobStatus" where
  "run_status out cancelled is_reset =
     (if cancelled \<or> out = Failed RunnerCancelled then CANCELLED
      else case out of
             Exited executable removed venv_error code f \<Rightarrow>
               if code = 0 \<and> \<not> has_error_in_output f \<and> \<not> (is_reset \<and> venv_error \<noteq> None) then COMPLETED else FAILED
           | Failed x \<Rightarrow> FAILED)"

definition run_end :: "lane_name \<Rightarrow> run_outcome \<Rightarrow> string \<Rightarrow> fw \<Rightarrow> bool \<times> fw" where
  "run_end n out jid s = execute_end n jid (run_body_end out jid s)"

text \<open>Every outcome settles the job with its status; the epilogue frees the slot.\<close>

lemma exited_settles:
  assumes "wf s" "jid \<notin> fresh_ids s" "is_active (store s jid)"
    "out = Exited executable removed venv_error code f"
    "st = run_status out (jid \<in> cancel_requested s) (job_type (store s jid) = RESET_BUILD_ENV)"
  shows "\<exists>u. settles jid st s u \<and> run_end n out jid s = (False, end_run jid (upd_lane n (lane_release jid) u))"
proof -
  obtain r v where rv: "after_exit executable removed venv_error code f jid s = (r, v)" by fastforce
  note a = after_exit_ok [OF assms(1-3) rv]
  show ?thesis
  proof (cases r)
    case (Inr x)
    have "st = (if jid \<in> cancel_requested s then CANCELLED
           else if code = 0 \<and> \<not> has_error_in_output f then COMPLETED else FAILED)"
      using a Inr assms(4,5) by (auto simp: run_status_def)
    then show ?thesis using a Inr assms(4) rv by (auto simp: run_end_def run_body_end_def execute_end_def)
  next
    case (Inl x)
    then obtain e where x: "x = Raised e" and v: "runs_on jid s v" and nc: "jid \<notin> cancel_requested s"
      using a by auto
    obtain u where u: "finalize_unexpected_error jid e v = (Inr (), u)" "settles jid FAILED s u"
      using error_run [OF assms(1-3) v, of e] nc by auto
    have "st = FAILED" using a Inl assms(4,5) by (auto simp: run_status_def)
    then show ?thesis using u rv Inl x assms(4) by (auto simp: run_end_def run_body_end_def execute_end_def)
  qed
qed

lemma failed_settles:
  assumes "wf s" "jid \<notin> fresh_ids s" "is_active (store s jid)" "out = Failed x"
    "st = run_status out (jid \<in> cancel_requested s) (job_type (store s jid) = RESET_BUILD_ENV)"
  shows "\<exists>u. settles jid st s u \<and>
    run_end n out jid s = (x = RunnerCancelled, end_run jid (upd_lane n (lane_release jid) u))"
proof (cases x)
  case RunnerCancelled
  let ?v = "release_spawn jid (terminate_job_process jid s)"
  note v = runs_on_steps(5) [OF assms(1,3)]
  obtain u where u: "finalize_cancelled jid ?v = (Inr (), u)" "settles jid CANCELLED ?v u"
    using cancelled_settles [OF runs_onD(2) [OF v] runs_on_fresh [OF v assms(2)]] runs_onD(3) [OF v] assms(3)
    by (auto simp: is_active_def)
  have "settles jid CANCELLED s u"
    using u(2) keeps_trans [OF assms(1) runs_onD(1) [OF v]] by (auto simp: settles_def)
  moreover have "st = CANCELLED" using assms(4,5) RunnerCancelled by (simp add: run_status_def)
  ultimately show ?thesis using u(1) assms(4) RunnerCancelled
    by (auto simp: run_end_def run_body_end_def runner_cancelled_def execute_end_def)
next
  case (EnvProvisionError e)
  let ?v = "release_spawn jid s"
  note v = runs_on_steps(7) [OF assms(1,3)]
  have "is_active (store ?v jid)" using assms(3) runs_onD(3) [OF v] by (simp add: is_active_def)
  note v2 = runs_on_trans [OF assms(1) v runs_on_steps(3) [OF runs_onD(2) [OF v] this, of PROVISION]]
  have "st = (if jid \<in> cancel_requested s then CANCELLED else FAILED)"
    using assms(4,5) EnvProvisionError by (simp add: run_status_def)
  then show ?thesis using error_run [OF assms(1-3) v2, of e] assms(4) EnvProvisionError
    by (auto simp: run_end_def run_body_end_def execute_end_def)
next
  case (Raised e)
  have "st = (if jid \<in> cancel_requested s then CANCELLED else FAILED)"
    using assms(4,5) Raised by (simp add: run_status_def)
  then show ?thesis using error_run [OF assms(1-3) runs_on_steps(7) [OF assms(1,3)], of e] assms(4) Raised
    by (auto simp: run_end_def run_body_end_def execute_end_def)
qed

lemma run_end_ok:
  assumes "wf s" "jid \<notin> fresh_ids s" "status (store s jid) = RUNNING" "run_end n out jid s = (escapes, t)"
  shows "keeps s t" "status (store t jid) = run_status out (jid \<in> cancel_requested s) (job_type (store s jid) = RESET_BUILD_ENV)"
    "escapes \<longleftrightarrow> out = Failed RunnerCancelled" "jid \<notin> set (active (get_lane n t))" "is_terminal (store t jid)"
proof -
  have act: "is_active (store s jid)" using assms(3) by (simp add: is_active_iff)
  define st where "st = run_status out (jid \<in> cancel_requested s) (job_type (store s jid) = RESET_BUILD_ENV)"
  have "\<exists>u. settles jid st s u \<and> run_end n out jid s =
      (out = Failed RunnerCancelled, end_run jid (upd_lane n (lane_release jid) u))"
    using exited_settles [OF assms(1,2) act _ st_def, of _ _ _ _ _ n] failed_settles [OF assms(1,2) act _ st_def, of _ n]
    by (cases out) auto
  then obtain u where u: "settles jid st s u" "escapes = (out = Failed RunnerCancelled)"
    "t = end_run jid (upd_lane n (lane_release jid) u)" using assms(4) by auto
  have st: "st \<in> TERMINAL_JOB_STATUSES" by (simp add: st_def run_status_def TERMINAL_JOB_STATUSES_def split: run_outcome.split)
  then have nr: "status (store u jid) \<noteq> RUNNING" "wf u"
    using u(1) keepsD(2) by (auto simp: settles_def TERMINAL_JOB_STATUSES_def)
  note e = execute_tail [OF nr(2,1), of n, folded u(3)]
  show "keeps s t" using keeps_trans [OF assms(1) _ e(1)] u(1) by (simp add: settles_def)
  have sj: "status (store t jid) = st" using e(2) u(1) by (simp add: settles_def)
  show "status (store t jid) = run_status out (jid \<in> cancel_requested s) (job_type (store s jid) = RESET_BUILD_ENV)"
    using sj by (simp add: st_def)
  show "escapes \<longleftrightarrow> out = Failed RunnerCancelled" by (rule u(2))
  show "jid \<notin> set (active (get_lane n t))" by (rule e(3))
  show "is_terminal (store t jid)" using sj st by (simp add: is_terminal_def)
qed


section \<open>What the scan of the output finds\<close>

lemma check_error_flags [simp]:
  "has_error_in_output (check_error line f) \<longleftrightarrow>
     has_error_in_output f \<or> (\<not> is_warning_line line \<and> (\<exists>p \<in> set ERROR_PATTERNS. contains line p))"
  "saw_no_esphome_module (check_error line f) \<longleftrightarrow>
     saw_no_esphome_module f \<or> (\<not> is_warning_line line \<and> is_no_module_named_esphome line)"
  by (auto simp: check_error_def Let_def)

lemma scan_flags:
  "has_error_in_output (fold check_error lines f) \<longleftrightarrow>
     has_error_in_output f \<or> (\<exists>l \<in> set lines. \<not> is_warning_line l \<and> (\<exists>p \<in> set ERROR_PATTERNS. contains l p))"
  "saw_no_esphome_module (fold check_error lines f) \<longleftrightarrow>
     saw_no_esphome_module f \<or> (\<exists>l \<in> set lines. \<not> is_warning_line l \<and> is_no_module_named_esphome l)"
  by (induction lines arbitrary: f) auto

lemma fold_on_line: "fst (fold (on_line jid) lines (f, s)) = fold check_error lines f"
  by (induction lines arbitrary: f s) (simp_all add: on_line_def)

text \<open>
  The verdict of the scan depends only on which lines were printed, not on their order and not on how
  the log was trimmed: an error is seen exactly when some line that is not a warning contains one of the
  error patterns, a missing esphome exactly when such a line names the module.
\<close>
lemma scan_spec:
  "fst (fold (on_line jid) lines (no_flags, s)) =
     \<lparr>has_error_in_output = (\<exists>l \<in> set lines. \<not> is_warning_line l \<and> (\<exists>p \<in> set ERROR_PATTERNS. contains l p)),
      saw_no_esphome_module = (\<exists>l \<in> set lines. \<not> is_warning_line l \<and> is_no_module_named_esphome l)\<rparr>"
  by (simp add: fold_on_line scan_flags no_flags_def ScanFlags.equality)

text \<open>The exit code is the process's own, and a flagged job does not wait for the end of the output.\<close>

lemma exit_of_own: "exit_of polls = Some c \<Longrightarrow> \<exists>d f. (d, Some c, f) \<in> set polls"
  by (induction polls rule: exit_of.induct) (auto split: option.splits)

lemma pump_own: "pump_output_until_exit polls = Some c \<Longrightarrow> \<exists>d f. (d, Some c, f) \<in> set polls"
  by (induction polls rule: pump_output_until_exit.induct)
    (auto dest: exit_of_own split: option.splits if_splits)

lemma pump_flagged: "(d, Some c, True) \<in> set polls \<Longrightarrow> pump_output_until_exit polls \<noteq> None"
proof (induction polls rule: pump_output_until_exit.induct)
  case (2 d' rc f' ps')
  have "exit_of ps \<noteq> None" if "(d, Some c, True) \<in> set ps" for ps
    using that by (induction ps rule: exit_of.induct) (auto split: option.splits)
  then show ?case using 2 by (auto split: option.splits)
qed simp

section \<open>Starting a job\<close>

lemma keeps_claim:
  assumes "wf s" "ready s jid"
  shows "keeps s (upd_lane n (lane_claim jid) s)" "occupied (upd_lane n (lane_claim jid) s) jid"
proof -
  let ?t = "upd_lane n (lane_claim jid) s"
  have m: "lane_queue (get_lane m ?t) = lane_queue (get_lane m s)"
    "i \<in> set (active (get_lane m ?t)) \<longleftrightarrow> i \<in> set (active (get_lane m s)) \<or> (m = n \<and> i = jid)" for m i
    by (auto simp: lane_claim_def)
  have "placed ?t i \<Longrightarrow> placed s i \<or> i = jid" for i
    using m unfolding placed_def by (simp only: upd_lane_frame) blast
  moreover have "occupied s i \<Longrightarrow> occupied ?t i" for i
    using m(2) unfolding occupied_def by (simp only: upd_lane_frame) blast
  ultimately show "keeps s ?t" by (intro keeps_occupy [OF assms]) simp_all
  show "occupied ?t jid" using m(2) [of jid n] unfolding occupied_def by blast
qed

text \<open>The start of a queued job: it runs, in the slot it claimed.\<close>

lemma execute_start_ok:
  assumes "wf s" "ready s jid" "status (store s jid) = QUEUED"
  shows "keeps s (execute_start n jid s)" "status (store (execute_start n jid s) jid) = RUNNING"
    "jid \<in> set (active (get_lane n (execute_start n jid s)))"
    "remote_dispatch (execute_start n jid s) = remote_dispatch s"
proof -
  let ?t = "upd_lane n (lane_claim jid) s"
  note c = keeps_claim [OF assms(1,2), of n]
  have b: "keeps ?t (begin_run jid ?t)" "status (store (begin_run jid ?t) jid) = RUNNING"
    by (rule begin_run_keeps [OF keepsD(2) [OF c(1)] _ c(2)]; simp add: assms(3))+
  show "keeps s (execute_start n jid s)"
    unfolding execute_start_def by (rule keeps_trans [OF assms(1) c(1) b(1)])
  show "status (store (execute_start n jid s) jid) = RUNNING" using b(2) by (simp add: execute_start_def)
  show "jid \<in> set (active (get_lane n (execute_start n jid s)))"
    "remote_dispatch (execute_start n jid s) = remote_dispatch s"
    by (simp_all add: execute_start_def begin_run_pool lane_claim_def)
qed

lemma gate_frame:
  assumes "wf s"
  shows "keeps s (snd (gate_turn jid s))" "store (snd (gate_turn jid s)) = store s" "jobs (snd (gate_turn jid s)) = jobs s"
  using keeps_refl [OF assms] keeps_quiet [OF assms quiet_build_gate [OF assms]] by (simp_all add: gate_turn_def Let_def)

lemma rearm_frame [simp]:
  "pending (rearm_if_pending d) = pending d" "in_flight (rearm_if_pending d) = in_flight d"
  by (simp_all add: rearm_if_pending_def)

lemma keeps_round_end: "wf s \<Longrightarrow> keeps s (round_end n s)"
  by (cases n)
    (auto simp: round_end_def keeps_refl placed_def occupied_def intro!: keeps_quiet quiet_same)

lemma worker_turn_ok:
  assumes "wf s" "ready s jid" "status (store s jid) \<in> {QUEUED, CANCELLED}" "run_lane_turn n jid s = (w, t)"
  shows "keeps s t \<and>
    (case w of
       Skipped \<Rightarrow> status (store s jid) = CANCELLED \<and> store t = store s
     | Waiting \<Rightarrow> status (store t jid) = QUEUED \<and> store t = store s \<and> upload_blocked t (store t jid) \<and> \<not> build_gate t
     | Started \<Rightarrow> status (store s jid) = QUEUED \<and> status (store t jid) = RUNNING \<and>
         jid \<in> set (active (get_lane n t)) \<and> \<not> upload_blocked s (store s jid))"
proof -
  obtain pass g where g: "gate_turn jid s = (pass, g)" by fastforce
  note gf = gate_frame [OF assms(1), of jid, unfolded g snd_conv]
  have gd: "pass \<longleftrightarrow> status (store s jid) = CANCELLED \<or> \<not> upload_blocked s (store s jid)"
    "\<not> pass \<Longrightarrow> \<not> build_gate g \<and> upload_blocked g (store s jid)"
    using g by (auto simp: gate_turn_def Let_def upload_blocked_def active_jobs_def split: if_splits)
  have rg: "store (round_end n u) = store u" for u by (simp add: round_end_def)
  show ?thesis
  proof (cases "status (store s jid) = CANCELLED")
    case True
    then show ?thesis using assms(4) keeps_round_end [OF assms(1), of n]
      by (auto simp: run_lane_turn_def rg)
  next
    case False
    then have q: "status (store s jid) = QUEUED" using assms(3) by simp
    show ?thesis
    proof (cases pass)
      case True
      then have t: "w = Started" "t = execute_start n jid g"
        using assms(4) g False gf(2) by (auto simp: run_lane_turn_def)
      note e = execute_start_ok [OF keepsD(2) [OF gf(1)] ready_evolves [OF keepsD(1) [OF gf(1)] assms(2)], of n]
      have "keeps s t" unfolding t(2) by (rule keeps_trans [OF assms(1) gf(1) e(1)]) (simp add: gf(2) q)
      then show ?thesis using e(2,3) q gd True t gf(2) by simp
    next
      case nb: False
      then have "w = Waiting" "t = g" using assms(4) g False by (auto simp: run_lane_turn_def)
      then show ?thesis using gd(2) [OF nb] gf q by simp
    qed
  qed
qed

text \<open>
  C30. What a worker does with a job it took off its lane. A job cancelled meanwhile is skipped; a flash
  whose build tree an unfinished clean of its configuration, or a reset of the build environment, is
  going to wipe waits, with the gate cleared so that the next finished job wakes it; every other job is
  started: it runs and holds a slot, and a flash that starts has no wipe of its tree pending.
\<close>
theorem worker_turn_spec:
  assumes "wf s" "ready s jid" "status (store s jid) \<in> {QUEUED, CANCELLED}" "run_lane_turn n jid s = (w, t)"
  shows "wf t \<and> (\<forall>i. orphan t i \<longrightarrow> orphan s i) \<and>
    (case w of
       Skipped \<Rightarrow> status (store s jid) = CANCELLED \<and> store t = store s
     | Waiting \<Rightarrow> status (store t jid) = QUEUED \<and> store t = store s \<and> upload_blocked t (store t jid) \<and> \<not> build_gate t
     | Started \<Rightarrow> status (store s jid) = QUEUED \<and> status (store t jid) = RUNNING \<and>
         jid \<in> set (active (get_lane n t)) \<and> \<not> upload_blocked s (store s jid))"
  using worker_turn_ok [OF assms] keepsD(2,3) by blast

section \<open>A running compile\<close>

definition ex_run :: fw where
  "ex_run = execute_start CompileLane ''u0'' ex_head"

lemma ex_head_u0:
  "ready ex_head ''u0''" "status (store ex_head ''u0'') = QUEUED" "''u0'' \<notin> fresh_ids ex_head"
  "job_type (store ex_head ''u0'') = COMPILE" "cancel_requested ex_head = {}" "''u0'' \<in> set (jobs ex_head)"
proof -
  show f: "''u0'' \<notin> fresh_ids ex_head" by (rule create_job_fresh(2) [OF ex_chain_create(1)]) simp
  have "depends_on (store ex_head ''u0'') = []"
    by (simp add: ex_head_def create_job_def fresh_uuid_def now_iso_def ex_fw_def new_fw_def ex_ids_values
        apply_build_source_def new_FirmwareJob_def)
  then show "ready ex_head ''u0''" using f by (simp add: ready_def)
  show "status (store ex_head ''u0'') = QUEUED" "job_type (store ex_head ''u0'') = COMPILE"
    "cancel_requested ex_head = {}" "''u0'' \<in> set (jobs ex_head)"
    by (simp_all add: ex_head_def create_job_def fresh_uuid_def now_iso_def ex_fw_def new_fw_def ex_ids_values
        apply_build_source_def new_FirmwareJob_def keys_add_def)
qed

lemma ex_run_ok:
  "wf ex_run" "''u0'' \<notin> fresh_ids ex_run" "status (store ex_run ''u0'') = RUNNING"
  "cancel_requested ex_run = {}" "job_type (store ex_run ''u0'') = COMPILE"
proof -
  note e = execute_start_ok [OF wf_ex_chain(1) ex_head_u0(1,2), of CompileLane, folded ex_run_def]
  note k = keepsD [OF e(1)]
  show "wf ex_run" "status (store ex_run ''u0'') = RUNNING" using k(2) e(2) by simp_all
  show "''u0'' \<notin> fresh_ids ex_run" using evolvesD(8) [OF k(1)] ex_head_u0(3) by blast
  show "job_type (store ex_run ''u0'') = COMPILE"
    using evolvesD(2) [OF k(1) ex_head_u0(3)] ex_head_u0(4) by simp
  show "cancel_requested ex_run = {}"
    by (simp add: ex_run_def execute_start_def begin_run_def now_iso_def fire_job_lifecycle_def ex_head_u0(5))
qed


lemma worker_turn_spec_witness:
  "\<exists>t. run_lane_turn CompileLane ''u0'' ex_head = (Started, t) \<and> status (store t ''u0'') = RUNNING"
proof -
  obtain w t where r: "run_lane_turn CompileLane ''u0'' ex_head = (w, t)" by fastforce
  have "w = Started"
    using r ex_head_u0(2,4) by (simp add: run_lane_turn_def gate_turn_def is_network_flash_def is_rename_tail_def)
  then show ?thesis
    using worker_turn_spec [OF wf_ex_chain(1) ex_head_u0(1) _ r] ex_head_u0(2) r by simp
qed

end
