(* ===== verification/FwController.thy ===== *)
theory FwController
  imports RemoteDispatch RenameFlow Cli
begin

text \<open>
  The command handlers of \<open>controllers/firmware/controller.py\<close> and \<open>clean.py\<close>: what each validates, which
  jobs it creates and how it enqueues them. The path resolution of the settings (\<open>rel\<close>), esphome's
  \<open>get_port_type\<close>, Python's \<open>ipaddress\<close> and the existence of a file are arguments. A handler is one step:
  the bodies of other coroutines that can run while it awaits are steps of their own. The lemmas show
  what a single job's enqueue achieves, and the properties what the handlers built on it do.
\<close>

section \<open>The boundary\<close>

definition validate_configuration_boundary :: "(string \<Rightarrow> string result) \<Rightarrow> string \<Rightarrow> unit result" where
  "validate_configuration_boundary rel conf =
     (if conf = [] then Inl (CommandError INVALID_ARGS ''configuration must not be empty'')
      else case rel conf of Inl e \<Rightarrow> Inl e | Inr p \<Rightarrow> Inr ())"

fun validate_configurations_boundary :: "(string \<Rightarrow> string result) \<Rightarrow> string list \<Rightarrow> unit result" where
  "validate_configurations_boundary rel [] = Inr ()"
| "validate_configurations_boundary rel (c # cs) =
     (case validate_configuration_boundary rel c of
        Inl e \<Rightarrow> Inl e
      | Inr u \<Rightarrow> validate_configurations_boundary rel cs)"

section \<open>Queued updates\<close>

definition clear_queued_flag :: "string \<Rightarrow> fw \<Rightarrow> fw" where
  "clear_queued_flag conf s = set_queued_update False conf s"

definition disarm_all_queued_updates :: "fw \<Rightarrow> fw" where
  "disarm_all_queued_updates s =
     (case devices s of
        None \<Rightarrow> s
      | Some ds \<Rightarrow> fold clear_queued_flag (map fst (filter (\<lambda>(conf, d). queued_update d) ds)) s)"

definition clear_queued_update :: "(string \<Rightarrow> string result) \<Rightarrow> string \<Rightarrow> fw \<Rightarrow> unit result \<times> fw" where
  "clear_queued_update rel conf s =
     (case validate_configuration_boundary rel conf of
        Inl e \<Rightarrow> (Inl e, s)
      | Inr u \<Rightarrow>
          (case device_for_configuration s conf of
             None \<Rightarrow> (Inr (), s)
           | Some d \<Rightarrow> if queued_update d then (Inr (), clear_queued_flag conf s) else (Inr (), s)))"

section \<open>Handlers that queue one job\<close>

definition compile_handler ::
    "(string \<Rightarrow> string result) \<Rightarrow> string \<Rightarrow> bool \<Rightarrow> fw \<Rightarrow> string result \<times> fw" where
  "compile_handler rel conf force_local s =
     (case validate_configuration_boundary rel conf of
        Inl e \<Rightarrow> (Inl e, s)
      | Inr u \<Rightarrow> enqueue_compile conf force_local COMPILE s)"

definition analyze_memory :: "(string \<Rightarrow> string result) \<Rightarrow> string \<Rightarrow> fw \<Rightarrow> string result \<times> fw" where
  "analyze_memory rel conf s =
     (case validate_configuration_boundary rel conf of
        Inl e \<Rightarrow> (Inl e, s)
      | Inr u \<Rightarrow> enqueue_compile conf False ANALYZE_MEMORY s)"

definition create_and_enqueue ::
    "string \<Rightarrow> JobType \<Rightarrow> (FirmwareJob \<Rightarrow> FirmwareJob) \<Rightarrow> JobBuildSource \<Rightarrow> bool \<Rightarrow> fw \<Rightarrow> string result \<times> fw" where
  "create_and_enqueue conf ty kwargs b supersede s =
     (case create_job conf ty kwargs b s of
        (jid, s1) \<Rightarrow>
          (case enqueue jid supersede s1 of
             (Inl e, s2) \<Rightarrow> (Inl e, s2)
           | (Inr u, s2) \<Rightarrow> (Inr jid, s2)))"

definition upload ::
    "(string \<Rightarrow> string result) \<Rightarrow> (string \<Rightarrow> PortType) \<Rightarrow> (string \<Rightarrow> string option) \<Rightarrow> string \<Rightarrow> string \<Rightarrow>
     bool \<Rightarrow> fw \<Rightarrow> string result \<times> fw" where
  "upload rel get_port_type parse_ip conf p bootloader s =
     (case validate_upload_target get_port_type parse_ip p bootloader of
        Inl e \<Rightarrow> (Inl e, s)
      | Inr u \<Rightarrow>
          (case validate_configuration_boundary rel conf of
             Inl e \<Rightarrow> (Inl e, s)
           | Inr u \<Rightarrow>
               create_and_enqueue conf UPLOAD (\<lambda>j. j\<lparr>port := p, flash_bootloader := bootloader\<rparr>)
                 LOCAL_JOB_BUILD_SOURCE True s))"

definition install ::
    "(string \<Rightarrow> string result) \<Rightarrow> (string \<Rightarrow> PortType) \<Rightarrow> (string \<Rightarrow> string option) \<Rightarrow> string \<Rightarrow> string \<Rightarrow>
     bool \<Rightarrow> bool \<Rightarrow> fw \<Rightarrow> string result \<times> fw" where
  "install rel get_port_type parse_ip conf p force_local bootloader s =
     (case validate_upload_target get_port_type parse_ip p bootloader of
        Inl e \<Rightarrow> (Inl e, s)
      | Inr u \<Rightarrow>
          (case validate_configuration_boundary rel conf of
             Inl e \<Rightarrow> (Inl e, s)
           | Inr u \<Rightarrow> enqueue_install_or_defer get_port_type conf p force_local bootloader s))"

section \<open>Clean and reset\<close>

text \<open>One remote clean per approved server whose link is open; the first rejected one ends the loop.\<close>

fun fan_out_clean :: "string \<Rightarrow> string \<Rightarrow> string set \<Rightarrow> StoredPairing list \<Rightarrow> fw \<Rightarrow> unit result \<times> fw" where
  "fan_out_clean conf version open_links [] s = (Inr (), s)"
| "fan_out_clean conf version open_links (p # ps) s =
     (if pairing_status p \<noteq> APPROVED \<or> pairing_pin p \<notin> open_links
      then fan_out_clean conf version open_links ps s
      else case create_and_enqueue conf CLEAN (\<lambda>j. j) (build_source_for_pairing p version) False s of
             (Inl e, s1) \<Rightarrow> (Inl e, s1)
           | (Inr u, s1) \<Rightarrow> fan_out_clean conf version open_links ps s1)"

definition fan_out_clean_to_connected_peers :: "string \<Rightarrow> fw \<Rightarrow> unit result \<times> fw" where
  "fan_out_clean_to_connected_peers conf s =
     (case offloader s of
        None \<Rightarrow> (Inr (), s)
      | Some snapshot \<Rightarrow>
          fan_out_clean conf (offloader_esphome_version snapshot) (open_peer_links snapshot)
            (dict_values (pairings snapshot)) s)"

definition clean_jobs :: "(string \<Rightarrow> string result) \<Rightarrow> string \<Rightarrow> fw \<Rightarrow> string result \<times> fw" where
  "clean_jobs rel conf s =
     (case validate_configuration_boundary rel conf of
        Inl e \<Rightarrow> (Inl e, s)
      | Inr u \<Rightarrow>
          (case create_and_enqueue conf CLEAN (\<lambda>j. j) LOCAL_JOB_BUILD_SOURCE True s of
             (Inl e, s1) \<Rightarrow> (Inl e, s1)
           | (Inr jid, s1) \<Rightarrow>
               (case fan_out_clean_to_connected_peers conf s1 of
                  (Inl e, s2) \<Rightarrow> (Inl e, s2)
                | (Inr u, s2) \<Rightarrow> (Inr jid, s2))))"

definition clean :: "(string \<Rightarrow> string result) \<Rightarrow> string \<Rightarrow> fw \<Rightarrow> string result \<times> fw" where
  "clean rel conf s =
     clean_jobs rel conf (if devices s = None then s else clear_queued_flag conf s)"

definition reset_build_env :: "fw \<Rightarrow> string result \<times> fw" where
  "reset_build_env s =
     (case create_job [] RESET_BUILD_ENV (\<lambda>j. j) LOCAL_JOB_BUILD_SOURCE (disarm_all_queued_updates s) of
        (jid, s1) \<Rightarrow>
          (case cancel_all_active_jobs {jid} s1 of
             (Inl e, s2) \<Rightarrow> (Inl e, roll_out [jid] s2)
           | (Inr u, s2) \<Rightarrow>
               (case enqueue jid True s2 of
                  (Inl e, s3) \<Rightarrow> (Inl e, s3)
                | (Inr u, s3) \<Rightarrow> (Inr jid, s3))))"

section \<open>Rename and inspection\<close>

text \<open>\<open>exists\<close> says whether the file is in the configuration directory.\<close>

definition rename_chain ::
    "(string \<Rightarrow> string result) \<Rightarrow> (string \<Rightarrow> string \<Rightarrow> string result) \<Rightarrow> (string \<Rightarrow> string \<Rightarrow> string) \<Rightarrow>
     string option \<Rightarrow> string \<Rightarrow> string \<Rightarrow> string option \<Rightarrow> string option \<Rightarrow> fw \<Rightarrow> (string \<times> string) result \<times> fw" where
  "rename_chain rel rewrite name_of stored conf nn content new_content s =
     (let fname = configuration_filename nn in
      case validate_configurations_boundary rel [conf, fname] of
        Inl e \<Rightarrow> (Inl e, s)
      | Inr u \<Rightarrow>
          if fname = conf
          then (Inl (CommandError INVALID_ARGS ''new_name must differ from the current device name''), s)
          else if dict_get (yaml_files s) fname \<noteq> None \<and> \<not> active_chain_owns_target s conf nn
          then (Inl (CommandError INVALID_ARGS (''A device named '' @ fname @ '' already exists'')), s)
          else begin_rename rewrite name_of stored conf nn content new_content s)"

definition rename_handler ::
    "(string \<Rightarrow> string result) \<Rightarrow> (string \<Rightarrow> string \<Rightarrow> string result) \<Rightarrow> (string \<Rightarrow> string \<Rightarrow> string) \<Rightarrow>
     string option \<Rightarrow> string \<Rightarrow> string \<Rightarrow> fw \<Rightarrow> string result \<times> fw" where
  "rename_handler rel rewrite name_of stored conf nn s =
     (case rename_chain rel rewrite name_of stored conf nn None None s of
        (Inl e, s1) \<Rightarrow> (Inl e, s1)
      | (Inr (hid, tid), s1) \<Rightarrow> (Inr hid, s1))"

text \<open>\<open>output\<close> is the only field a snapshot row lacks.\<close>

definition job_dict_without_output :: "FirmwareJob \<Rightarrow> FirmwareJob" where
  "job_dict_without_output j = j\<lparr>output := []\<rparr>"

definition jobs_snapshot :: "fw \<Rightarrow> FirmwareJob list" where
  "jobs_snapshot s = map job_dict_without_output (sort_by created_at (map (store s) (jobs s)))"

section \<open>One job, created and enqueued\<close>

lemma keeps_create:
  assumes "create_job conf ty kwargs b s = (jid, t)" "wf s"
    "\<And>j. dependency_released (kwargs j) = dependency_released j \<and> job_id (kwargs j) = job_id j \<and>
       status (kwargs j) = status j \<and> depends_on (kwargs j) = depends_on j \<and> configuration (kwargs j) = configuration j"
  shows "keeps s t" "status (store t jid) = QUEUED" "depends_on (store t jid) = []" "jid \<in> set (jobs t)"
    "jid \<notin> set (jobs s)" "jid \<notin> fresh_ids t" "closed_chain {jid} t" "jobs t = jobs s @ [jid]"
    "configuration (store t jid) = conf" "jid \<in> fresh_ids s"
    "job_type (store t jid) = job_type (kwargs (new_FirmwareJob jid conf ty\<lparr>created_at := clock s (ticks s)\<rparr>))"
    "cancel_requested t = cancel_requested s"
proof -
  note eq = create_job_eq [OF assms(1)] and fr = create_job_fresh [OF assms(1,2)]
  have k: "dependency_released (kwargs j) = dependency_released j" "job_id (kwargs j) = job_id j"
    "status (kwargs j) = status j" "depends_on (kwargs j) = depends_on j" for j using assms(3) by blast+
  have w: "evolves s t" "wf t" "set (jobs s) \<subseteq> set (jobs t)"
    using k by (rule_tac [!] steps_ok_create_job [OF assms(1,2)]) simp_all
  show new: "status (store t jid) = QUEUED" "depends_on (store t jid) = []" "configuration (store t jid) = conf"
    "job_type (store t jid) = job_type (kwargs (new_FirmwareJob jid conf ty\<lparr>created_at := clock s (ticks s)\<rparr>))"
    "cancel_requested t = cancel_requested s"
    using eq assms(3) by (simp_all add: apply_build_source_def new_FirmwareJob_def)
  have "orphan t i \<Longrightarrow> orphan s i" for i
    using create_orphan [OF assms(1,2), of i] new(2) by (auto simp: orphan_def held_def)
  then show "keeps s t" using w by (auto simp: keeps_def)
  show "jid \<in> set (jobs t)" "jid \<notin> set (jobs s)" "jid \<notin> fresh_ids t" "jid \<in> fresh_ids s" using fr by auto
  show "jobs t = jobs s @ [jid]" using eq fr(3) by (simp add: keys_add_def)
  show "closed_chain {jid} t"
    unfolding closed_chain_def
  proof (intro ballI impI)
    fix i assume i: "i \<in> set (jobs t)" "depends_on (store t i) \<noteq> []"
    then have "i \<noteq> jid" using new(2) by auto
    then have "i \<in> set (jobs s)" "store t i = store s i" using i(1) fr(6,10) by auto
    then show "i \<in> {jid} \<longleftrightarrow> depends_on (store t i) \<in> {jid}"
      using wfD(10) [OF assms(2)] fr(1) \<open>i \<noteq> jid\<close> by auto
  qed
qed

text \<open>Rolling a job back that nothing waits for.\<close>

lemma keeps_roll_out:
  assumes "wf s" "closed_chain {jid} s" "depends_on (store s jid) = []"
  shows "wf (roll_out [jid] s)" "evolves s (roll_out [jid] s)" "orphan (roll_out [jid] s) i \<Longrightarrow> orphan s i"
proof -
  let ?t = "roll_out [jid] s"
  show "wf ?t"
  proof (rule wf_shrink [OF assms(1)])
    show "placed ?t i \<Longrightarrow> placed s i" "occupied s i \<Longrightarrow> occupied ?t i" for i
      using placed_eqI [of ?t s] by (simp_all add: roll_out_def)
  qed (use wfD(1) [OF assms(1)] in \<open>auto simp: roll_out_def\<close>)
  show "evolves s ?t" by (rule evolves_same) (simp_all add: roll_out_def)
  show "orphan ?t i \<Longrightarrow> orphan s i"
    using assms(2) by (auto simp: orphan_def held_def roll_out_def closed_chain_def)
qed

lemma enqueue_ok:
  assumes "wf s" "jid \<in> set (jobs s)" "status (store s jid) = QUEUED" "depends_on (store s jid) = []"
    "closed_chain {jid} s"
  shows "case enqueue jid supersede s of
      (Inl e, t) \<Rightarrow> t = roll_out [jid] s \<and> check_rename_lock jid {} s = Inl e
    | (Inr u, t) \<Rightarrow> keeps s t \<and> status (store t jid) = QUEUED \<and> placed t jid \<and> jid \<in> set (jobs t) \<and>
        (jid \<in> cancel_requested t \<longrightarrow> jid \<in> cancel_requested s) \<and> cancel_requested s \<subseteq> cancel_requested t \<and>
        set (jobs t) \<subseteq> set (jobs s) \<and>
        (supersede \<longrightarrow> (\<forall>i \<in> set (jobs s). i \<noteq> jid \<and> configuration (store s i) = configuration (store s jid) \<and>
           configuration (store s jid) \<noteq> [] \<longrightarrow> is_terminal (store t i) \<or> i \<in> cancel_requested t))"
proof (cases "check_rename_lock jid {} s")
  case (Inl e)
  then show ?thesis by (simp add: enqueue_def commit_chain_def)
next
  case (Inr x)
  let ?conf = "configuration (store s jid)"
  define p where "p = place_and_announce jid s"
  have nf: "jid \<notin> fresh_ids s" by (rule wfD(4) [OF assms(1,2)])
  note p = place_and_announce_ok [OF assms(1) nf, folded p_def]
  have kp: "keeps s p" by (rule keeps_steps [OF p(1)]) (rule p(4))
  have plp: "placed p jid" by (rule p(6)) (simp add: dependency_satisfied_def assms(4))
  have cp: "closed_chain {jid} p"
  proof -
    have "depends_on (store p i) = depends_on (store s i)" if "i \<in> set (jobs s)" for i
      using evolvesD(1) [OF keepsD(1) [OF kp] wfD(4) [OF assms(1) that]] .
    then show ?thesis using assms(5) p(2) by (simp add: closed_chain_def)
  qed
  define r where "r = (if supersede \<and> ?conf \<noteq> [] then supersede_active_jobs ?conf {jid} p else (Inr (), p))"
  obtain u where u: "r = (Inr (), u)" "safe p u" "untouched {jid} p u"
    "supersede \<Longrightarrow> ?conf \<noteq> [] \<Longrightarrow> \<forall>i \<in> set (jobs p). i \<notin> {jid} \<longrightarrow> configuration (store p i) = ?conf \<longrightarrow>
       is_terminal (store u i) \<or> i \<in> cancel_requested u"
  proof (cases "supersede \<and> ?conf \<noteq> []")
    case True
    obtain u where "(if ?conf = [] then (Inr (), p) else supersede_active_jobs ?conf {jid} p) = (Inr (), u)" "safe p u"
      "untouched {jid} p u"
      "\<And>i. i \<in> set (jobs p) \<Longrightarrow> i \<notin> {jid} \<Longrightarrow> ?conf \<noteq> [] \<Longrightarrow> configuration (store p i) = ?conf \<Longrightarrow>
         is_terminal (store u i) \<or> i \<in> cancel_requested u"
      using supersede_or_skip [OF keepsD(2) [OF kp] cp, of ?conf] by metis
    then show thesis using that [of u] True by (simp add: r_def)
  next
    case False
    then show thesis using that [of p] safe_refl [OF keepsD(2) [OF kp]] untouched_refl by (auto simp: r_def)
  qed
  define t where "t = persist_jobs u"
  have eq: "enqueue jid supersede s = (Inr (), t)"
    using Inr u(1) by (cases "supersede \<and> ?conf \<noteq> []")
      (auto simp: enqueue_def commit_chain_def no_stage_def Let_def p_def [symmetric] t_def r_def)
  note wu = safeD(2) [OF u(2)]
  have ut: "safe u t" unfolding t_def by (rule safe_persist [OF wu])
  have tt: "untouched {jid} p t"
    unfolding t_def by (rule untouched_trans [OF u(3) untouched_persist])
  note x = untouchedD [OF tt]
  have st: "keeps s t"
    using keeps_trans [OF assms(1) kp] keeps_trans [OF keepsD(2) [OF kp] keeps_safe [OF u(2)] keeps_safe [OF ut]] by blast
  have q: "status (store t jid) = QUEUED" using x(1) [of jid] p(3) assms(3) by simp
  have "is_terminal (store t i) \<or> i \<in> cancel_requested t"
    if "supersede" "i \<in> set (jobs s)" "i \<noteq> jid" "configuration (store s i) = ?conf" "?conf \<noteq> []" for i
  proof -
    have "is_terminal (store u i) \<or> i \<in> cancel_requested u" using u(4) that p(2,7) by simp
    moreover have "status (store t i) = status (store u i)"
      using persist_fields(1) [OF wfD(1) [OF wu]] by (simp add: t_def)
    ultimately show ?thesis by (auto simp: is_terminal_def t_def)
  qed
  then show ?thesis
    unfolding eq using st q x(2,5,6,7) plp p(2,5) keepsD(4) [OF st assms(2)] by (auto simp: is_active_iff)
qed

text \<open>What a keyword update of a new job may not touch.\<close>

definition plain_update :: "(FirmwareJob \<Rightarrow> FirmwareJob) \<Rightarrow> bool" where
  "plain_update f \<longleftrightarrow>
     (\<forall>j. dependency_released (f j) = dependency_released j \<and> job_id (f j) = job_id j \<and> status (f j) = status j \<and>
        depends_on (f j) = depends_on j \<and> configuration (f j) = configuration j \<and> job_type (f j) = job_type j)"

lemma keeps_no_add:
  assumes "wf s" "keeps s t" "closed_chain {jid} t" "depends_on (store t jid) = []" "jobs t = jobs s @ [jid]"
  shows "keeps s (roll_out [jid] t)" "jobs (roll_out [jid] t) = jobs s"
proof -
  note r = keeps_roll_out [OF keepsD(2) [OF assms(2)] assms(3,4)]
  have "distinct (jobs t)" by (rule wfD(1) [OF keepsD(2) [OF assms(2)]])
  then show js: "jobs (roll_out [jid] t) = jobs s"
    using assms(5) by (simp add: roll_out_def) (auto simp: keys_pop_def filter_id_conv)
  show "keeps s (roll_out [jid] t)"
    using evolves_trans [OF keepsD(1) [OF assms(2)] r(2)] r(1,3) keepsD(3) [OF assms(2)] js
    by (auto simp: keeps_def)
qed

lemma create_and_enqueue_ok:
  assumes "wf s" "plain_update kwargs"
  shows "case create_and_enqueue conf ty kwargs b supersede s of
      (Inl e, t) \<Rightarrow> keeps s t \<and> jobs t = jobs s
    | (Inr jid, t) \<Rightarrow> keeps s t \<and> jid \<in> fresh_ids s \<and> jid \<notin> fresh_ids t \<and> jid \<in> set (jobs t) \<and>
        status (store t jid) = QUEUED \<and> placed t jid \<and> configuration (store t jid) = conf \<and>
        job_type (store t jid) = ty \<and> (jid \<in> cancel_requested t \<longrightarrow> jid \<in> cancel_requested s) \<and>
        cancel_requested s \<subseteq> cancel_requested t \<and> set (jobs t) \<subseteq> insert jid (set (jobs s)) \<and>
        (supersede \<and> conf \<noteq> [] \<longrightarrow> (\<forall>i \<in> set (jobs s). configuration (store s i) = conf \<longrightarrow>
           is_terminal (store t i) \<or> i \<in> cancel_requested t))"
proof -
  obtain jid u where c: "create_job conf ty kwargs b s = (jid, u)" by fastforce
  have kw: "dependency_released (kwargs j) = dependency_released j \<and> job_id (kwargs j) = job_id j \<and>
      status (kwargs j) = status j \<and> depends_on (kwargs j) = depends_on j \<and> configuration (kwargs j) = configuration j" for j
    using assms(2) by (simp add: plain_update_def)
  note k = keeps_create [OF c assms(1) kw]
  note wu = keepsD(2) [OF k(1)]
  have ty: "job_type (store u jid) = ty" using k(11) assms(2) by (simp add: plain_update_def new_FirmwareJob_def)
  note e = enqueue_ok [OF wu k(4,2,3,7), of supersede]
  show ?thesis
  proof (cases "enqueue jid supersede u")
    case (Pair r t)
    show ?thesis
    proof (cases r)
      case (Inl x)
      then show ?thesis using e Pair c keeps_no_add [OF assms(1) k(1,7,3,8)] by (simp add: create_and_enqueue_def)
    next
      case (Inr x)
      note d = e [unfolded Pair Inr prod.case sum.case]
      have ut: "keeps u t" using d by blast
      note st = keeps_trans [OF assms(1) k(1) ut] and v = evolvesD [OF keepsD(1) [OF ut] k(6)]
      have old: "i \<in> set (jobs u) \<and> i \<noteq> jid \<and> configuration (store u i) = configuration (store s i)"
        if "i \<in> set (jobs s)" for i
        using that k(5,8) evolvesD(4) [OF keepsD(1) [OF k(1)] wfD(4) [OF assms(1) that]] by auto
      have "set (jobs u) = insert jid (set (jobs s))" using k(8) by auto
      then show ?thesis
        using Pair Inr c d st v(2,4,8) ty k(9,10,12) old by (auto simp: create_and_enqueue_def)
    qed
  qed
qed

lemma keeps_set_queued_update: "wf s \<Longrightarrow> keeps s (set_queued_update q conf s)"
  by (rule keeps_quiet [OF _ quiet_set_queued_update])

lemma queued_update_frame [simp]:
  "store (set_queued_update q conf s) = store s" "jobs (set_queued_update q conf s) = jobs s"
  "cancel_requested (set_queued_update q conf s) = cancel_requested s"
  "fresh_ids (set_queued_update q conf s) = fresh_ids s"
  by (auto simp: set_queued_update_def fresh_ids_def split: option.split)

lemma keeps_disarm:
  assumes "wf s"
  shows "keeps s (disarm_all_queued_updates s)" "jobs (disarm_all_queued_updates s) = jobs s"
    "cancel_requested (disarm_all_queued_updates s) = cancel_requested s"
    "fresh_ids (disarm_all_queued_updates s) = fresh_ids s"
proof -
  have "keeps s (fold clear_queued_flag cs s) \<and> jobs (fold clear_queued_flag cs s) = jobs s \<and>
      cancel_requested (fold clear_queued_flag cs s) = cancel_requested s \<and>
      fresh_ids (fold clear_queued_flag cs s) = fresh_ids s" for cs
    using assms
  proof (induction cs arbitrary: s)
    case (Cons c cs)
    have k: "keeps s (clear_queued_flag c s)" using keeps_set_queued_update [OF Cons.prems] by (simp add: clear_queued_flag_def)
    then show ?case
      using Cons.IH [OF keepsD(2) [OF k]] keeps_trans [OF Cons.prems k] by (simp add: clear_queued_flag_def)
  qed (simp add: keeps_refl)
  then show "keeps s (disarm_all_queued_updates s)" "jobs (disarm_all_queued_updates s) = jobs s"
    "cancel_requested (disarm_all_queued_updates s) = cancel_requested s"
    "fresh_ids (disarm_all_queued_updates s) = fresh_ids s"
    using keeps_refl [OF assms] by (simp_all add: disarm_all_queued_updates_def split: option.split)
qed

section \<open>Resetting the build environment\<close>

lemma reset_build_env_ok:
  assumes "wf s"
  shows "\<exists>jid t. reset_build_env s = (Inr jid, t) \<and> keeps s t \<and> jid \<in> fresh_ids s \<and> jid \<notin> set (jobs s) \<and> jid \<in> set (jobs t) \<and>
    job_type (store t jid) = RESET_BUILD_ENV \<and> status (store t jid) = QUEUED \<and> placed t jid \<and>
    (jid \<in> cancel_requested t \<longrightarrow> jid \<in> cancel_requested s) \<and>
    (\<forall>i \<in> set (jobs s). is_terminal (store t i) \<or> i \<in> cancel_requested t)"
proof -
  let ?d = "disarm_all_queued_updates s"
  note d = keeps_disarm [OF assms]
  note wd = keepsD(2) [OF d(1)]
  obtain jid s1 where c: "create_job [] RESET_BUILD_ENV (\<lambda>j. j) LOCAL_JOB_BUILD_SOURCE ?d = (jid, s1)" by fastforce
  note k = keeps_create [OF c wd, simplified]
  have ty: "job_type (store s1 jid) = RESET_BUILD_ENV" using k(11) by (simp add: new_FirmwareJob_def)
  obtain s2 where s2: "cancel_all_active_jobs {jid} s1 = (Inr (), s2)" "safe s1 s2" "untouched {jid} s1 s2"
    "\<And>i. i \<in> set (jobs s1) \<Longrightarrow> i \<notin> {jid} \<Longrightarrow> is_terminal (store s2 i) \<or> i \<in> cancel_requested s2"
    using cancel_active_jobs_ok [OF keepsD(2) [OF k(1)] k(7), of None] by (auto simp: cancel_all_active_jobs_def)
  note u = untouchedD [OF s2(3)] and sf = safeD [OF s2(2)]
  note v = evolvesD [OF sf(1) k(6)]
  have q2: "status (store s2 jid) = QUEUED" "depends_on (store s2 jid) = []" using u(1,3) k(2,3) by simp_all
  have in2: "jid \<in> set (jobs s2)" using sf(5) [OF k(4)] q2(1) by (simp add: is_active_iff)
  have nm: "check_rename_lock jid {} s2 = Inr ()"
    using v(2,4) ty k(9) by (simp add: check_rename_lock_def names_touched_by_job_def)
  obtain r t where r: "enqueue jid True s2 = (r, t)" by fastforce
  note e = enqueue_ok [OF sf(2) in2 q2 closed_untouched [OF k(7) s2(3)], of True]
  obtain y where "r = Inr y" using e r nm by (cases r) auto
  then have en: "enqueue jid True s2 = (Inr y, t)" "keeps s2 t" "status (store t jid) = QUEUED" "placed t jid"
    "jid \<in> set (jobs t)" "jid \<in> cancel_requested t \<longrightarrow> jid \<in> cancel_requested s2" "cancel_requested s2 \<subseteq> cancel_requested t"
    using e r by auto
  note st = keeps_trans [OF assms d(1) keeps_trans [OF wd k(1) keeps_trans [OF keepsD(2) [OF k(1)] keeps_safe [OF s2(2)] en(2)]]]
  have res: "reset_build_env s = (Inr jid, t)"
    unfolding reset_build_env_def c prod.case s2(1) sum.case en(1) ..
  have stopped: "is_terminal (store t i) \<or> i \<in> cancel_requested t" if "i \<in> set (jobs s)" for i
  proof -
    have i: "i \<in> set (jobs s1)" "i \<noteq> jid" using that d(2) k(5,8) by auto
    then have "i \<notin> fresh_ids s2" using wfD(4) [OF keepsD(2) [OF k(1)]] evolvesD(8) [OF sf(1)] by blast
    note w = evolvesD(5) [OF keepsD(1) [OF en(2)] this]
    from s2(4) [OF i(1)] i(2) have "is_terminal (store s2 i) \<or> i \<in> cancel_requested s2" by blast
    then show ?thesis using w en(7) by (auto simp: is_terminal_def)
  qed
  have jf: "jid \<in> fresh_ids s" using k(10) d(4) by simp
  have nc: "jid \<in> cancel_requested t \<Longrightarrow> jid \<in> cancel_requested s"
    using en(6) u(7) [of jid] k(12) d(3) by auto
  have "jid \<notin> set (jobs s)" using k(5) d(2) by simp
  moreover have "job_type (store t jid) = RESET_BUILD_ENV"
    using evolvesD(2) [OF keepsD(1) [OF en(2)] v(8)] v(2) ty by simp
  ultimately show ?thesis
    using res st en(3-5) stopped nc jf by blast
qed

text \<open>
  C31. A reset of the build environment is never refused in a well-formed state: it queues one job, and
  every job that existed before it is finished or, where it runs, is told to stop. Nobody is left waiting
  for a cancelled prerequisite and the reset itself is not among the cancelled.
\<close>
theorem reset_build_env_spec:
  assumes "wf s" "fresh_ids s \<inter> cancel_requested s = {}"
  shows "\<exists>jid t. reset_build_env s = (Inr jid, t) \<and> wf t \<and> jid \<notin> set (jobs s) \<and> jid \<in> set (jobs t) \<and>
    job_type (store t jid) = RESET_BUILD_ENV \<and> status (store t jid) = QUEUED \<and> placed t jid \<and> jid \<notin> cancel_requested t \<and>
    (\<forall>i \<in> set (jobs s). is_terminal (store t i) \<or> i \<in> cancel_requested t) \<and> (\<forall>i. orphan t i \<longrightarrow> orphan s i)"
  using reset_build_env_ok [OF assms(1)] assms(2) keepsD(2,3) by blast

lemma reset_build_env_spec_witness:
  "\<exists>jid t. reset_build_env ex_chain = (Inr jid, t) \<and>
     (\<forall>i \<in> {''u0'', ''u1''}. is_terminal (store t i) \<or> i \<in> cancel_requested t)"
proof -
  have "cancel_requested ex_chain = {}"
    by (simp add: ex_chain_def ex_head_def create_job_def fresh_uuid_def now_iso_def ex_fw_def new_fw_def)
  then show ?thesis using reset_build_env_spec [of ex_chain] by auto
qed

section \<open>Cleaning a configuration\<close>

text \<open>\<open>t\<close> is \<open>s\<close> with the jobs \<open>js\<close> added at the end, and nothing else stopped, moved or rebound.\<close>

definition adds :: "string list \<Rightarrow> fw \<Rightarrow> fw \<Rightarrow> bool" where
  "adds js s t \<longleftrightarrow> keeps s t \<and> jobs t = jobs s @ js \<and> set js \<subseteq> fresh_ids s \<and> cancel_requested t = cancel_requested s \<and>
     (\<forall>i. i \<notin> set js \<longrightarrow> status (store t i) = status (store s i) \<and>
        source_pin_sha256 (store t i) = source_pin_sha256 (store s i)) \<and>
     (\<forall>i. placed s i \<longrightarrow> placed t i)"

lemma adds_refl: "wf s \<Longrightarrow> adds [] s s"
  by (simp add: adds_def keeps_refl)

lemma adds_trans:
  assumes "wf s" "adds js s t" "adds ks t u"
  shows "adds (js @ ks) s u"
proof -
  have "fresh_ids t \<subseteq> fresh_ids s"
    using assms(2) fresh_ids_mono by (auto simp: adds_def keeps_def evolves_def)
  moreover have "keeps s u" using keeps_trans [OF assms(1)] assms(2,3) unfolding adds_def by blast
  ultimately show ?thesis using assms(2,3) unfolding adds_def by auto
qed

lemma placed_mono: "placed s i \<Longrightarrow> placed (place_on_lane jid s) i"
proof (cases "i = jid")
  case False
  then have "lane_queue (get_lane n (place_on_lane jid s)) = lane_queue (get_lane n s) \<or>
      lane_queue (get_lane n (place_on_lane jid s)) = lane_queue (get_lane n s) @ [jid]"
    "active (get_lane n (place_on_lane jid s)) = active (get_lane n s)"
    "i \<in> set (pending (remote_dispatch s)) \<Longrightarrow> i \<in> set (pending (remote_dispatch (place_on_lane jid s)))"
    "in_flight (remote_dispatch (place_on_lane jid s)) = in_flight (remote_dispatch s)" for n
    by (auto simp: place_on_lane_def Let_def pool_defs)
  then show "placed s i \<Longrightarrow> placed (place_on_lane jid s) i"
    unfolding placed_def by (metis Un_iff set_append)
qed (simp add: placed_placed)

lemma plain_enqueue:
  assumes "wf s" "jid \<in> set (jobs s)" "enqueue jid False s = (Inr u, t)"
  shows "jobs t = jobs s" "cancel_requested t = cancel_requested s" "placed s i \<Longrightarrow> placed t i"
    "status (store t i) = status (store s i)" "source_pin_sha256 (store t i) = source_pin_sha256 (store s i)"
proof -
  let ?p = "place_and_announce jid s"
  have t: "t = persist_jobs ?p"
    using assms(3) by (auto simp: enqueue_def commit_chain_def no_stage_def Let_def split: sum.splits)
  note p = place_and_announce_ok [OF assms(1) wfD(4) [OF assms(1,2)]]
  note w = steps_okD(2) [OF p(1)]
  note f = persist_fields [OF wfD(1) [OF w]]
  show "jobs t = jobs s" "cancel_requested t = cancel_requested s" "status (store t i) = status (store s i)"
    using p(2,3,5) f(1) by (simp_all add: t)
  have "source_pin_sha256 (store ?p i) = source_pin_sha256 (store s i)"
    by (auto simp: place_and_announce_def Let_def place_on_lane_store)
  then show "source_pin_sha256 (store t i) = source_pin_sha256 (store s i)"
    using persist_store_fields [OF wfD(1) [OF w], of i] by (simp add: t persist_store [OF wfD(1) [OF w]])
  have "placed t i = placed ?p i" unfolding t by (rule placed_eqI) simp_all
  moreover have "placed (fire_event e v) i = placed v i" for e v by (rule placed_eqI) simp_all
  then have "placed s i \<Longrightarrow> placed ?p i"
    using placed_mono by (simp add: place_and_announce_def Let_def)
  ultimately show "placed s i \<Longrightarrow> placed t i" by simp
qed

text \<open>One remote clean, and one for each approved server with an open link.\<close>

definition cleaned_peer :: "string set \<Rightarrow> StoredPairing \<Rightarrow> bool" where
  "cleaned_peer open_links p \<longleftrightarrow> pairing_status p = APPROVED \<and> pairing_pin p \<in> open_links"

definition remote_cleans :: "string \<Rightarrow> string list \<Rightarrow> string list \<Rightarrow> fw \<Rightarrow> bool" where
  "remote_cleans conf js pins t \<longleftrightarrow>
     map (\<lambda>i. source_pin_sha256 (store t i)) js = pins \<and>
     (\<forall>i \<in> set js. status (store t i) = QUEUED \<and> placed t i \<and> job_type (store t i) = CLEAN \<and>
        configuration (store t i) = conf \<and> i \<notin> fresh_ids t)"

lemma remote_cleans_adds:
  assumes "remote_cleans conf js pins s" "adds ks s t"
  shows "remote_cleans conf js pins t"
proof -
  have new: "i \<notin> set ks" if "i \<in> set js" for i using assms that by (auto simp: remote_cleans_def adds_def)
  have "keeps s t" using assms(2) by (simp add: adds_def)
  then have "job_type (store t i) = job_type (store s i)" "configuration (store t i) = configuration (store s i)"
    "i \<notin> fresh_ids t" if "i \<in> set js" for i
    using evolvesD(2,4,8) [OF keepsD(1)] assms(1) that unfolding remote_cleans_def by blast+
  then show ?thesis using assms new unfolding remote_cleans_def adds_def by auto
qed

lemma one_remote_clean:
  assumes "wf s" "create_and_enqueue conf CLEAN (\<lambda>j. j) (build_source_for_pairing p version) False s = (Inr jid, t)"
  shows "adds [jid] s t" "remote_cleans conf [jid] [pairing_pin p] t"
proof -
  let ?b = "build_source_for_pairing p version"
  have pl: "plain_update (\<lambda>j. j)" by (simp add: plain_update_def)
  note k = create_and_enqueue_ok [OF assms(1) pl, where conf = conf and ty = CLEAN and b = ?b and supersede = False, unfolded assms(2) prod.case sum.case]
  obtain u where c: "create_job conf CLEAN (\<lambda>j. j) ?b s = (jid, u)" and e: "enqueue jid False u = (Inr (), t)"
    using assms(2) by (auto simp: create_and_enqueue_def split: prod.splits sum.splits)
  note kc = keeps_create [OF c assms(1), simplified] and fr = create_job_fresh [OF c assms(1)]
  note pe = plain_enqueue [OF keepsD(2) [OF kc(1)] kc(4) e]
  show "adds [jid] s t"
    unfolding adds_def using k pe kc(8,12) fr(1,9,10) by auto
  have "source_pin_sha256 (store u jid) = pairing_pin p"
    using create_job_eq [OF c] by (simp add: apply_build_source_def build_source_for_pairing_def JobBuildSource_for_server_def)
  then show "remote_cleans conf [jid] [pairing_pin p] t"
    unfolding remote_cleans_def using k pe(5) by simp
qed

lemma fan_out_ok:
  "wf s \<Longrightarrow> fan_out_clean conf version open_links ps s = (Inr u, t) \<Longrightarrow>
   \<exists>js. adds js s t \<and> remote_cleans conf js (map pairing_pin (filter (cleaned_peer open_links) ps)) t"
proof (induction ps arbitrary: s)
  case Nil
  then show ?case using adds_refl by (auto simp: remote_cleans_def)
next
  case (Cons p ps)
  show ?case
  proof (cases "cleaned_peer open_links p")
    case False
    then show ?thesis using Cons by (auto simp: cleaned_peer_def)
  next
    case True
    then obtain jid v where v: "create_and_enqueue conf CLEAN (\<lambda>j. j) (build_source_for_pairing p version) False s = (Inr jid, v)"
      "fan_out_clean conf version open_links ps v = (Inr u, t)"
      using Cons.prems(2) by (auto simp: cleaned_peer_def split: prod.splits sum.splits)
    note o = one_remote_clean [OF Cons.prems(1) v(1)]
    have wv: "wf v" using o(1) keepsD(2) by (auto simp: adds_def)
    obtain js where js: "adds js v t" "remote_cleans conf js (map pairing_pin (filter (cleaned_peer open_links) ps)) t"
      using Cons.IH [OF wv v(2)] by blast
    have "remote_cleans conf (jid # js) (pairing_pin p # map pairing_pin (filter (cleaned_peer open_links) ps)) t"
      using js(2) remote_cleans_adds [OF o(2) js(1)] by (auto simp: remote_cleans_def)
    then show ?thesis using adds_trans [OF Cons.prems(1) o(1) js(1)] True by (intro exI [of _ "jid # js"]) simp
  qed
qed

definition cleaned_pins :: "fw \<Rightarrow> string list" where
  "cleaned_pins s =
     (case offloader s of
        None \<Rightarrow> []
      | Some o_in \<Rightarrow> map pairing_pin (filter (cleaned_peer (open_peer_links o_in)) (dict_values (pairings o_in))))"

interpretation offl: command_frame offloader
proof
  fix conf ty kwargs b s jid t
  show "create_job conf ty kwargs b s = (jid, t) \<Longrightarrow> offloader t = offloader s"
    by (drule create_job_eq) simp
  show "offloader (release_lane_slot jid s) = offloader s" for jid s
    by (simp add: release_lane_slot_def lane_names_def)
  show "offloader (on_job_terminal jid s) = offloader s" for jid s
    by (simp add: on_job_terminal_def revert_rename_def)
qed (simp_all add: request_cancel_def terminate_job_process_def)

lemma offloader_create_enqueue:
  "offloader (snd (create_and_enqueue conf ty kwargs b supersede s)) = offloader s"
proof -
  obtain jid u where c: "create_job conf ty kwargs b s = (jid, u)" by fastforce
  have "snd (create_and_enqueue conf ty kwargs b supersede s) = snd (enqueue jid supersede u)"
    by (auto simp: create_and_enqueue_def c split: prod.split sum.split)
  then show ?thesis using offl.spared.enqueue_step [where s = u and jid = jid and supersede = supersede] offl.obs_create [OF c] by simp
qed


definition ex_peers :: fw where
  "ex_peers = new_fw None (Some (ex_inputs [(''pa'', ex_pairing ''pa'' 1 ''2026.5.0'')] {} False)) show_nat ex_ids ''2026.5.0''"

text \<open>While no rename is active, nothing but an invalid path refuses a clean.\<close>

definition no_rename :: "fw \<Rightarrow> bool" where
  "no_rename s \<longleftrightarrow> (\<forall>i \<in> set (active_jobs s). job_type (store s i) \<noteq> RENAME)"

lemma create_and_enqueue_accepted:
  assumes "wf s" "plain_update kwargs" "no_rename s" "ty \<noteq> RENAME"
  obtains jid t where "create_and_enqueue conf ty kwargs b supersede s = (Inr jid, t)" "wf t" "no_rename t"
proof -
  obtain jid u where c: "create_job conf ty kwargs b s = (jid, u)" by fastforce
  have kw: "dependency_released (kwargs j) = dependency_released j \<and> job_id (kwargs j) = job_id j \<and>
      status (kwargs j) = status j \<and> depends_on (kwargs j) = depends_on j \<and> configuration (kwargs j) = configuration j" for j
    using assms(2) by (simp add: plain_update_def)
  note k = keeps_create [OF c assms(1) kw] and fr = create_job_fresh [OF c assms(1)]
  have ty: "job_type (store u jid) = ty" using k(11) assms(2) by (simp add: plain_update_def new_FirmwareJob_def)
  have "job_type (store u i) \<noteq> RENAME" if "i \<in> set (active_jobs u)" for i
    using that ty assms(3,4) fr(6,10) by (cases "i = jid") (auto simp: active_jobs_def no_rename_def)
  then have "check_rename_lock jid {} u = Inr ()"
    by (auto simp: check_rename_lock_Inr_iff rename_locks_def)
  then obtain x t where e: "enqueue jid supersede u = (Inr x, t)"
    using enqueue_ok [OF keepsD(2) [OF k(1)] k(4,2,3,7), of supersede]
    by (cases "enqueue jid supersede u"; cases "fst (enqueue jid supersede u)") auto
  then have eq: "create_and_enqueue conf ty kwargs b supersede s = (Inr jid, t)" by (simp add: create_and_enqueue_def c)
  note o = create_and_enqueue_ok [OF assms(1,2), where conf = conf and ty = ty and b = b and supersede = supersede,
      unfolded eq prod.case sum.case]
  have kt: "keeps s t" using o by blast
  have "no_rename t"
    unfolding no_rename_def
  proof
    fix i assume i: "i \<in> set (active_jobs t)"
    show "job_type (store t i) \<noteq> RENAME"
    proof (cases "i = jid")
      case False
      then have "i \<in> set (jobs s)" using i o by (auto simp: active_jobs_def)
      note nf = wfD(4) [OF assms(1) this]
      have "is_active (store s i)" using evolves_active [OF keepsD(1) [OF kt] nf] i by (simp add: active_jobs_def)
      then show ?thesis
        using assms(3) \<open>i \<in> set (jobs s)\<close> evolvesD(2) [OF keepsD(1) [OF kt] nf] by (simp add: active_jobs_def no_rename_def)
    qed (use o assms(4) in simp)
  qed
  then show thesis using that eq keepsD(2) [OF kt] by blast
qed

lemma fan_out_accepted: "wf s \<Longrightarrow> no_rename s \<Longrightarrow> \<exists>t. fan_out_clean conf version open_links ps s = (Inr (), t)"
proof (induction ps arbitrary: s)
  case (Cons p ps)
  have "plain_update (\<lambda>j. j)" by (simp add: plain_update_def)
  from create_and_enqueue_accepted [OF Cons.prems(1) this Cons.prems(2), of CLEAN]
  show ?case using Cons.IH Cons.prems by simp (metis (no_types, lifting) prod.case sum.case(2))
qed simp

lemma clean_accepted:
  assumes "wf s" "no_rename s" "rel conf = Inr q" "conf \<noteq> []"
  shows "\<exists>jid t. clean rel conf s = (Inr jid, t)"
proof -
  define d where "d = (if devices s = None then s else clear_queued_flag conf s)"
  have d: "wf d" "no_rename d"
    using keepsD(2) [OF keeps_set_queued_update [OF assms(1)]] assms(1,2)
    by (simp_all add: d_def clear_queued_flag_def no_rename_def active_jobs_def)
  have "plain_update (\<lambda>j. j)" by (simp add: plain_update_def)
  then obtain jid v where v: "create_and_enqueue conf CLEAN (\<lambda>j. j) LOCAL_JOB_BUILD_SOURCE True d = (Inr jid, v)" "wf v" "no_rename v"
    using create_and_enqueue_accepted [OF d(1) _ d(2), of "\<lambda>j. j" CLEAN] by blast
  have "\<exists>t. fan_out_clean_to_connected_peers conf v = (Inr (), t)"
    using fan_out_accepted [OF v(2,3)] by (simp add: fan_out_clean_to_connected_peers_def split: option.split)
  then show ?thesis using v(1) assms(3,4)
    by (auto simp: clean_def clean_jobs_def d_def [symmetric] validate_configuration_boundary_def)
qed


section \<open>Snapshots\<close>

text \<open>A snapshot row differs from its job in the log alone, and the rows come oldest first.\<close>

lemma jobs_snapshot_rows:
  "mset (jobs_snapshot s) = mset (map (\<lambda>i. job_dict_without_output (store s i)) (jobs s))"
  "sorted (map created_at (jobs_snapshot s))"
proof -
  have "mset (sort_by created_at xs) = mset xs" for xs :: "FirmwareJob list" by (simp add: sort_by_def)
  then show "mset (jobs_snapshot s) = mset (map (\<lambda>i. job_dict_without_output (store s i)) (jobs s))"
    by (simp add: jobs_snapshot_def image_mset.compositionality o_def)
  have "map created_at (jobs_snapshot s) = map created_at (sort_by created_at (map (store s) (jobs s)))"
    by (simp add: jobs_snapshot_def job_dict_without_output_def o_def)
  then show "sorted (map created_at (jobs_snapshot s))" by (simp add: map_sort_by)
qed

end
