(* ===== verification/Commands.thy ===== *)
theory Commands
  imports Runner FwController
begin

text \<open>
  Every command of the firmware controller as one step of the queue: \<open>handle\<close> runs a command the way
  \<open>controllers/firmware/controller.py\<close> does. The lemmas show that each of them, accepted or refused,
  keeps the queue well formed, drops no active job and strands none (\<open>keeps\<close>).
\<close>

section \<open>Chains of one job\<close>

lemma plain_updates [simp]:
  "plain_update (\<lambda>j. j)" "plain_update (\<lambda>j. j\<lparr>port := p, flash_bootloader := b\<rparr>)"
  "plain_update (\<lambda>j. j\<lparr>skip_bootloader := True, is_deferred_install := True\<rparr>)"
  by (simp_all add: plain_update_def)

lemma keeps_create_and_enqueue:
  assumes "wf s" "plain_update kwargs"
  shows "keeps s (snd (create_and_enqueue conf ty kwargs b supersede s))"
proof -
  obtain r t where r: "create_and_enqueue conf ty kwargs b supersede s = (r, t)" by fastforce
  then show ?thesis
    using create_and_enqueue_ok [OF assms, where conf = conf and ty = ty and b = b and supersede = supersede]
    by (cases r) auto
qed

lemma enqueue_compile_eq:
  "enqueue_compile conf force_local ty s =
     (case resolve_install_source force_local ty s of
        Inl e \<Rightarrow> (Inl e, s)
      | Inr b \<Rightarrow> create_and_enqueue conf ty (\<lambda>j. j) b True s)"
  unfolding enqueue_compile_def create_and_enqueue_def ..

text \<open>The flag of a deferred install is set on the job before it is enqueued.\<close>

lemma create_then_defer:
  assumes "create_job conf COMPILE (\<lambda>j. j\<lparr>skip_bootloader := True\<rparr>) b s = (jid, t)"
  shows "create_job conf COMPILE (\<lambda>j. j\<lparr>skip_bootloader := True, is_deferred_install := True\<rparr>) b s =
    (jid, upd_job jid (\<lambda>j. j\<lparr>is_deferred_install := True\<rparr>) t)"
  using assms by (auto simp: create_job_def fresh_uuid_def now_iso_def Let_def upd_job_def apply_build_source_def
      intro!: fw.equality ext)

lemma install_or_defer_eq:
  "enqueue_install_or_defer get_port_type conf p force_local flash_boot s =
     (if target_is_offline s conf \<and> flash_boot
      then (Inl (CommandError INVALID_ARGS ''Bootloader update requires the device online''), s)
      else case resolve_install_source force_local COMPILE s of
             Inl e \<Rightarrow> (Inl e, s)
           | Inr b \<Rightarrow>
               if target_is_offline s conf \<and> p = OTA_PORT
               then create_and_enqueue conf COMPILE (\<lambda>j. j\<lparr>skip_bootloader := True, is_deferred_install := True\<rparr>) b True s
               else enqueue_install_chain get_port_type conf p b flash_boot s)"
proof -
  have "(case create_job conf COMPILE (\<lambda>j. j\<lparr>skip_bootloader := True\<rparr>) b s of
           (jid, s1) \<Rightarrow>
             (case enqueue jid True (upd_job jid (\<lambda>j. j\<lparr>is_deferred_install := True\<rparr>) s1) of
                (Inl e, s2) \<Rightarrow> (Inl e, s2)
              | (Inr u, s2) \<Rightarrow> (Inr jid, s2))) =
      create_and_enqueue conf COMPILE (\<lambda>j. j\<lparr>skip_bootloader := True, is_deferred_install := True\<rparr>) b True s" for b
  proof (cases "create_job conf COMPILE (\<lambda>j. j\<lparr>skip_bootloader := True\<rparr>) b s")
    case (Pair jid t)
    then show ?thesis using create_then_defer [OF Pair] by (simp add: create_and_enqueue_def)
  qed
  then show ?thesis unfolding enqueue_install_or_defer_def Let_def by (simp only:)
qed

section \<open>Every handler keeps the queue\<close>

lemma keeps_enqueue_compile: "wf s \<Longrightarrow> keeps s (snd (enqueue_compile conf force_local ty s))"
  by (auto simp: enqueue_compile_eq keeps_refl intro!: keeps_create_and_enqueue split: sum.split)

lemma keeps_install_chain:
  assumes "wf s"
  shows "keeps s (snd (enqueue_install_chain get_port_type conf p b flash_boot s))"
proof -
  obtain r u where r: "enqueue_install_chain get_port_type conf p b flash_boot s = (r, u)" by fastforce
  note ok = install_chain_ok [OF assms, where get_port_type = get_port_type and conf = conf and p = p
      and build_source = b and flash_boot = flash_boot, unfolded r prod.case]
  show ?thesis using ok r by (cases r) (simp_all add: keeps_def)
qed

lemma keeps_install_or_defer:
  "wf s \<Longrightarrow> keeps s (snd (enqueue_install_or_defer get_port_type conf p force_local flash_boot s))"
  by (auto simp: install_or_defer_eq keeps_refl intro!: keeps_create_and_enqueue keeps_install_chain split: sum.split)

lemma keeps_upload: "wf s \<Longrightarrow> keeps s (snd (upload rel get_port_type parse_ip conf p boot s))"
  by (auto simp: upload_def keeps_refl intro!: keeps_create_and_enqueue split: sum.split)

lemma keeps_install: "wf s \<Longrightarrow> keeps s (snd (install rel get_port_type parse_ip conf p force_local boot s))"
  by (auto simp: install_def keeps_refl intro!: keeps_install_or_defer split: sum.split)

lemma keeps_fan_out: "wf s \<Longrightarrow> keeps s (snd (fan_out_clean conf version open_links ps s))"
proof (induction ps arbitrary: s)
  case (Cons p ps)
  let ?b = "build_source_for_pairing p version"
  obtain r t where r: "create_and_enqueue conf CLEAN (\<lambda>j. j) ?b False s = (r, t)" by fastforce
  have t: "keeps s t" using keeps_create_and_enqueue [OF Cons.prems plain_updates(1), of conf CLEAN ?b False] r by simp
  then show ?case
    using r Cons.IH [OF keepsD(2) [OF t]] Cons.IH [OF Cons.prems] keeps_trans [OF Cons.prems t] by (cases r) auto
qed (simp add: keeps_refl)

lemma keeps_clean:
  assumes "wf s"
  shows "keeps s (snd (clean rel conf s))"
proof -
  define d where "d = (if devices s = None then s else clear_queued_flag conf s)"
  have d: "keeps s d" using keeps_set_queued_update [OF assms] keeps_refl [OF assms] by (simp add: d_def clear_queued_flag_def)
  note wd = keepsD(2) [OF d]
  obtain r v where v: "create_and_enqueue conf CLEAN (\<lambda>j. j) LOCAL_JOB_BUILD_SOURCE True d = (r, v)" by fastforce
  have kv: "keeps d v" using keeps_create_and_enqueue [OF wd plain_updates(1), of conf CLEAN LOCAL_JOB_BUILD_SOURCE True] v by simp
  obtain r' w where w: "fan_out_clean_to_connected_peers conf v = (r', w)" by fastforce
  have kw: "keeps v w"
    using w keeps_fan_out [OF keepsD(2) [OF kv]] keeps_refl [OF keepsD(2) [OF kv]]
    by (simp add: fan_out_clean_to_connected_peers_def split: option.splits) (metis snd_conv)
  have "snd (clean rel conf s) \<in> {d, v, w}"
    using v w by (auto simp: clean_def clean_jobs_def d_def [symmetric] split: sum.splits)
  then show ?thesis
    using d keeps_trans [OF assms d kv] keeps_trans [OF assms d keeps_trans [OF wd kv kw]] by auto
qed

text \<open>A sweep, whatever it spares.\<close>

lemma keeps_sweep:
  assumes "wf s"
  shows "\<exists>u. cancel_active_jobs E conf s = (Inr (), u) \<and> keeps s u"
proof -
  let ?is = "to_cancel E conf s"
  have pre: "\<forall>i \<in> set ?is. i \<notin> fresh_ids s \<and> (is_active (store s i) \<longrightarrow> i \<in> set (jobs s))"
    using wfD(4) [OF assms] by (auto simp: to_cancel_def active_jobs_def)
  have "closed_chain {} s" by (simp add: closed_chain_def)
  then show ?thesis
    using sweep_ok [OF assms pre, of "conf = None" "{}"] keeps_safe unfolding cancel_active_jobs_def by fastforce
qed

lemma keeps_persist: "wf s \<Longrightarrow> keeps s (persist_jobs s)"
  by (rule keeps_safe [OF safe_persist])

lemma keeps_finish_enqueue: "wf s \<Longrightarrow> keeps s (finish_enqueue jid conf s)"
proof -
  assume w: "wf s"
  obtain u where u: "cancel_active_jobs {jid} (Some conf) s = (Inr (), u)" "keeps s u" using keeps_sweep [OF w] by blast
  then show ?thesis
    using keeps_persist [OF w] keeps_trans [OF w u(2) keeps_persist [OF keepsD(2) [OF u(2)]]]
    by (simp add: finish_enqueue_def supersede_active_jobs_def)
qed

lemma keeps_reset: "wf s \<Longrightarrow> keeps s (snd (reset_build_env s))"
  using reset_build_env_ok by (metis snd_conv)

lemma keeps_begin_rename:
  assumes "wf s" "\<not> rename_fs_lock s"
  shows "keeps s (snd (begin_rename rewrite name_of stored conf nn content new_content s))"
    "\<not> rename_fs_lock (snd (begin_rename rewrite name_of stored conf nn content new_content s))"
proof -
  let ?r = "begin_rename rewrite name_of stored conf nn content new_content s"
  have "keeps s (snd ?r) \<and> \<not> rename_fs_lock (snd ?r)"
  proof (cases rule: begin_rename_cases [of rewrite name_of stored conf nn content new_content s])
    case (rejected e)
    then show ?thesis using assms keeps_refl by simp
  next
    case (entered p b text_new)
    obtain r t where r: "?r = (r, t)" by fastforce
    note ok = rename_section_ok [OF assms, where conf = conf and nn = nn and p = p and b = b and text_new = text_new,
        folded entered(1), unfolded r prod.case]
    show ?thesis
    proof (cases r)
      case (Inr q)
      obtain hid tid where "q = (hid, tid)" by fastforce
      then show ?thesis using ok Inr r by (simp add: keeps_def)
    qed (use ok r in \<open>simp add: keeps_def\<close>)
  qed
  then show "keeps s (snd ?r)" "\<not> rename_fs_lock (snd ?r)" by blast+
qed

lemma rename_handler_snd:
  "snd (rename_handler rel rewrite name_of stored conf nn s) = s \<or>
   snd (rename_handler rel rewrite name_of stored conf nn s) =
     snd (begin_rename rewrite name_of stored conf nn None None s)"
  by (auto simp: rename_handler_def rename_chain_def Let_def split: sum.split prod.split)

lemma keeps_rename_handler:
  assumes "wf s" "\<not> rename_fs_lock s"
  shows "keeps s (snd (rename_handler rel rewrite name_of stored conf nn s))"
    "\<not> rename_fs_lock (snd (rename_handler rel rewrite name_of stored conf nn s))"
  using rename_handler_snd [of rel rewrite name_of stored conf nn s]
    keeps_begin_rename [OF assms, where rewrite = rewrite and name_of = name_of and stored = stored and conf = conf and nn = nn
      and content = None and new_content = None] keeps_refl [OF assms(1)] assms(2) by auto

lemma keeps_cancel:
  assumes "wf s"
  shows "keeps s (snd (cancel jid s))"
proof (cases "jid \<in> set (jobs s) \<and> is_active (store s jid)")
  case True
  then obtain u where "cancel jid s = (Inr (), u)" "cancelled_by jid s u"
    using cancel_fuel_ok [OF assms, of jid] fuel_enough [OF assms] unfolding cancel_def
    by (metis card_mono finite_held held_count_card lessI wfD(1) [OF assms])
  then show ?thesis using keeps_safe by (simp add: cancelled_by_def)
next
  case False
  then have "snd (cancel jid s) = s" by (auto simp: cancel_def is_active_iff)
  then show ?thesis using keeps_refl [OF assms] by simp
qed

text \<open>Clearing finished jobs: nobody active leaves the dictionary.\<close>

lemma fold_keys_pop:
  "fold (\<lambda>i t. t\<lparr>jobs := keys_pop i (jobs t)\<rparr>) is s = s\<lparr>jobs := filter (\<lambda>i. i \<notin> set is) (jobs s)\<rparr>"
proof (induction "is" arbitrary: s)
  case (Cons i "is")
  then show ?case by (simp add: keys_pop_def conj_commute)
qed simp

lemma keeps_clear:
  assumes "wf s" "st \<notin> {job_status_value QUEUED, job_status_value RUNNING}"
  shows "keeps s (clear st s)"
proof -
  define kept where "kept = filter (\<lambda>i. i \<notin> set (filter (\<lambda>i. clear_matches st (store s i)) (jobs s))) (jobs s)"
  let ?t = "s\<lparr>jobs := kept\<rparr>"
  have eq: "clear st s = persist_jobs ?t" by (simp add: clear_def fold_keys_pop kept_def)
  have act: "i \<in> set kept" if "i \<in> set (jobs s)" "is_active (store s i)" for i
    using that assms(2) by (auto simp: kept_def clear_matches_def is_active_iff TERMINAL_JOB_STATUSES_def)
  have "wf ?t"
  proof (rule wf_shrink [OF assms(1)])
    show "placed ?t i \<Longrightarrow> placed s i" "occupied s i \<Longrightarrow> occupied ?t i" for i
      using placed_eqI [of ?t s] by simp_all
  qed (use wfD(1) [OF assms(1)] in \<open>auto simp: kept_def\<close>)
  moreover have "orphan s i" if o: "orphan ?t i" for i
  proof -
    have "i \<in> set (jobs s)" using o by (auto simp: orphan_def held_def kept_def)
    moreover have "\<not> (depends_on (store s i) \<in> set (jobs s) \<and> is_active (store s (depends_on (store s i))))"
      using o act [of "depends_on (store s i)"] by (auto simp: orphan_def)
    ultimately show ?thesis using o by (auto simp: orphan_def held_def)
  qed
  ultimately have "keeps s ?t" using act by (simp add: keeps_def evolves_same)
  then show ?thesis unfolding eq using keeps_trans [OF assms(1)] keeps_persist keepsD(2) by blast
qed

lemma keeps_clear_queued_update:
  "wf s \<Longrightarrow> keeps s (snd (clear_queued_update rel conf s))"
  by (auto simp: clear_queued_update_def clear_queued_flag_def keeps_refl intro!: keeps_set_queued_update
      split: sum.split option.split)

section \<open>A command\<close>

text \<open>What the handlers ask of the rest of the program.\<close>

record host =
  path_of :: "string \<Rightarrow> string result"
  port_type :: "string \<Rightarrow> PortType"
  ip_address :: "string \<Rightarrow> string option"
  rewrite_content :: "string \<Rightarrow> string \<Rightarrow> string result"
  resolved_name :: "string \<Rightarrow> string \<Rightarrow> string"
  stored_address :: "string option"

datatype command =
    Compile string bool
  | AnalyzeMemory string
  | Upload string string bool
  | Install string string bool bool
  | Clean string
  | ResetBuildEnv
  | Rename string string
  | ClearQueuedUpdate string
  | Cancel string
  | ClearJobs string

fun handle :: "host \<Rightarrow> command \<Rightarrow> fw \<Rightarrow> fw" where
  "handle h (Compile conf force_local) s = snd (compile_handler (path_of h) conf force_local s)"
| "handle h (AnalyzeMemory conf) s = snd (analyze_memory (path_of h) conf s)"
| "handle h (Upload conf p boot) s = snd (upload (path_of h) (port_type h) (ip_address h) conf p boot s)"
| "handle h (Install conf p force_local boot) s =
     snd (install (path_of h) (port_type h) (ip_address h) conf p force_local boot s)"
| "handle h (Clean conf) s = snd (clean (path_of h) conf s)"
| "handle h ResetBuildEnv s = snd (reset_build_env s)"
| "handle h (Rename conf nn) s =
     snd (rename_handler (path_of h) (rewrite_content h) (resolved_name h) (stored_address h) conf nn s)"
| "handle h (ClearQueuedUpdate conf) s = snd (clear_queued_update (path_of h) conf s)"
| "handle h (Cancel jid) s = snd (cancel jid s)"
| "handle h (ClearJobs st) s = clear st s"

text \<open>\<open>firmware/clear\<close> with an active status would drop active jobs.\<close>

definition clears_active :: "command \<Rightarrow> bool" where
  "clears_active c \<longleftrightarrow> c \<in> {ClearJobs (job_status_value QUEUED), ClearJobs (job_status_value RUNNING)}"

lemma keeps_handle:
  assumes "wf s" "\<not> rename_fs_lock s" "\<not> clears_active c"
  shows "keeps s (handle h c s)"
proof (cases c)
  case (ClearJobs st)
  then show ?thesis using keeps_clear [OF assms(1), of st] assms(3) by (simp add: clears_active_def)
qed (use assms(1,2) in \<open>auto simp: compile_handler_def analyze_memory_def keeps_refl
    intro!: keeps_enqueue_compile keeps_upload keeps_install keeps_clean keeps_reset keeps_rename_handler
      keeps_clear_queued_update keeps_cancel split: sum.split\<close>)

section \<open>The other steps of the loop\<close>

lemma keeps_wake: "wf s \<Longrightarrow> keeps s (handle_device_wake st conf s)"
  using keeps_refl keeps_quiet [OF _ quiet_dispatch_queued_upload]
  by (auto simp: handle_device_wake_def split: option.split)

lemma keeps_world:
  "wf s \<Longrightarrow> keeps s (s\<lparr>devices := ds\<rparr>)" "wf s \<Longrightarrow> keeps s (s\<lparr>offloader := off\<rparr>)"
  "wf s \<Longrightarrow> keeps s (s\<lparr>yaml_files := y\<rparr>)" "wf s \<Longrightarrow> keeps s (set_wake b s)"
proof -
  have "placed (s\<lparr>devices := ds\<rparr>) i = placed s i" "occupied (s\<lparr>devices := ds\<rparr>) i = occupied s i"
    "placed (s\<lparr>offloader := off\<rparr>) i = placed s i" "occupied (s\<lparr>offloader := off\<rparr>) i = occupied s i"
    "placed (s\<lparr>yaml_files := y\<rparr>) i = placed s i" "occupied (s\<lparr>yaml_files := y\<rparr>) i = occupied s i" for i
    by (rule placed_eqI; simp)+
  then show "wf s \<Longrightarrow> keeps s (s\<lparr>devices := ds\<rparr>)" "wf s \<Longrightarrow> keeps s (s\<lparr>offloader := off\<rparr>)"
    "wf s \<Longrightarrow> keeps s (s\<lparr>yaml_files := y\<rparr>)"
    by (intro keeps_quiet quiet_same; simp)+
  show "wf s \<Longrightarrow> keeps s (set_wake b s)"
    by (intro keeps_quiet quiet_same) (auto simp: set_wake_def placed_def occupied_def)
qed

lemma keeps_revert: "wf s \<Longrightarrow> keeps s (revert_rename jid s)"
  by (auto simp: revert_rename_def keeps_refl intro: keeps_world(3))

text \<open>A rebind to the local build, whatever the status of the job.\<close>

lemma keeps_fallback:
  assumes "wf s" "ready s jid"
  shows "keeps s (fallback_to_local jid s)"
proof -
  let ?t = "upd_job jid (apply_build_source LOCAL_JOB_BUILD_SOURCE) s"
  have t: "keeps s ?t"
  proof (rule keeps_steps)
    show "steps_ok s ?t" using assms(1) by (intro steps_ok_upd_job) (simp_all, simp add: apply_build_source_def)
    show "orphan ?t i \<Longrightarrow> orphan s i" for i
      by (auto simp: orphan_def held_def is_active_def split: if_splits)
  qed
  have "keeps ?t (place_on_lane jid ?t)"
    using ready_evolves [OF keepsD(1) [OF t] assms(2)] by (intro keeps_place keepsD(2) [OF t]) (auto simp: ready_def)
  then show ?thesis unfolding fallback_to_local_def by (rule keeps_trans [OF assms(1) t])
qed

lemma keeps_flush_to:
  "wf s \<Longrightarrow> \<forall>i \<in> set is. ready s i \<Longrightarrow> keeps s (fold fallback_to_local is s)"
proof (induction "is" arbitrary: s)
  case (Cons k "is")
  have k: "keeps s (fallback_to_local k s)" using keeps_fallback [OF Cons.prems(1)] Cons.prems(2) by simp
  have "\<forall>i \<in> set is. ready (fallback_to_local k s) i"
    using Cons.prems(2) ready_evolves [OF keepsD(1) [OF k]] by simp
  then show ?case using Cons.IH [OF keepsD(2) [OF k]] keeps_trans [OF Cons.prems(1) k] by simp
qed (simp add: keeps_refl)

lemma keeps_dispatch_pending:
  assumes "wf s" "pool_ok s"
  shows "keeps s (dispatch_pending s)"
proof (cases "offloader s")
  case None
  let ?f = "fold fallback_to_local (pending (remote_dispatch s)) s"
  have "\<forall>i \<in> set (pending (remote_dispatch s)). ready s i"
    using ready_placed [OF assms(1)] by (auto simp: placed_def)
  then have f: "keeps s ?f" by (rule keeps_flush_to [OF assms(1)])
  have "dispatch_pending s \<in> {?f, persist_jobs ?f}"
    using None by (simp add: dispatch_pending_def flush_to_local_def Let_def)
  then show ?thesis using f keeps_trans [OF assms(1) f keeps_persist [OF keepsD(2) [OF f]]] by auto
qed (use dispatch_pending_ok(1) [OF assms] in blast)

lemma pool_ok_wake [simp]: "pool_ok (set_wake b s) = pool_ok s"
  by (simp add: pool_ok_def set_wake_def)

lemma keeps_dispatch_turn: "wf s \<Longrightarrow> pool_ok s \<Longrightarrow> keeps s (dispatch_turn s)"
  using keeps_refl keeps_trans [OF _ keeps_world(4) keeps_dispatch_pending] keepsD(2) [OF keeps_world(4)]
  by (auto simp: dispatch_turn_def)

text \<open>A line of output of a running job, and its spawn.\<close>

lemma ingest_line_fields [simp]:
  "job_identity (fst (ingest_output_line now j l)) = job_identity j"
  "status (fst (ingest_output_line now j l)) = status j"
  "dependency_released (fst (ingest_output_line now j l)) = dependency_released j"
proof -
  obtain out v n a b where "fst (ingest_output_line now j l) =
       j\<lparr>output := out, progress := v, ninja_total := n, compile_started_at := a, compile_ended_at := b\<rparr>"
    by (rule ingest_only)
  then show "job_identity (fst (ingest_output_line now j l)) = job_identity j"
    "status (fst (ingest_output_line now j l)) = status j"
    "dependency_released (fst (ingest_output_line now j l)) = dependency_released j"
    by (simp_all add: job_identity_def)
qed

lemma keeps_line:
  assumes "wf s" "is_active (store s jid)"
  shows "keeps s (ingest_line jid line s)"
proof -
  obtain now t where now: "now_iso s = (now, t)" by fastforce
  have t: "keeps s t" "store t = store s" using keeps_tick [OF assms(1) now] now by (auto simp: now_iso_def)
  obtain j ev where j: "ingest_output_line now (store s jid) line = (j, ev)" by fastforce
  define f where "f = (\<lambda>k. fst (ingest_output_line now k line))"
  have eq: "ingest_line jid line s = fold fire_event ev (upd_job jid f t)"
    using upd_job_cong [of "\<lambda>_. j" t jid f] t(2) j by (simp add: ingest_line_def now f_def)
  have u: "keeps t (upd_job jid f t)"
    using assms(2) t(2) by (intro keeps_touch keepsD(2) [OF t(1)]) (simp_all add: f_def)
  note su = keeps_trans [OF assms(1) t(1) u]
  show ?thesis
    unfolding eq using keepsD(2) [OF su] keeps_quiet quiet_fold_fire by (intro keeps_trans [OF assms(1) su]) blast
qed

lemma keeps_spawn: "wf s \<Longrightarrow> keeps s (tracked_spawn jid s)"
proof -
  assume w: "wf s"
  have k: "keeps s (register_spawn jid s)" by (rule keeps_quiet [OF w quiet_spawns(1) [OF w]])
  have "keeps (register_spawn jid s) (terminate_job_process jid (register_spawn jid s))"
    by (rule keeps_quiet [OF keepsD(2) [OF k] quiet_terminate [OF keepsD(2) [OF k]]])
  then show ?thesis using k keeps_trans [OF w k] by (simp add: tracked_spawn_def Let_def)
qed

text \<open>The end of a driver whose job has ended, or whose server vanished, or that raised.\<close>

definition drive_may_end :: "string \<Rightarrow> RemoteOutcome \<Rightarrow> fw \<Rightarrow> bool" where
  "drive_may_end jid oc s \<longleftrightarrow>
     (case oc of
        Returned \<Rightarrow> is_terminal (store s jid)
      | RemoteServerLost reason \<Rightarrow> status (store s jid) = RUNNING
      | ProvisionUnavailable reason \<Rightarrow> False
      | RemoteOutcome.Raised msg \<Rightarrow> status (store s jid) = RUNNING)"

lemma keeps_drive_end:
  assumes "wf s" "pool_ok s" "jid \<in> set (in_flight (remote_dispatch s))" "drive_may_end jid oc s"
  shows "keeps s (drive_remote_end jid oc s)" "pool_ok (drive_remote_end jid oc s)"
proof -
  have rdy: "ready s jid" using assms(1,3) by (intro ready_placed) (auto simp: placed_def)
  then have nf: "jid \<notin> fresh_ids s" by (simp add: ready_def)
  define u where "u = (case oc of Returned \<Rightarrow> s | RemoteServerLost reason \<Rightarrow> requeue_after_server_loss jid reason s
    | ProvisionUnavailable reason \<Rightarrow> requeue_after_provision_failure jid reason s
    | RemoteOutcome.Raised msg \<Rightarrow> snd (finalize_unexpected_error jid msg s))"
  have u: "keeps s u \<and> pool_ok u \<and> status (store u jid) \<noteq> RUNNING"
  proof (cases oc)
    case Returned
    then show ?thesis using assms keeps_refl by (auto simp: u_def drive_may_end_def is_terminal_def TERMINAL_JOB_STATUSES_def)
  next
    case (RemoteServerLost reason)
    then have r: "status (store s jid) = RUNNING" using assms(4) by (simp add: drive_may_end_def)
    note q = requeue_after_server_loss_ok [OF assms(1) rdy r, of reason]
    show ?thesis
      using q(1) pool_ok_bindings [OF q(2) assms(2)] q(3,5) RemoteServerLost
      by (cases "losses (remote_dispatch s) jid < MAX_SERVER_LOSS_RETRIES") (simp_all add: u_def)
  next
    case (ProvisionUnavailable reason)
    then show ?thesis using assms(4) by (simp add: drive_may_end_def)
  next
    case (Raised msg)
    then have r: "is_active (store s jid)" using assms(4) by (simp add: drive_may_end_def is_active_iff)
    obtain t where t: "finalize_unexpected_error jid msg s = (Inr (), t)"
      "settles jid (if jid \<in> cancel_requested s then CANCELLED else FAILED) s t"
      using error_settles [OF assms(1) nf r] by blast
    moreover have "pool_ok t"
    proof -
      have "pool_ok s \<longrightarrow> pool_ok (snd (finalize_terminal jid st err (s\<lparr>cancel_requested := c\<rparr>)))" for st err c
        using pool_step.finalize_step [of "s\<lparr>cancel_requested := c\<rparr>" jid st err] by (simp add: pool_ok_def)
      from this [of CANCELLED None "cancel_requested s - {jid}"] this [of FAILED "Some msg" "cancel_requested s"]
      show ?thesis using t(1) assms(2) by (simp add: finalize_unexpected_error_def finalize_cancelled_def split: if_splits)
    qed
    ultimately show ?thesis using Raised by (simp add: u_def settles_def)
  qed
  have eq: "drive_remote_end jid oc s = (let v = upd_pool (release jid) u
      in end_run jid (if is_terminal (store v jid) then upd_pool (forget_losses jid) v else v))"
    unfolding drive_remote_end_eq u_def Let_def ..
  have wu: "wf u" using u keepsD(2) by blast
  note e = drive_end_tail [of u jid, OF wu, folded eq [unfolded Let_def]]
  show "keeps s (drive_remote_end jid oc s)" using keeps_trans [OF assms(1) _ e(1)] u by blast
  show "pool_ok (drive_remote_end jid oc s)" using e(2) u by blast
qed

end
