(* ===== verification/QueueSystem.thy ===== *)
theory QueueSystem
  imports Commands
begin

text \<open>
  The queue as a whole: one step relation for everything that can happen between two suspensions of the
  event loop (commands, device and server events, the background tasks, the matcher, the workers of the
  lanes, the runs and the remote drivers), and what holds in every state it reaches, in whatever order
  the steps come. A job a worker has taken off its lane and not started is in \<open>taken\<close>, the local variable
  \<open>job\<close> of that worker's \<open>run_lane\<close>.
\<close>

section \<open>What the steps do to the pool and to the slots\<close>

text \<open>The remaining primitives, for relations that do not look at the job objects.\<close>

locale run_step = command_step +
  assumes step_flags: "R s (s\<lparr>cancel_requested := c\<rparr>)"
    and step_spawns: "R s (s\<lparr>spawns := p\<rparr>)"
    and step_files: "R s (s\<lparr>yaml_files := y\<rparr>)"
    and step_lane_release: "R s (upd_lane n (lane_release jid) s)"
    and step_drop: "R s (upd_pool (drop_waiting jid) s)"
    and step_release: "R s (upd_pool (release jid) s)"
    and step_retries: "R s (upd_pool (\<lambda>d. d\<lparr>retries := rt d\<rparr>) s)"
    and step_wake: "R s (upd_pool (\<lambda>d. d\<lparr>wake := w\<rparr>) s)"
begin

lemma fold_fire_step: "R s (fold fire_event es s)"
  by (induction es arbitrary: s) (auto intro: step_refl step_trans [OF step_fire])

lemma begin_run_step: "R s (begin_run jid s)"
proof -
  obtain now t where now: "now_iso s = (now, t)" by fastforce
  show ?thesis
    unfolding begin_run_def now prod.case
    by (rule step_trans [OF now_iso_step [OF now]], rule step_trans [OF step_upd_job],
        rule step_trans [OF listeners_step step_persist])
qed

lemma end_run_step: "R s (end_run jid s)"
proof -
  have p: "R u (persist_jobs (prune_history u))" for u
    unfolding prune_history_def by (rule step_trans [OF step_jobs step_persist])
  show ?thesis
    unfolding end_run_def using p [of s] step_trans [OF step_upd_job p] step_persist by (simp split: if_split)
qed

lemma finalize_cancelled_step: "R s (snd (finalize_cancelled jid s))"
  unfolding finalize_cancelled_def by (rule step_trans [OF step_flags finalize_step])

lemma unexpected_error_step: "R s (snd (finalize_unexpected_error jid e s))"
  by (simp add: finalize_unexpected_error_def finalize_cancelled_step finalize_step)

lemma notice_step: "R s (ingest_notice jid msg s)" "R s (ingest_line jid line s)"
proof -
  obtain now t where now: "now_iso s = (now, t)" by fastforce
  have "R s (fold fire_event ev (upd_job jid f t))" for ev f
    by (rule step_trans [OF now_iso_step [OF now]], rule step_trans [OF step_upd_job fold_fire_step])
  then show "R s (ingest_notice jid msg s)" "R s (ingest_line jid line s)"
    by (simp_all add: ingest_notice_def ingest_line_def now split: prod.split)
qed

lemma fallback_step: "R s (fallback_to_local jid s)"
  unfolding fallback_to_local_def by (rule step_trans [OF step_upd_job step_place])

lemma flush_step: "R s (flush_to_local s)"
proof -
  have "R s (fold fallback_to_local is s)" for "is"
    by (induction "is" arbitrary: s) (auto intro: step_refl step_trans [OF fallback_step])
  then show ?thesis
    unfolding flush_to_local_def Let_def using step_trans [OF _ step_persist] step_refl by simp
qed

text \<open>The commands.\<close>

lemma create_and_enqueue_step: "R s (snd (create_and_enqueue conf ty kwargs b supersede s))"
proof -
  obtain jid u where c: "create_job conf ty kwargs b s = (jid, u)" by fastforce
  obtain r t where r: "enqueue jid supersede u = (r, t)" by fastforce
  have "R s t" using step_trans [OF step_create [OF c] enqueue_step [of u jid supersede]] r by simp
  then show ?thesis using c r by (cases r) (simp_all add: create_and_enqueue_def)
qed

lemma install_chain_step: "R s (snd (enqueue_install_chain get_port_type conf p b flash_boot s))"
proof -
  let ?k1 = "\<lambda>j. j\<lparr>skip_bootloader := is_ota_app_flash get_port_type p flash_boot\<rparr>"
  obtain cid s1 where c1: "create_job conf COMPILE ?k1 b s = (cid, s1)" by fastforce
  let ?k2 = "\<lambda>j. j\<lparr>port := p, flash_bootloader := flash_boot, depends_on := cid\<rparr>"
  obtain uid s2 where c2: "create_job conf UPLOAD ?k2 LOCAL_JOB_BUILD_SOURCE s1 = (uid, s2)" by fastforce
  obtain r t where r: "commit_chain [uid, cid] (Some conf) cid {} no_stage s2 = (r, t)" by fastforce
  have "R s2 t" using commit_step [where s = s2 and chain = "[uid, cid]" and stage = no_stage and lock = cid and excl = "{}" and ?conf0.0 = "Some conf"] r
    by (simp add: no_stage_def step_refl)
  then have "R s t" using step_trans [OF step_create [OF c1] step_trans [OF step_create [OF c2]]] by blast
  then show ?thesis using c1 c2 r by (cases r) (simp_all add: enqueue_install_chain_def)
qed

lemma install_or_defer_step: "R s (snd (enqueue_install_or_defer get_port_type conf p force_local flash_boot s))"
  by (auto simp: install_or_defer_eq intro: step_refl create_and_enqueue_step install_chain_step split: sum.split)

lemma enqueue_compile_step: "R s (snd (enqueue_compile conf force_local ty s))"
  by (auto simp: enqueue_compile_eq intro: step_refl create_and_enqueue_step split: sum.split)

lemma fan_out_step: "R s (snd (fan_out_clean conf version open_links ps s))"
proof (induction ps arbitrary: s)
  case (Cons p ps)
  let ?b = "build_source_for_pairing p version"
  obtain r t where r: "create_and_enqueue conf CLEAN (\<lambda>j. j) ?b False s = (r, t)" by fastforce
  have t: "R s t" using create_and_enqueue_step [of s conf CLEAN "\<lambda>j. j" ?b False] r by simp
  then show ?case using r Cons.IH [of t] Cons.IH [of s] step_trans [OF t] by (cases r) auto
qed (simp add: step_refl)

lemma clear_flag_step: "R s (clear_queued_flag conf s)"
  by (simp add: clear_queued_flag_def step_queued_update)

lemma clean_step: "R s (snd (clean rel conf s))"
proof -
  define d where "d = (if devices s = None then s else clear_queued_flag conf s)"
  have d: "R s d" using step_refl clear_flag_step by (simp add: d_def)
  obtain r v where v: "create_and_enqueue conf CLEAN (\<lambda>j. j) LOCAL_JOB_BUILD_SOURCE True d = (r, v)" by fastforce
  have kv: "R s v"
    using step_trans [OF d create_and_enqueue_step [of d conf CLEAN "\<lambda>j. j" LOCAL_JOB_BUILD_SOURCE True]] v by simp
  obtain r' w where w: "fan_out_clean_to_connected_peers conf v = (r', w)" by fastforce
  have "R v w"
  proof (cases "offloader v")
    case None
    then show ?thesis using w step_refl by (simp add: fan_out_clean_to_connected_peers_def)
  next
    case (Some o_in)
    then show ?thesis
      using w fan_out_step [of v conf "offloader_esphome_version o_in" "open_peer_links o_in" "dict_values (pairings o_in)"]
      by (simp add: fan_out_clean_to_connected_peers_def)
  qed
  then have kw: "R s w" by (rule step_trans [OF kv])
  have "snd (clean rel conf s) \<in> {d, v, w}"
    using v w by (auto simp: clean_def clean_jobs_def d_def [symmetric] split: sum.splits)
  then show ?thesis using d kv kw by auto
qed

lemma reset_step: "R s (snd (reset_build_env s))"
proof -
  have f: "R u (fold clear_queued_flag cs u)" for cs u
    by (induction cs arbitrary: u) (auto intro: step_refl step_trans [OF clear_flag_step])
  have d: "R s (disarm_all_queued_updates s)"
    using f step_refl by (simp add: disarm_all_queued_updates_def split: option.split)
  obtain jid s1 where c: "create_job [] RESET_BUILD_ENV (\<lambda>j. j) LOCAL_JOB_BUILD_SOURCE (disarm_all_queued_updates s) = (jid, s1)"
    by fastforce
  have s1: "R s s1" by (rule step_trans [OF d step_create [OF c]])
  obtain r s2 where s2: "cancel_all_active_jobs {jid} s1 = (r, s2)" by fastforce
  have k2: "R s s2" using step_trans [OF s1 cancel_active_jobs_step [of s1 "{jid}" None]] s2
    by (simp add: cancel_all_active_jobs_def)
  obtain r' s3 where s3: "enqueue jid True s2 = (r', s3)" by fastforce
  have k3: "R s s3" using step_trans [OF k2 enqueue_step [of s2 jid True]] s3 by simp
  show ?thesis
    using c s2 s3 k3 step_trans [OF k2 roll_out_step] by (cases r; cases r') (simp_all add: reset_build_env_def)
qed

lemma rename_commit_step: "R s (snd (rename_commit conf nn p b fname content s))"
proof -
  obtain hid s1 where c1: "create_job fname COMPILE (\<lambda>j. j\<lparr>skip_bootloader := True\<rparr>) b s = (hid, s1)" by fastforce
  obtain tid s2 where c2: "create_job conf RENAME (\<lambda>j. j\<lparr>new_name := nn, port := p, depends_on := hid\<rparr>) LOCAL_JOB_BUILD_SOURCE s1 = (tid, s2)"
    by fastforce
  have stage: "R t (snd (rename_stage conf E fname content t))" for t E
  proof -
    obtain r u where r: "supersede_active_jobs conf E t = (r, u)" by fastforce
    then have "R t u" using supersede_step [of t conf E] by simp
    then show ?thesis
      using r step_trans [OF step_trans [OF \<open>R t u\<close> step_persist] step_files] by (cases r) (simp_all add: rename_stage_def Let_def)
  qed
  obtain r t where r: "commit_chain [tid, hid] (Some fname) tid {hid, tid} (rename_stage conf {hid, tid} fname content) s2 = (r, t)"
    by fastforce
  have "R s2 (snd (commit_chain [tid, hid] (Some fname) tid {hid, tid} (rename_stage conf {hid, tid} fname content) s2))"
    by (rule commit_step [OF stage])
  then have "R s2 t" using r by simp
  then have "R s t" using step_trans [OF step_create [OF c1] step_trans [OF step_create [OF c2]]] by blast
  then show ?thesis using c1 c2 r by (cases r) (simp_all add: rename_commit_def)
qed

lemma revert_step: "R s (revert_rename jid s)"
  by (simp add: revert_rename_def step_refl step_files)

lemma clear_step: "R s (clear st s)"
  unfolding clear_def fold_keys_pop by (rule step_trans [OF step_jobs step_persist])

text \<open>Every command but a rename, which also takes and frees the lock of the files.\<close>

lemma handle_step: "(\<And>conf nn. c \<noteq> Rename conf nn) \<Longrightarrow> R s (handle h c s)"
  by (cases c)
    (auto simp: compile_handler_def analyze_memory_def upload_def install_def clear_queued_update_def
      intro: step_refl enqueue_compile_step create_and_enqueue_step install_or_defer_step clean_step reset_step
        clear_flag_step cancel_step clear_step split: sum.split option.split)

text \<open>The worker and the run.\<close>

lemma gate_step: "R s (snd (gate_turn jid s))"
  by (simp add: gate_turn_def Let_def step_refl step_gate)

lemma round_end_step: "R s (round_end n s)"
proof -
  have "upd_pool rearm_if_pending s =
      (if pending (remote_dispatch s) \<noteq> [] then upd_pool (\<lambda>d. d\<lparr>wake := True\<rparr>) s else s)"
    by (simp add: upd_pool_def rearm_if_pending_def)
  then show ?thesis using step_refl step_wake by (simp add: round_end_def)
qed

lemma tracked_spawn_step: "R s (tracked_spawn jid s)"
  by (simp add: tracked_spawn_def Let_def register_spawn_def step_spawns step_trans [OF step_spawns step_terminate])

lemma after_exit_step: "R s (snd (after_exit executable removed venv_error code f jid s))"
proof -
  define s1 where "s1 = release_spawn jid (upd_job jid (\<lambda>j. j\<lparr>exit_code := Some code\<rparr>) s)"
  have s1: "R s s1" unfolding s1_def release_spawn_def by (rule step_trans [OF step_upd_job step_spawns])
  obtain r s2 where r: "cancel_if_requested jid s1 = (r, s2)" by fastforce
  have s2: "R s s2"
    using r s1 step_trans [OF s1 finalize_cancelled_step [of s1 jid]]
    by (auto simp: cancel_if_requested_def split: if_splits prod.splits sum.splits)
  define s3 where "s3 = (if has_error_in_output f \<and> code = 0
    then upd_job jid (\<lambda>j. j\<lparr>error := Some (if saw_no_esphome_module f
           then NOT_IMPORTABLE_ERROR executable else OUTPUT_ERRORS_ERROR)\<rparr>) s2 else s2)"
  have s3: "R s s3" using s2 step_trans [OF s2 step_upd_job] by (simp add: s3_def)
  define success where "success \<longleftrightarrow> code = 0 \<and> \<not> has_error_in_output f"
  define s4 where "s4 = (if success \<and> is_rename_tail (store s3 jid) then finalize_rename_swap removed jid s3 else s3)"
  have s4: "R s s4" using s3 step_trans [OF s3 step_files] by (simp add: s4_def finalize_rename_swap_def)
  have fin: "R s (snd (finalize_terminal jid st err s4))" for st err by (rule step_trans [OF s4 finalize_step])
  let ?st = "if success then COMPLETED else FAILED"
  have eq: "after_exit executable removed venv_error code f jid s =
      (case r of
         Inl e \<Rightarrow> (Inl (Raised (exn_text e)), s2)
       | Inr True \<Rightarrow> (Inr (), s2)
       | Inr False \<Rightarrow>
           if success \<and> job_type (store s4 jid) = RESET_BUILD_ENV \<and> venv_error \<noteq> None
           then (Inl (Raised (the venv_error)), s4)
           else (case finalize_terminal jid ?st None s4 of
                   (Inl e, s5) \<Rightarrow> (Inl (Raised (exn_text e)), s5) | (Inr u, s5) \<Rightarrow> (Inr (), s5)))"
    by (simp only: after_exit_def Let_def s1_def [symmetric] r s4_def s3_def success_def prod.case)
  obtain r' s5 where r': "finalize_terminal jid ?st None s4 = (r', s5)" by fastforce
  have "R s s5" using fin [of ?st None] r' by simp
  then show ?thesis
    unfolding eq r' using s2 s4 by (cases r'; simp split: sum.split bool.split if_split)
qed

lemma run_end_step: "R s (snd (run_end n out jid s))"
proof -
  obtain r t where r: "run_body_end out jid s = (r, t)" by fastforce
  have t: "R s t"
  proof (cases out)
    case (Exited executable removed venv_error code f)
    then show ?thesis using r after_exit_step [of s executable removed venv_error code f jid] by (simp add: run_body_end_def)
  next
    case (Failed x)
    then show ?thesis
      using r step_spawns [of s] step_trans [OF step_terminate step_spawns]
      by (auto simp: run_body_end_def runner_cancelled_def release_spawn_def split: if_splits)
  qed
  have tail: "R s (end_run jid (upd_lane n (lane_release jid) u))" if "R s u" for u
    by (rule step_trans [OF that step_trans [OF step_lane_release end_run_step]])
  have e: "R s (snd (finalize_unexpected_error jid x u))" if "R s u" for x u
    by (rule step_trans [OF that unexpected_error_step])
  have c: "R s (snd (finalize_cancelled jid t))" by (rule step_trans [OF t finalize_cancelled_step])
  have p: "R s (upd_job jid (\<lambda>j. j\<lparr>failure_reason := PROVISION\<rparr>) t)" by (rule step_trans [OF t step_upd_job])
  show ?thesis
    unfolding run_end_def r execute_end_def
    using tail [OF t] tail [OF c] tail [OF e [OF t]] tail [OF e [OF p]]
    by (auto split: sum.split run_fail.split prod.split) (metis snd_conv)+
qed

end

text \<open>The lock of the YAML files, which a rename takes and frees.\<close>

locale lock_step = run_step +
  assumes step_lock: "R s (s\<lparr>rename_fs_lock := b\<rparr>)"
begin

lemma begin_rename_step: "R s (snd (begin_rename rewrite name_of stored conf nn content new_content s))"
proof (cases rule: begin_rename_cases [of rewrite name_of stored conf nn content new_content s])
  case (rejected e)
  then show ?thesis by (simp add: step_refl)
next
  case (entered p b text_new)
  obtain r t where r: "rename_commit conf nn p b (configuration_filename nn) text_new (s\<lparr>rename_fs_lock := True\<rparr>) = (r, t)"
    by fastforce
  then have "R (s\<lparr>rename_fs_lock := True\<rparr>) t" using rename_commit_step by (metis snd_conv)
  then have "R s (t\<lparr>rename_fs_lock := False\<rparr>)" by (intro step_trans [OF step_trans [OF step_lock] step_lock])
  then show ?thesis unfolding entered(1) under_rename_lock_def r by simp
qed

lemma command_step: "R s (handle h c s)"
proof (cases "\<exists>conf nn. c = Rename conf nn")
  case True
  then obtain conf nn where c: "c = Rename conf nn" by blast
  show ?thesis
    using rename_handler_snd [of "path_of h" "rewrite_content h" "resolved_name h" "stored_address h" conf nn s]
      begin_rename_step step_refl by (auto simp: c)
qed (blast intro: handle_step)

end

text \<open>The matcher, which also takes a slot of the pool.\<close>

locale dispatch_step = run_step +
  assumes step_start: "R s (upd_pool (start jid pin) s)"
begin

lemma drive_start_step: "R s (drive_remote_start jid s)"
  by (simp add: drive_remote_start_def step_release begin_run_step)

lemma to_server_step: "R s (dispatch_to_server jid pin snapshot s)"
proof (cases "get_pairing s pin")
  case (Some p)
  let ?s1 = "upd_job jid (apply_build_source (build_source_for_pairing p (offloader_esphome_version snapshot))) s"
  have "R s (upd_pool (start jid pin) (drive_remote_start jid ?s1))"
    by (rule step_trans [OF step_upd_job step_trans [OF drive_start_step step_start]])
  then show ?thesis using Some step_trans [OF _ step_tasks] by (simp add: dispatch_to_server_def Let_def)
qed (simp add: dispatch_to_server_def set_wake_def step_wake)

lemma one_step: "R s (snd (dispatch_one snapshot jid s))"
  unfolding dispatch_one_def fail_no_compatible_peer_def Let_def
  by (auto intro: step_refl step_drop to_server_step fallback_step step_trans [OF step_drop finalize_step]
      split: DispatchOutcome.split)

lemma each_step: "R s (snd (dispatch_each snapshot jids b s))"
proof (induction jids arbitrary: b s)
  case (Cons jid jids)
  obtain x t where x: "dispatch_one snapshot jid s = (x, t)" by fastforce
  then have "R s t" using one_step [of s snapshot jid] by simp
  then show ?case using x step_trans [OF _ Cons.IH] by simp
qed (simp add: step_refl)

lemma dispatch_pending_step: "R s (dispatch_pending s)"
proof (cases "offloader s")
  case (Some snapshot)
  obtain b t where b: "dispatch_each snapshot (pending (remote_dispatch s)) False s = (b, t)" by fastforce
  then have "R s t" using each_step [of s snapshot "pending (remote_dispatch s)" False] by simp
  then show ?thesis using b Some step_trans [OF _ step_persist] by (simp add: dispatch_pending_def)
qed (simp add: dispatch_pending_def flush_step)

lemma dispatch_turn_step: "R s (dispatch_turn s)"
  using step_trans [OF step_wake dispatch_pending_step] step_refl by (simp add: dispatch_turn_def set_wake_def)

lemma drive_end_step: "R s (drive_remote_end jid oc s)"
proof -
  have loss: "R s (requeue_after_server_loss jid reason s)" for reason
  proof -
    obtain n d where n: "record_loss jid (remote_dispatch s) = (n, d)" by fastforce
    have d: "R s (s\<lparr>remote_dispatch := d\<rparr>)" using record_loss_upd [OF n] step_retries by simp
    have "R s (upd_pool (forget_losses jid) (snd (finalize_terminal jid FAILED err (s\<lparr>remote_dispatch := d\<rparr>))))" for err
      unfolding forget_upd by (rule step_trans [OF d step_trans [OF finalize_step step_retries]])
    moreover have "R s (return_to_pool jid (ingest_notice jid msg (s\<lparr>remote_dispatch := d\<rparr>)))" for msg
      unfolding return_to_pool_def
      by (rule step_trans [OF d step_trans [OF notice_step(1) step_trans [OF step_upd_job step_place]]])
    ultimately show ?thesis by (simp add: requeue_after_server_loss_def n Let_def)
  qed
  have prov: "R s (requeue_after_provision_failure jid reason s)" for reason
    unfolding requeue_after_provision_failure_def
    by (rule step_trans [OF notice_step(1) step_trans [OF step_upd_job fallback_step]])
  define u where "u = (case oc of Returned \<Rightarrow> s | RemoteServerLost reason \<Rightarrow> requeue_after_server_loss jid reason s
    | ProvisionUnavailable reason \<Rightarrow> requeue_after_provision_failure jid reason s
    | RemoteOutcome.Raised msg \<Rightarrow> snd (finalize_unexpected_error jid msg s))"
  have "R s u" using loss prov step_refl unexpected_error_step by (simp add: u_def split: RemoteOutcome.split)
  then have v: "R s (upd_pool (release jid) u)" by (rule step_trans [OF _ step_release])
  then have "R s (upd_pool (forget_losses jid) (upd_pool (release jid) u))"
    unfolding forget_upd by (rule step_trans [OF _ step_retries])
  then show ?thesis
    unfolding drive_remote_end_eq u_def [symmetric] Let_def using v step_trans [OF _ end_run_step] by simp
qed

end

interpretation pool_lock: lock_step "\<lambda>s t. pool_ok s \<longrightarrow> pool_ok t"
proof (unfold_locales)
  fix s c p y n jid rt w b
  show "pool_ok s \<longrightarrow> pool_ok (s\<lparr>cancel_requested := c\<rparr>)" "pool_ok s \<longrightarrow> pool_ok (s\<lparr>spawns := p\<rparr>)"
    "pool_ok s \<longrightarrow> pool_ok (s\<lparr>yaml_files := y\<rparr>)" "pool_ok s \<longrightarrow> pool_ok (s\<lparr>rename_fs_lock := b\<rparr>)"
    "pool_ok s \<longrightarrow> pool_ok (upd_pool (drop_waiting jid) s)"
    "pool_ok s \<longrightarrow> pool_ok (upd_pool (\<lambda>d. d\<lparr>retries := rt d\<rparr>) s)"
    "pool_ok s \<longrightarrow> pool_ok (upd_pool (\<lambda>d. d\<lparr>wake := w\<rparr>) s)"
    by (simp_all add: pool_ok_def)
  show "pool_ok s \<longrightarrow> pool_ok (upd_lane n (lane_release jid) s)" by (simp add: pool_ok_def)
  show "pool_ok s \<longrightarrow> pool_ok (upd_pool (release jid) s)" using pool_ok_release by blast
qed

lemma slots_release: "no_more_slots s (upd_lane n (lane_release jid) s)"
proof -
  have "length (active (get_lane m (upd_lane n (lane_release jid) s))) \<le> length (active (get_lane m s)) \<and>
      max_concurrency (get_lane m (upd_lane n (lane_release jid) s)) = max_concurrency (get_lane m s)" for m
    by (cases n; cases m) (simp_all add: lane_release_def length_keys_pop_le)
  then show ?thesis by (simp add: no_more_slots_def)
qed

interpretation slot_lock: lock_step no_more_slots
  by unfold_locales
    ((rule slots_release | (rule no_more_slots_same, rule get_lane_eqI; simp))+)

interpretation slot_dispatch: dispatch_step no_more_slots
  by unfold_locales (rule no_more_slots_same, rule get_lane_eqI; simp)

interpretation lock_kept: command_frame rename_fs_lock
proof
  fix conf ty kwargs b s jid t
  show "create_job conf ty kwargs b s = (jid, t) \<Longrightarrow> rename_fs_lock t = rename_fs_lock s"
    by (drule create_job_eq) simp
  show "rename_fs_lock (release_lane_slot jid s) = rename_fs_lock s" for jid s
    by (simp add: release_lane_slot_def lane_names_def)
  show "rename_fs_lock (on_job_terminal jid s) = rename_fs_lock s" for jid s
    by (simp add: on_job_terminal_def revert_rename_def)
qed (simp_all add: request_cancel_def terminate_job_process_def)

interpretation lock_dispatch: dispatch_step "\<lambda>s t. rename_fs_lock t = rename_fs_lock s"
  by unfold_locales simp_all

section \<open>The step relation\<close>

record system =
  queue :: fw
  taken :: "(lane_name \<times> string) list"

definition workers_busy :: "lane_name \<Rightarrow> system \<Rightarrow> nat" where
  "workers_busy n sys =
     length (active (get_lane n (queue sys))) + length (filter (\<lambda>e. fst e = n) (taken sys))"

definition drop_task :: "task \<Rightarrow> fw \<Rightarrow> fw" where
  "drop_task tk q = q\<lparr>tasks := remove1 tk (tasks q)\<rparr>"

text \<open>
  A worker takes a job only when one of its lane's workers is idle. A step of a run is one of a job that
  runs, a turn of a worker one of a job that is queued or was cancelled meanwhile, and a driver ends as
  \<open>drive_may_end\<close> says; a driver that could not provision is the case of \<open>RemoteDriver\<close> that leaves the
  invariant. The world outside changes the devices and the servers freely.
\<close>

inductive queue_step :: "host \<Rightarrow> system \<Rightarrow> system \<Rightarrow> bool" for h :: host where
  command: "\<not> clears_active c \<Longrightarrow> queue_step h \<lparr>queue = q, taken = w\<rparr> \<lparr>queue = handle h c q, taken = w\<rparr>"
| device_event: "queue_step h \<lparr>queue = q, taken = w\<rparr>
    \<lparr>queue = handle_device_wake st conf (q\<lparr>devices := ds\<rparr>), taken = w\<rparr>"
| server_event: "queue_step h \<lparr>queue = q, taken = w\<rparr>
    \<lparr>queue = pool_wake_listener et (q\<lparr>offloader := off\<rparr>), taken = w\<rparr>"
| matcher: "queue_step h \<lparr>queue = q, taken = w\<rparr> \<lparr>queue = dispatch_turn q, taken = w\<rparr>"
| finish_task: "FinishEnqueue jid conf \<in> set (tasks q) \<Longrightarrow>
    queue_step h \<lparr>queue = q, taken = w\<rparr>
      \<lparr>queue = finish_enqueue jid conf (drop_task (FinishEnqueue jid conf) q), taken = w\<rparr>"
| revert_task: "RevertRename jid \<in> set (tasks q) \<Longrightarrow> \<not> rename_fs_lock q \<Longrightarrow>
    queue_step h \<lparr>queue = q, taken = w\<rparr>
      \<lparr>queue = revert_rename jid (drop_task (RevertRename jid) q), taken = w\<rparr>"
| take: "take_job n q = Some (jid, q') \<Longrightarrow>
    workers_busy n \<lparr>queue = q, taken = w\<rparr> < max_concurrency (get_lane n q) \<Longrightarrow>
    queue_step h \<lparr>queue = q, taken = w\<rparr> \<lparr>queue = q', taken = w @ [(n, jid)]\<rparr>"
| turn: "(n, jid) \<in> set w \<Longrightarrow> status (store q jid) \<in> {QUEUED, CANCELLED} \<Longrightarrow>
    run_lane_turn n jid q = (r, q') \<Longrightarrow>
    queue_step h \<lparr>queue = q, taken = w\<rparr>
      \<lparr>queue = q', taken = (if r = Waiting then w else remove1 (n, jid) w)\<rparr>"
| spawned: "status (store q jid) = RUNNING \<Longrightarrow>
    queue_step h \<lparr>queue = q, taken = w\<rparr> \<lparr>queue = tracked_spawn jid q, taken = w\<rparr>"
| printed: "status (store q jid) = RUNNING \<Longrightarrow>
    queue_step h \<lparr>queue = q, taken = w\<rparr> \<lparr>queue = ingest_line jid line q, taken = w\<rparr>"
| run_ends: "status (store q jid) = RUNNING \<Longrightarrow> jid \<in> set (active (get_lane n q)) \<Longrightarrow>
    run_end n out jid q = (escapes, q') \<Longrightarrow>
    queue_step h \<lparr>queue = q, taken = w\<rparr> \<lparr>queue = q', taken = w\<rparr>"
| remote_finish: "status (store q jid) = RUNNING \<Longrightarrow> jid \<in> set (in_flight (remote_dispatch q)) \<Longrightarrow>
    st \<in> {COMPLETED, FAILED, CANCELLED} \<Longrightarrow>
    queue_step h \<lparr>queue = q, taken = w\<rparr> \<lparr>queue = snd (finalize_terminal jid st err q), taken = w\<rparr>"
| drive_ends: "DriveRemote jid \<in> set (tasks q) \<Longrightarrow> jid \<in> set (in_flight (remote_dispatch q)) \<Longrightarrow>
    drive_may_end jid oc q \<Longrightarrow>
    queue_step h \<lparr>queue = q, taken = w\<rparr>
      \<lparr>queue = drive_remote_end jid oc (drop_task (DriveRemote jid) q), taken = w\<rparr>"

text \<open>The controller starts with empty lanes and a supply of unused ids.\<close>

definition system_init :: "system \<Rightarrow> bool" where
  "system_init sys \<longleftrightarrow>
     (\<exists>ds off clk ids version. inj ids \<and> [] \<notin> range ids \<and> queue sys = new_fw ds off clk ids version) \<and> taken sys = []"

text \<open>
  The invariant: the queue is well formed (every running job holds a slot, a job with a prerequisite is
  placed only once that completed), every server drives one job at most, no job waits for a prerequisite
  that is gone, a job a worker holds is allowed to run, the workers of a lane are not overcommitted, and
  no rename holds the lock between two steps.
\<close>

definition system_inv :: "system \<Rightarrow> bool" where
  "system_inv sys \<longleftrightarrow>
     wf (queue sys) \<and> pool_ok (queue sys) \<and> (\<forall>i. \<not> orphan (queue sys) i) \<and>
     (\<forall>(n, jid) \<in> set (taken sys). ready (queue sys) jid) \<and>
     (\<forall>n. workers_busy n sys \<le> max_concurrency (get_lane n (queue sys))) \<and> \<not> rename_fs_lock (queue sys)"

lemma system_invD:
  assumes "system_inv \<lparr>queue = q, taken = w\<rparr>"
  shows "wf q" "pool_ok q" "\<not> orphan q i" "(n, jid) \<in> set w \<Longrightarrow> ready q jid"
    "length (active (get_lane n q)) + length (filter (\<lambda>e. fst e = n) w) \<le> max_concurrency (get_lane n q)"
    "\<not> rename_fs_lock q"
  using assms unfolding system_inv_def workers_busy_def by (simp_all only: system.simps) blast+

lemma system_invI:
  assumes "wf q" "pool_ok q" "\<And>i. \<not> orphan q i" "\<And>n jid. (n, jid) \<in> set w \<Longrightarrow> ready q jid"
    "\<And>n. length (active (get_lane n q)) + length (filter (\<lambda>e. fst e = n) w) \<le> max_concurrency (get_lane n q)"
    "\<not> rename_fs_lock q"
  shows "system_inv \<lparr>queue = q, taken = w\<rparr>"
  using assms unfolding system_inv_def workers_busy_def system.simps by blast

text \<open>Any step that keeps the queue and takes no slot keeps the invariant.\<close>

lemma inv_keeps:
  assumes "system_inv \<lparr>queue = q, taken = w\<rparr>" "keeps q q'" "pool_ok q \<longrightarrow> pool_ok q'" "no_more_slots q q'"
    "\<not> rename_fs_lock q'"
  shows "system_inv \<lparr>queue = q', taken = w\<rparr>"
proof (rule system_invI)
  note i = system_invD [OF assms(1)] and k = keepsD [OF assms(2)]
  show "wf q'" "pool_ok q'" "\<not> rename_fs_lock q'" using k(2) assms(3,5) i(2) by blast+
  show "\<not> orphan q' j" for j using k(3) i(3) by blast
  show "ready q' jid" if "(n, jid) \<in> set w" for n jid by (rule ready_evolves [OF k(1) i(4) [OF that]])
  show "length (active (get_lane n q')) + length (filter (\<lambda>e. fst e = n) w) \<le> max_concurrency (get_lane n q')" for n
    using i(5) [of n] assms(4) [unfolded no_more_slots_def, rule_format, of n] by linarith
qed

text \<open>Taking a job off its queue leaves it ready and the rest in place.\<close>

lemma take_job_ok:
  assumes "wf q" "take_job n q = Some (jid, q')"
  shows "keeps q q'" "ready q jid" "pool_ok q' = pool_ok q" "rename_fs_lock q' = rename_fs_lock q"
    "active (get_lane m q') = active (get_lane m q)" "max_concurrency (get_lane m q') = max_concurrency (get_lane m q)"
proof -
  obtain waiting where l: "lane_queue (get_lane n q) = jid # waiting"
    and q': "q' = upd_lane n (\<lambda>l. l\<lparr>lane_queue := waiting\<rparr>) q"
    using assms(2) by (auto simp: take_job_def split: list.splits)
  have m: "active (get_lane m q') = active (get_lane m q)"
    "max_concurrency (get_lane m q') = max_concurrency (get_lane m q)"
    "i \<in> set (lane_queue (get_lane m q')) \<Longrightarrow> i \<in> set (lane_queue (get_lane m q))" for m i
    by (cases n; cases m; use l q' in auto)+
  show "active (get_lane m q') = active (get_lane m q)" "max_concurrency (get_lane m q') = max_concurrency (get_lane m q)"
    by (rule m)+
  have "jid \<in> set (lane_queue (get_lane n q))" using l by simp
  then have "placed q jid" unfolding placed_def by blast
  then show "ready q jid" by (rule ready_placed [OF assms(1)])
  have rd: "remote_dispatch q' = remote_dispatch q" by (simp add: q')
  have "placed q' i \<Longrightarrow> placed q i" for i unfolding placed_def rd m(1) using m(3) by blast
  moreover have "occupied q' i = occupied q i" for i unfolding occupied_def rd m(1) ..
  ultimately have pl: "placed q' i \<Longrightarrow> placed q i" "occupied q' i = occupied q i" for i by blast+
  then show "keeps q q'" by (intro keeps_quiet [OF assms(1)] quiet_same [OF assms(1)]) (simp_all add: q')
  show "pool_ok q' = pool_ok q" "rename_fs_lock q' = rename_fs_lock q" by (simp_all add: pool_ok_def q' rd)
qed

text \<open>A worker's turn: a started job takes the slot its worker kept for it.\<close>

lemma length_filter_remove1:
  "(n, jid) \<in> set w \<Longrightarrow>
   length (filter (\<lambda>e. fst e = m) (remove1 (n, jid) w)) =
     (if m = n then length (filter (\<lambda>e. fst e = m) w) - 1 else length (filter (\<lambda>e. fst e = m) w))"
proof (induction w)
  case (Cons e w)
  show ?case
  proof (cases "e = (n, jid)")
    case False
    then have "(n, jid) \<in> set w" using Cons.prems by simp
    moreover from this have "0 < length (filter (\<lambda>e. fst e = n) w)" by (force simp: filter_empty_conv)
    ultimately show ?thesis using Cons.IH False by auto
  qed auto
qed simp

lemma turn_frames:
  assumes "run_lane_turn n jid q = (r, q')"
  shows "pool_ok q \<longrightarrow> pool_ok q'" "rename_fs_lock q' = rename_fs_lock q"
    "max_concurrency (get_lane m q') = max_concurrency (get_lane m q)"
    "length (active (get_lane m q')) \<le> length (active (get_lane m q)) + (if r = Started \<and> m = n then 1 else 0)"
proof -
  obtain pass g where g: "gate_turn jid q = (pass, g)" by fastforce
  have gs: "pool_ok q \<longrightarrow> pool_ok g" "no_more_slots q g" "rename_fs_lock g = rename_fs_lock q"
    using pool_lock.gate_step [where s = q and jid = jid] slot_lock.gate_step [of q jid]
      lock_dispatch.gate_step [of jid q] g by simp_all
  have rs: "pool_ok u \<longrightarrow> pool_ok (round_end n u)" "no_more_slots u (round_end n u)"
    "rename_fs_lock (round_end n u) = rename_fs_lock u" for u
    using pool_lock.round_end_step [where s = u and n = n] slot_lock.round_end_step [of u n]
      lock_dispatch.round_end_step [of n u] by blast+
  let ?c = "upd_lane n (lane_claim jid) g"
  have cs: "pool_ok g \<longrightarrow> pool_ok (execute_start n jid g)" "no_more_slots ?c (execute_start n jid g)"
    "rename_fs_lock (execute_start n jid g) = rename_fs_lock g"
    using pool_lock.begin_run_step [where s = ?c and jid = jid] slot_lock.begin_run_step [of ?c jid]
      lock_dispatch.begin_run_step [of jid ?c] by (simp_all add: execute_start_def pool_ok_def)
  have lane: "length (active (get_lane m ?c)) \<le> length (active (get_lane m g)) + (if m = n then 1 else 0)"
    "max_concurrency (get_lane m ?c) = max_concurrency (get_lane m g)" for m
    by (cases n; cases m; simp add: lane_claim_def keys_add_def)+
  have "(r, q') \<in> {(Skipped, round_end n q), (Waiting, g), (Skipped, round_end n g), (Started, execute_start n jid g)}"
    using assms g by (auto simp: run_lane_turn_def split: if_splits bool.splits)
  then consider "r = Skipped" "q' = round_end n q" | "r = Waiting" "q' = g" | "r = Skipped" "q' = round_end n g"
    | "r = Started" "q' = execute_start n jid g" by auto
  note cs4 = this
  show "pool_ok q \<longrightarrow> pool_ok q'" "rename_fs_lock q' = rename_fs_lock q"
    by (cases rule: cs4; use gs(1,3) rs(1,3) cs(1,3) in simp)+
  show "max_concurrency (get_lane m q') = max_concurrency (get_lane m q)"
    by (cases rule: cs4; use gs(2) rs(2) cs(2) lane(2) in \<open>simp add: no_more_slots_def\<close>)
  show "length (active (get_lane m q')) \<le> length (active (get_lane m q)) + (if r = Started \<and> m = n then 1 else 0)"
  proof (cases rule: cs4)
    case 1
    then show ?thesis using rs(2) [of q] by (simp add: no_more_slots_def)
  next
    case 2
    then show ?thesis using gs(2) by (simp add: no_more_slots_def)
  next
    case 3
    then show ?thesis using rs(2) [of g, unfolded no_more_slots_def, rule_format, of m] gs(2) [unfolded no_more_slots_def, rule_format, of m] by simp
  next
    case 4
    have "length (active (get_lane m q')) \<le> length (active (get_lane m ?c))"
      "length (active (get_lane m g)) \<le> length (active (get_lane m q))"
      using cs(2) gs(2) 4(2) by (simp_all add: no_more_slots_def)
    then show ?thesis using lane(1) [of m] 4(1) by simp
  qed
qed

lemma turn_inv:
  assumes "system_inv \<lparr>queue = q, taken = w\<rparr>" "(n, jid) \<in> set w" "status (store q jid) \<in> {QUEUED, CANCELLED}"
    "run_lane_turn n jid q = (r, q')"
  shows "system_inv \<lparr>queue = q', taken = (if r = Waiting then w else remove1 (n, jid) w)\<rparr>" "keeps q q'"
proof -
  note i = system_invD [OF assms(1)]
  have k: "keeps q q'" using worker_turn_ok [OF i(1) i(4) [OF assms(2)] assms(3,4)] by blast
  then show "keeps q q'" .
  note kd = keepsD [OF k] and f = turn_frames [OF assms(4)]
  let ?w = "if r = Waiting then w else remove1 (n, jid) w"
  show "system_inv \<lparr>queue = q', taken = ?w\<rparr>"
  proof (rule system_invI)
    show "wf q'" "pool_ok q'" "\<not> rename_fs_lock q'" using kd(2) f(1,2) i(2,6) by blast+
    show "\<not> orphan q' j" for j using kd(3) i(3) by blast
    show "ready q' j" if "(m, j) \<in> set ?w" for m j
    proof -
      have "(m, j) \<in> set w" using that notin_set_remove1 by (metis)
      then show ?thesis using ready_evolves [OF kd(1) i(4)] by blast
    qed
    show "length (active (get_lane m q')) + length (filter (\<lambda>e. fst e = m) ?w) \<le> max_concurrency (get_lane m q')" for m
    proof -
      have "filter (\<lambda>e. fst e = n) w \<noteq> []" using assms(2) by (force simp: filter_empty_conv)
      then obtain k where "length (filter (\<lambda>e. fst e = n) w) = Suc k" by (cases "filter (\<lambda>e. fst e = n) w") auto
      then show ?thesis using i(5) [of m] f(3,4) [of m] length_filter_remove1 [OF assms(2), of m]
        by (cases "m = n") (auto split: if_splits)
    qed
  qed
qed

section \<open>Every step keeps the invariant\<close>

lemma drop_task_ok:
  assumes "system_inv \<lparr>queue = q, taken = w\<rparr>"
  shows "system_inv \<lparr>queue = drop_task tk q, taken = w\<rparr>" "keeps q (drop_task tk q)"
    "store (drop_task tk q) = store q" "remote_dispatch (drop_task tk q) = remote_dispatch q"
proof -
  note i = system_invD [OF assms]
  show k: "keeps q (drop_task tk q)" unfolding drop_task_def by (rule keeps_tasks [OF i(1)])
  show "system_inv \<lparr>queue = drop_task tk q, taken = w\<rparr>"
    using i(6) slot_step.step_tasks [of q "remove1 tk (tasks q)"] pool_step.step_tasks [of q "remove1 tk (tasks q)"]
    by (intro inv_keeps [OF assms k]) (simp_all add: drop_task_def)
  show "store (drop_task tk q) = store q" "remote_dispatch (drop_task tk q) = remote_dispatch q"
    by (simp_all add: drop_task_def)
qed

text \<open>The world outside the queue.\<close>

lemma world_ok:
  assumes "system_inv \<lparr>queue = q, taken = w\<rparr>"
  shows "system_inv \<lparr>queue = q\<lparr>devices := ds\<rparr>, taken = w\<rparr>" "system_inv \<lparr>queue = q\<lparr>offloader := off\<rparr>, taken = w\<rparr>"
  using system_invD(1,6) [OF assms]
  by (auto intro!: inv_keeps [OF assms] keeps_world no_more_slots_same get_lane_eqI simp: pool_ok_def)

lemma in_flight_fresh: "wf q \<Longrightarrow> jid \<in> set (in_flight (remote_dispatch q)) \<Longrightarrow> jid \<notin> fresh_ids q"
  "wf q \<Longrightarrow> jid \<in> set (active (get_lane n q)) \<Longrightarrow> jid \<notin> fresh_ids q"
  using wfD(5) [of q jid] unfolding placed_def by blast+

lemma queue_step_ok:
  assumes "queue_step h sys sys'" "system_inv sys"
  shows "system_inv sys' \<and> keeps (queue sys) (queue sys')"
  using assms
proof (induction rule: queue_step.induct)
  case (command c q w)
  note i = system_invD [OF command(2)]
  have k: "keeps q (handle h c q)" by (rule keeps_handle [OF i(1,6) command(1)])
  have "\<not> rename_fs_lock (handle h c q)"
  proof (cases "\<exists>conf nn. c = Rename conf nn")
    case True
    then show ?thesis using keeps_rename_handler(2) [OF i(1,6)] by auto
  next
    case False
    then show ?thesis using lock_dispatch.handle_step [of c h q] i(6) by blast
  qed
  then show ?case
    using inv_keeps [OF command(2) k pool_lock.command_step slot_lock.command_step] k by simp
next
  case (device_event q w st conf ds)
  let ?q = "q\<lparr>devices := ds\<rparr>"
  note d = world_ok(1) [OF device_event, of ds]
  note i = system_invD [OF d]
  have k: "keeps ?q (handle_device_wake st conf ?q)" by (rule keeps_wake [OF i(1)])
  have "system_inv \<lparr>queue = handle_device_wake st conf ?q, taken = w\<rparr>"
    using lock_kept.kept.device_wake_step [of st conf ?q] i(6)
    by (intro inv_keeps [OF d k pool_step.device_wake_step slot_step.device_wake_step]) simp
  then show ?case
    using keeps_trans [OF system_invD(1) [OF device_event] keeps_world(1) [OF system_invD(1) [OF device_event]] k] by simp
next
  case (server_event q w et off)
  let ?q = "q\<lparr>offloader := off\<rparr>"
  note d = world_ok(2) [OF server_event, of off]
  note i = system_invD [OF d]
  have k: "keeps ?q (pool_wake_listener et ?q)"
    using keeps_world(4) [OF i(1)] keeps_refl [OF i(1)] by (simp add: pool_wake_listener_def)
  have "system_inv \<lparr>queue = pool_wake_listener et ?q, taken = w\<rparr>"
    using pool_lock.step_wake [of ?q] slot_lock.step_wake [of ?q] slot_step.step_refl [of ?q] i(2,6)
    by (intro inv_keeps [OF d k]) (simp_all add: pool_wake_listener_def set_wake_def)
  then show ?case
    using keeps_trans [OF system_invD(1) [OF server_event] keeps_world(2) [OF system_invD(1) [OF server_event]] k] by simp
next
  case (matcher q w)
  note i = system_invD [OF matcher]
  have k: "keeps q (dispatch_turn q)" by (rule keeps_dispatch_turn [OF i(1,2)])
  have p: "pool_ok (dispatch_turn q)"
  proof (cases "offloader q")
    case None
    have "pool_ok u \<longrightarrow> pool_ok (dispatch_pending u)" if "offloader u = None" for u
      using pool_lock.flush_step [of u] that by (simp add: dispatch_pending_def)
    from this [of "set_wake False q"] show ?thesis using i(2) None by (simp add: dispatch_turn_def set_wake_def pool_ok_def)
  next
    case (Some snapshot)
    have "wf (set_wake False q)" by (rule keepsD(2) [OF keeps_world(4) [OF i(1)]])
    then show ?thesis
      using dispatch_pending_ok(2) [of "set_wake False q" snapshot] i(2) Some by (simp add: dispatch_turn_def) (simp add: set_wake_def)
  qed
  show ?case
    using inv_keeps [OF matcher k _ slot_dispatch.dispatch_turn_step] lock_dispatch.dispatch_turn_step [of q] p i(6) k by simp
next
  case (finish_task jid conf q w)
  let ?q = "drop_task (FinishEnqueue jid conf) q"
  note d = drop_task_ok [OF finish_task(2)]
  note i = system_invD [OF d(1)]
  have k: "keeps ?q (finish_enqueue jid conf ?q)" by (rule keeps_finish_enqueue [OF i(1)])
  have "system_inv \<lparr>queue = finish_enqueue jid conf ?q, taken = w\<rparr>"
    using inv_keeps [OF d(1) k pool_step.finish_enqueue_step slot_step.finish_enqueue_step]
      lock_kept.spared.finish_enqueue_step [of jid conf ?q] i(6) by simp
  then show ?case using keeps_trans [OF system_invD(1) [OF finish_task(2)] d(2) k] by simp
next
  case (revert_task jid q w)
  let ?q = "drop_task (RevertRename jid) q"
  note d = drop_task_ok [OF revert_task(3)]
  note i = system_invD [OF d(1)]
  have k: "keeps ?q (revert_rename jid ?q)" by (rule keeps_revert [OF i(1)])
  have "system_inv \<lparr>queue = revert_rename jid ?q, taken = w\<rparr>"
    using inv_keeps [OF d(1) k pool_lock.revert_step slot_lock.revert_step] lock_dispatch.revert_step [of jid ?q] i(6) by simp
  then show ?case using keeps_trans [OF system_invD(1) [OF revert_task(3)] d(2) k] by simp
next
  case (take n q jid q' w)
  note i = system_invD [OF take(3)] and t = take_job_ok [OF system_invD(1) [OF take(3)] take(1)]
  note kd = keepsD [OF t(1)]
  have "system_inv \<lparr>queue = q', taken = w @ [(n, jid)]\<rparr>"
  proof (rule system_invI)
    show "wf q'" "pool_ok q'" "\<not> rename_fs_lock q'" using kd(2) i(2,6) t(3,4) by simp_all
    show "\<not> orphan q' j" for j using kd(3) i(3) by blast
    show "ready q' j" if "(m, j) \<in> set (w @ [(n, jid)])" for m j
    proof -
      have "ready q j" using that t(2) i(4) by auto
      then show ?thesis by (rule ready_evolves [OF kd(1)])
    qed
    show "length (active (get_lane m q')) + length (filter (\<lambda>e. fst e = m) (w @ [(n, jid)])) \<le> max_concurrency (get_lane m q')" for m
      using i(5) [of m] take(2) t(5,6) [of m] by (auto simp: workers_busy_def)
  qed
  then show ?case using t(1) by simp
next
  case (turn n jid w q r q')
  then show ?case using turn_inv by simp
next
  case (spawned q jid w)
  note i = system_invD [OF spawned(2)]
  have k: "keeps q (tracked_spawn jid q)" by (rule keeps_spawn [OF i(1)])
  show ?case
    using inv_keeps [OF spawned(2) k pool_lock.tracked_spawn_step slot_lock.tracked_spawn_step]
      lock_dispatch.tracked_spawn_step [of jid q] i(6) k by simp
next
  case (printed q jid w line)
  note i = system_invD [OF printed(2)]
  have k: "keeps q (ingest_line jid line q)" using printed(1) by (intro keeps_line [OF i(1)]) (simp add: is_active_iff)
  show ?case
    using inv_keeps [OF printed(2) k pool_lock.notice_step(2) slot_lock.notice_step(2)]
      lock_dispatch.notice_step(2) [of jid line q] i(6) k by simp
next
  case (run_ends q jid n out escapes q' w)
  note i = system_invD [OF run_ends(4)]
  have k: "keeps q q'" by (rule run_end_ok(1) [OF i(1) in_flight_fresh(2) [OF i(1) run_ends(2)] run_ends(1,3)])
  have e: "q' = snd (run_end n out jid q)" using run_ends(3) by simp
  have "system_inv \<lparr>queue = q', taken = w\<rparr>"
    using inv_keeps [OF run_ends(4) k] pool_lock.run_end_step [of q n out jid] slot_lock.run_end_step [of q n out jid]
      lock_dispatch.run_end_step [of n out jid q] i(6) by (simp add: e)
  then show ?case using k by simp
next
  case (remote_finish q jid st w err)
  note i = system_invD [OF remote_finish(4)]
  have k: "keeps q (snd (finalize_terminal jid st err q))"
    using remote_finish(1,3) by (intro keeps_finalize(1) [OF i(1) in_flight_fresh(1) [OF i(1) remote_finish(2)]])
      (auto simp: is_active_iff)
  show ?case
    using inv_keeps [OF remote_finish(4) k pool_step.finalize_step slot_step.finalize_step]
      lock_kept.kept.finalize_step [of jid st err q] i(6) k by simp
next
  case (drive_ends jid q oc w)
  let ?q = "drop_task (DriveRemote jid) q"
  note d = drop_task_ok [OF drive_ends(4), of "DriveRemote jid"]
  note i = system_invD [OF d(1)]
  have m: "drive_may_end jid oc ?q" "jid \<in> set (in_flight (remote_dispatch ?q))"
    using drive_ends(2,3) unfolding drive_may_end_def d(3,4) by blast+
  note k = keeps_drive_end [OF i(1,2) m(2,1)]
  have "system_inv \<lparr>queue = drive_remote_end jid oc ?q, taken = w\<rparr>"
    using inv_keeps [OF d(1) k(1) _ slot_dispatch.drive_end_step] lock_dispatch.drive_end_step [of jid oc ?q] k(2) i(6) by simp
  then show ?case using keeps_trans [OF system_invD(1) [OF drive_ends(4)] d(2) k(1)] by simp
qed

section \<open>In every reachable state\<close>

lemma system_inv_init:
  assumes "system_init sys"
  shows "system_inv sys"
proof -
  obtain ds off clk ids version where ids: "inj ids" "[] \<notin> range ids"
    and q: "queue sys = new_fw ds off clk ids version" and w: "taken sys = []"
    using assms unfolding system_init_def by blast
  let ?q = "new_fw ds off clk ids version"
  have l: "active (get_lane n ?q) = []" for n
    by (cases n) (simp_all add: new_fw_def new_lane_def)
  have "system_inv \<lparr>queue = ?q, taken = []\<rparr>"
  proof (rule system_invI)
    show "wf ?q" by (rule wf_new_fw [OF ids])
    show "pool_ok ?q" by (simp add: pool_ok_def new_pool_def new_fw_def)
    show "\<not> orphan ?q k" for k by (simp add: orphan_def held_def new_fw_def)
    show "\<not> rename_fs_lock ?q" by (simp add: new_fw_def)
  qed (simp_all add: l)
  moreover have "sys = \<lparr>queue = ?q, taken = []\<rparr>" using q w by simp
  ultimately show ?thesis by metis
qed

interpretation queue_machine: state_machine system_init "queue_step h" system_inv
  using system_inv_init queue_step_ok by unfold_locales blast+

text \<open>A compile from the dashboard, taken by the worker of the compile lane and started.\<close>

definition ex_host :: host where
  "ex_host = \<lparr>path_of = Inr, port_type = (\<lambda>p. SERIAL), ip_address = (\<lambda>c. None),
     rewrite_content = (\<lambda>c n. Inr c), resolved_name = (\<lambda>c f. f), stored_address = None\<rparr>"

definition ex_compiled :: fw where
  "ex_compiled = handle ex_host (Compile ''a.yaml'' True) ex_fw"

definition ex_running :: fw where
  "ex_running = snd (run_lane_turn CompileLane ''u0'' (snd (the (take_job CompileLane ex_compiled))))"

lemma ex_running_reachable:
  "reachable system_init (queue_step ex_host) \<lparr>queue = ex_running, taken = []\<rparr>"
proof -
  let ?t = "snd (the (take_job CompileLane ex_compiled))"
  have "system_init \<lparr>queue = ex_fw, taken = []\<rparr>"
    using ex_ids_ok unfolding system_init_def ex_fw_def system.simps by blast
  then have "reachable system_init (queue_step ex_host) \<lparr>queue = ex_fw, taken = []\<rparr>" by (rule reachable_init)
  moreover have "queue_step ex_host \<lparr>queue = ex_fw, taken = []\<rparr> \<lparr>queue = ex_compiled, taken = []\<rparr>"
    unfolding ex_compiled_def by (rule queue_step.command) (simp add: clears_active_def)
  ultimately have c: "reachable system_init (queue_step ex_host) \<lparr>queue = ex_compiled, taken = []\<rparr>"
    by (rule reachable_step)
  have "lane_queue (get_lane CompileLane ex_compiled) = [''u0'']" by code_simp
  then have "take_job CompileLane ex_compiled = Some (''u0'', ?t)" by (simp add: take_job_def)
  moreover have "workers_busy CompileLane \<lparr>queue = ex_compiled, taken = []\<rparr> < max_concurrency (get_lane CompileLane ex_compiled)"
    by code_simp
  ultimately have "queue_step ex_host \<lparr>queue = ex_compiled, taken = []\<rparr> \<lparr>queue = ?t, taken = [] @ [(CompileLane, ''u0'')]\<rparr>"
    by (rule queue_step.take)
  with c have t: "reachable system_init (queue_step ex_host) \<lparr>queue = ?t, taken = [(CompileLane, ''u0'')]\<rparr>"
    by (metis append_Nil reachable_step)
  have "run_lane_turn CompileLane ''u0'' ?t = (fst (run_lane_turn CompileLane ''u0'' ?t), ex_running)"
    by (simp add: ex_running_def)
  moreover have "fst (run_lane_turn CompileLane ''u0'' ?t) \<noteq> Waiting" by code_simp
  moreover have "status (store ?t ''u0'') \<in> {QUEUED, CANCELLED}" by code_simp
  ultimately have "queue_step ex_host \<lparr>queue = ?t, taken = [(CompileLane, ''u0'')]\<rparr> \<lparr>queue = ex_running, taken = []\<rparr>"
    using queue_step.turn [of CompileLane "''u0''" "[(CompileLane, ''u0'')]" ?t] by fastforce
  with t show ?thesis by (rule reachable_step)
qed





end
