(* ===== verification/DebouncedStore.thy ===== *)
theory DebouncedStore
  imports Prelude
begin

text \<open>
  \<open>helpers/storage.py\<close>: the debounced writer of one JSON file. Its consumer keeps the value in RAM and hands
  over \<open>data_func\<close>, which reads that value when the write starts, so here it is a flag. The coroutines are
  numbered tasks: one that waits for the write lock is in \<open>lock_queue\<close>, the one that holds it is in
  \<open>write_lock\<close> with the value it took, a \<open>async_save_now\<close> that awaits the timer's write is in \<open>savers\<close>.
  Each step is what runs between two awaits, a write ends with success or failure, and the steps interleave
  freely. \<open>finished\<close> (the tasks that ended, the calls of \<open>async_save_now\<close> that returned among them) and \<open>behind\<close> (the file is known to
  be older than the value: nothing was written yet, or the last write failed) are kept for the statements.
\<close>

section \<open>The store\<close>

record 'v DStore =
  ram :: 'v
  data_func :: bool
  delay_handle :: "real option"
  next_write_time :: real
  write_lock :: "(nat \<times> 'v) option"
  lock_queue :: "nat list"
  inflight_write :: "nat option"
  savers :: "(nat \<times> nat) list"
  next_task :: nat
  disk :: "'v option"
  behind :: bool
  finished :: "nat list"

definition new_DStore :: "'v \<Rightarrow> 'v option \<Rightarrow> 'v DStore" where
  "new_DStore v file = \<lparr>ram = v, data_func = False, delay_handle = None, next_write_time = 0, write_lock = None,
     lock_queue = [], inflight_write = None, savers = [], next_task = 0, disk = file,
     behind = (file = None), finished = []\<rparr>"

text \<open>\<open>async_delay_save\<close> at the loop time \<open>now\<close>: an earlier timer stays and reschedules itself.\<close>

definition async_delay_save :: "real \<Rightarrow> real \<Rightarrow> 'v DStore \<Rightarrow> 'v DStore" where
  "async_delay_save now delay s =
     (let s1 = s\<lparr>data_func := True, next_write_time := now + delay\<rparr>
      in case delay_handle s of
           Some w \<Rightarrow> if w < now + delay then s1 else s1\<lparr>delay_handle := Some (now + delay)\<rparr>
         | None \<Rightarrow> s1\<lparr>delay_handle := Some (now + delay)\<rparr>)"

definition on_delay_handle_fire :: "real \<Rightarrow> 'v DStore \<Rightarrow> 'v DStore" where
  "on_delay_handle_fire now s =
     (if now < next_write_time s then s\<lparr>delay_handle := Some (next_write_time s)\<rparr>
      else s\<lparr>delay_handle := None, inflight_write := Some (next_task s),
             lock_queue := lock_queue s @ [next_task s], next_task := Suc (next_task s)\<rparr>)"

text \<open>\<open>_async_handle_write\<close> of the task \<open>t\<close>: up to the write, once it has the lock, and from the write on.\<close>

definition handle_write_begin :: "nat \<Rightarrow> 'v DStore \<Rightarrow> 'v DStore" where
  "handle_write_begin t s =
     (let s1 = s\<lparr>lock_queue := remove1 t (lock_queue s), data_func := False\<rparr>
      in if data_func s then s1\<lparr>write_lock := Some (t, ram s)\<rparr> else s1\<lparr>finished := t # finished s\<rparr>)"

definition handle_write_end :: "nat \<Rightarrow> 'v \<Rightarrow> bool \<Rightarrow> 'v DStore \<Rightarrow> 'v DStore" where
  "handle_write_end t v success s =
     (let s1 = s\<lparr>write_lock := None, finished := t # finished s\<rparr>
      in if success then s1\<lparr>disk := Some v, behind := False\<rparr> else s1\<lparr>behind := True\<rparr>)"

definition task_done :: "nat \<Rightarrow> 'v DStore \<Rightarrow> bool" where
  "task_done t s \<longleftrightarrow> t \<notin> set (lock_queue s) \<and> (\<forall>v. write_lock s \<noteq> Some (t, v))"

text \<open>The last lines of \<open>async_save_now\<close>: write what is queued, or return.\<close>

definition save_now_flush :: "nat \<Rightarrow> 'v DStore \<Rightarrow> 'v DStore" where
  "save_now_flush t s =
     (if data_func s then s\<lparr>lock_queue := lock_queue s @ [t]\<rparr> else s\<lparr>finished := t # finished s\<rparr>)"

definition async_save_now :: "'v DStore \<Rightarrow> 'v DStore" where
  "async_save_now s =
     (let t = next_task s; s1 = s\<lparr>delay_handle := None, next_task := Suc t\<rparr>
      in case inflight_write s of
           Some w \<Rightarrow> if task_done w s then save_now_flush t s1 else s1\<lparr>savers := (t, w) # savers s\<rparr>
         | None \<Rightarrow> save_now_flush t s1)"

definition save_now_resume :: "nat \<times> nat \<Rightarrow> 'v DStore \<Rightarrow> 'v DStore" where
  "save_now_resume e s = save_now_flush (fst e) (s\<lparr>savers := remove1 e (savers s)\<rparr>)"

section \<open>The step relation\<close>

text \<open>The steps the store takes by itself, once the consumer leaves its value alone.\<close>

inductive internal_step :: "'v DStore \<Rightarrow> 'v DStore \<Rightarrow> bool" where
  fires: "delay_handle s = Some w \<Longrightarrow> w \<le> now \<Longrightarrow> internal_step s (on_delay_handle_fire now s)"
| begins: "t \<in> set (lock_queue s) \<Longrightarrow> write_lock s = None \<Longrightarrow> internal_step s (handle_write_begin t s)"
| ends: "write_lock s = Some (t, v) \<Longrightarrow> internal_step s (handle_write_end t v success s)"
| resumes: "(t, w) \<in> set (savers s) \<Longrightarrow> task_done w s \<Longrightarrow> internal_step s (save_now_resume (t, w) s)"

inductive_cases internal_stepE: "internal_step s s'"

text \<open>The consumer changes its value and schedules a save in one go, and may ask for a flush at any time.\<close>

inductive store_step :: "'v DStore \<Rightarrow> 'v DStore \<Rightarrow> bool" where
  changes: "store_step s (async_delay_save now delay (s\<lparr>ram := v\<rparr>))"
| flushes: "store_step s (async_save_now s)"
| internal: "internal_step s s' \<Longrightarrow> store_step s s'"

definition store_init :: "'v DStore \<Rightarrow> bool" where
  "store_init s \<longleftrightarrow> (\<exists>v. s = new_DStore v (Some v) \<or> s = new_DStore v None)"

text \<open>
  What is captured will be taken by someone, and what was taken agrees with the value in RAM unless a newer one
  is captured. \<open>R\<close> says when a file agrees with a value: equality, or less for a consumer that leaves some
  changes unsaved.
\<close>

definition store_inv :: "('v \<Rightarrow> 'v \<Rightarrow> bool) \<Rightarrow> 'v DStore \<Rightarrow> bool" where
  "store_inv R s \<longleftrightarrow>
     (data_func s \<longrightarrow> delay_handle s \<noteq> None \<or> lock_queue s \<noteq> [] \<or> savers s \<noteq> []) \<and>
     (\<not> data_func s \<longrightarrow>
        (case write_lock s of
           Some (t, v) \<Rightarrow> R v (ram s)
         | None \<Rightarrow> (\<exists>d. disk s = Some d \<and> R d (ram s)) \<or> behind s))"

lemma store_inv_mono: "store_inv R s \<Longrightarrow> (\<And>d v. R d v \<Longrightarrow> R' d v) \<Longrightarrow> store_inv R' s"
  by (auto simp: store_inv_def split: option.splits)

text \<open>A change that the consumer does not ask to save.\<close>

lemma store_inv_refresh: "store_inv R s \<Longrightarrow> (\<And>d. R d (ram s) \<Longrightarrow> R d v) \<Longrightarrow> store_inv R (s\<lparr>ram := v\<rparr>)"
  by (auto simp: store_inv_def split: option.splits)

lemmas store_defs = async_delay_save_def on_delay_handle_fire_def handle_write_begin_def handle_write_end_def
  save_now_flush_def async_save_now_def save_now_resume_def

lemma store_inv_init: "R v v \<Longrightarrow> store_inv R (new_DStore v (Some v))" "store_inv R (new_DStore v None)"
  by (auto simp: store_inv_def new_DStore_def)

lemma store_inv_internal: "internal_step s s' \<Longrightarrow> R (ram s) (ram s) \<Longrightarrow> store_inv R s \<Longrightarrow> store_inv R s'"
  by (induction rule: internal_step.induct)
    (auto simp: store_inv_def store_defs Let_def split: option.splits if_splits dest: notin_set_remove1)

lemma store_inv_changes: "store_inv R (async_delay_save now delay s)"
  by (auto simp: store_inv_def async_delay_save_def Let_def split: option.splits)

lemma store_inv_flushes: "store_inv R s \<Longrightarrow> store_inv R (async_save_now s)"
  by (auto simp: store_inv_def async_save_now_def save_now_flush_def Let_def split: option.splits if_splits)

lemma store_inv_step: "store_step s s' \<Longrightarrow> store_inv (=) s \<Longrightarrow> store_inv (=) s'"
  by (induction rule: store_step.induct) (auto intro: store_inv_internal store_inv_changes store_inv_flushes)

interpretation json_store: state_machine store_init store_step "store_inv (=)"
  using store_inv_init [of "(=)"] store_inv_step by unfold_locales (auto simp: store_init_def)

section \<open>Every save is written\<close>

text \<open>
  How much is left to do. A timer fires at most twice, once to reschedule itself.
\<close>

definition store_work :: "'v DStore \<Rightarrow> nat" where
  "store_work s =
     (case delay_handle s of None \<Rightarrow> 0 | Some w \<Rightarrow> if w < next_write_time s then 8 else 4) +
     3 * length (savers s) + 2 * length (lock_queue s) + (if write_lock s = None then 0 else 1)"

lemma store_work_less: "internal_step s s' \<Longrightarrow> store_work s' < store_work s"
proof (induction rule: internal_step.induct)
  case (begins t s)
  then obtain n where "length (lock_queue s) = Suc n" by (cases "lock_queue s") auto
  then show ?case using begins
    by (auto simp: store_work_def handle_write_begin_def Let_def length_remove1 split: option.split)
next
  case (resumes t w s)
  then obtain n where "length (savers s) = Suc n" by (cases "savers s") auto
  then show ?case using resumes
    by (auto simp: store_work_def save_now_resume_def save_now_flush_def length_remove1 split: option.split)
qed (auto simp: store_work_def on_delay_handle_fire_def handle_write_end_def Let_def split: option.split)

text \<open>Nothing blocks: as long as something is captured, queued or awaited, some step is possible.\<close>

lemma store_stuck:
  assumes "\<And>s'. \<not> internal_step s s'"
  shows "delay_handle s = None \<and> lock_queue s = [] \<and> savers s = [] \<and> write_lock s = None"
proof -
  have d: "delay_handle s = None" using assms fires [of s _ "the (delay_handle s)"] by (cases "delay_handle s") auto
  have l: "write_lock s = None" using assms ends [of s] by (cases "write_lock s") auto
  have q: "lock_queue s = []" using assms begins [OF _ l] by (cases "lock_queue s") auto
  have "savers s = []" using assms resumes [of _ _ s] l q by (cases "savers s") (auto simp: task_done_def)
  then show ?thesis using d l q by blast
qed

lemma settled:
  assumes "store_inv R s" "\<And>s'. \<not> internal_step s s'"
  shows "\<not> data_func s \<and> ((\<exists>d. disk s = Some d \<and> R d (ram s)) \<or> behind s)"
  using store_stuck [OF assms(2)] assms(1) by (auto simp: store_inv_def)


section \<open>The copies of the value\<close>

text \<open>What is in RAM, on its way to the disk or on the disk, for consumers that state what is true of all of it.\<close>

definition copies :: "'v DStore \<Rightarrow> 'v set" where
  "copies f = insert (ram f) ({v. \<exists>t. write_lock f = Some (t, v)} \<union> {v. disk f = Some v})"

text \<open>The copies after each kind of step of the file.\<close>

lemma copies_ram: "copies (f\<lparr>ram := v\<rparr>) \<subseteq> insert v (copies f)"
  by (auto simp: copies_def)

lemma copies_quiet [simp]:
  "copies (async_delay_save now delay f) = copies f" "copies (async_save_now f) = copies f"
  by (auto simp: copies_def async_delay_save_def async_save_now_def save_now_flush_def Let_def split: option.split)

lemma ram_quiet [simp]:
  "ram (async_delay_save now delay f) = ram f" "ram (async_save_now f) = ram f"
  by (auto simp: async_delay_save_def async_save_now_def save_now_flush_def Let_def split: option.split)

lemma copies_internal: "internal_step f f' \<Longrightarrow> copies f' \<subseteq> copies f \<and> ram f' = ram f"
  by (induction rule: internal_step.induct) (auto simp: copies_def store_defs Let_def split: if_splits)

section \<open>What a flush promises\<close>

text \<open>
  Two flushes that wait for the same timer's write: the first to resume takes what both of them queued, the
  second finds nothing captured.
\<close>

definition ex_store :: "nat DStore" where
  "ex_store = new_DStore 0 (Some 0)"

definition ex_delayed :: "nat DStore" where
  "ex_delayed = handle_write_begin 0 (on_delay_handle_fire 0 (async_delay_save 0 0 (ex_store\<lparr>ram := 1\<rparr>)))"

definition ex_first :: "nat DStore" where
  "ex_first = async_save_now (async_delay_save 0 0 (ex_delayed\<lparr>ram := 2\<rparr>))"

definition ex_second :: "nat DStore" where
  "ex_second = async_delay_save 0 0 (ex_first\<lparr>ram := 3\<rparr>)"

definition ex_returned :: "nat DStore" where
  "ex_returned = save_now_resume (2, 0)
     (handle_write_begin 1 (save_now_resume (1, 0) (handle_write_end 0 1 True (async_save_now ex_second))))"

lemmas ex_defs = ex_returned_def ex_second_def ex_first_def ex_delayed_def ex_store_def new_DStore_def store_defs
  task_done_def

lemma ex_delayed_reachable: "reachable store_init store_step ex_delayed"
proof -
  let ?t = "async_delay_save 0 0 (ex_store\<lparr>ram := 1\<rparr>)"
  have "reachable store_init store_step ex_store" by (rule reachable_init) (auto simp: store_init_def ex_store_def)
  then have "reachable store_init store_step ?t" by (rule reachable_step) (rule changes)
  then have "reachable store_init store_step (on_delay_handle_fire 0 ?t)"
    by (rule reachable_step) (intro internal fires [where w = 0], simp_all add: ex_defs)
  then show ?thesis unfolding ex_delayed_def
    by (rule reachable_step) (intro internal begins, simp_all add: ex_defs Let_def)
qed

text \<open>The write of the timer goes through, and the store has nothing left to do.\<close>

definition ex_settled :: "nat DStore" where
  "ex_settled = handle_write_end 0 1 True ex_delayed"

lemma ex_settled_stuck: "\<not> internal_step ex_settled s'"
  by (auto simp: ex_settled_def ex_defs Let_def elim: internal_stepE)


lemma ex_race:
  "reachable store_init store_step ex_second" "store_step\<^sup>*\<^sup>* (async_save_now ex_second) ex_returned"
proof -
  let ?u = "async_delay_save 0 0 (ex_delayed\<lparr>ram := 2\<rparr>)"
  have "reachable store_init store_step ?u" by (rule reachable_step [OF ex_delayed_reachable]) (rule changes)
  then have "reachable store_init store_step ex_first" unfolding ex_first_def by (rule reachable_step) (rule flushes)
  then show "reachable store_init store_step ex_second" unfolding ex_second_def by (rule reachable_step) (rule changes)
  let ?a = "async_save_now ex_second" let ?b = "handle_write_end 0 1 True ?a"
  let ?c = "save_now_resume (1, 0) ?b" let ?d = "handle_write_begin 1 ?c"
  have "store_step ?a ?b" by (intro internal ends) (simp add: ex_defs Let_def)
  moreover have "store_step ?b ?c" by (intro internal resumes) (simp_all add: ex_defs Let_def)
  moreover have "store_step ?c ?d" by (intro internal begins) (simp_all add: ex_defs Let_def)
  moreover have "store_step ?d ex_returned" unfolding ex_returned_def
    by (intro internal resumes) (simp_all add: ex_defs Let_def)
  ultimately show "store_step\<^sup>*\<^sup>* ?a ex_returned" by (meson converse_rtranclp_into_rtranclp rtranclp.rtrancl_refl)
qed

text \<open>
  C16. \<open>async_save_now\<close> can return while what it was asked to flush is not on disk and no write has failed: a
  change, scheduled and flushed in one go, is taken by another flush that waited for the same timer's write,
  and the call returns while that other write is still going on. A crash then loses the change.
\<close>
theorem save_now_returns_early:
  "\<exists>(s :: nat DStore) t. reachable store_init store_step s \<and> data_func s \<and>
     store_step\<^sup>*\<^sup>* (async_save_now s) t \<and> next_task s \<in> set (finished t) \<and> ram t = ram s \<and>
     disk t \<noteq> Some (ram s) \<and> \<not> behind t"
  using ex_race by (intro exI [of _ ex_second] exI [of _ ex_returned]) (simp add: ex_defs Let_def)

end
