(* ===== verification/Sessions.thy ===== *)
theory Sessions
  imports DebouncedStore
begin

text \<open>
  The session store of \<open>helpers/auth.py\<close> on top of the debounced store: tokens with a sliding expiry, a dictionary
  in RAM that is written after a login, a logout, an expiry and at most hourly for a use. Wall-clock and loop
  time are arguments. \<open>session_step\<close> runs the store under every order of logins, uses, logouts, writes and
  restarts, with the tokens handed out, the tokens revoked and the last use of each kept beside it.
\<close>

section \<open>The store\<close>

definition TOKEN_TTL_SECONDS :: real where
  "TOKEN_TTL_SECONDS = 30 * 24 * 3600"

definition PERSIST_DEBOUNCE_SECONDS :: real where
  "PERSIST_DEBOUNCE_SECONDS = 3600"

record Session =
  se_token :: string
  se_created_at :: real
  se_last_used_at :: real
  se_expires_at :: real

definition is_expired :: "real \<Rightarrow> Session \<Rightarrow> bool" where
  "is_expired now se \<longleftrightarrow> se_expires_at se \<le> now"

type_synonym session_dict = "(string, Session) dict"

record SessionStore =
  ttl :: real
  persisted_expires :: "(string, real) dict"
  session_file :: "session_dict DStore"

abbreviation sessions :: "SessionStore \<Rightarrow> session_dict" where
  "sessions st \<equiv> ram (session_file st)"

definition new_SessionStore :: "real \<Rightarrow> session_dict option \<Rightarrow> SessionStore" where
  "new_SessionStore t file = \<lparr>ttl = t, persisted_expires = [], session_file = new_DStore [] file\<rparr>"

text \<open>
  \<open>_encode\<close> writes the rows, \<open>_decode\<close> reads them back: a row that cannot be read is skipped (\<open>None\<close>), and so
  is an expired one.
\<close>

definition encode_sessions :: "session_dict \<Rightarrow> Session list" where
  "encode_sessions d = dict_values d"

definition decode_row :: "real \<Rightarrow> Session option \<Rightarrow> session_dict \<Rightarrow> session_dict" where
  "decode_row now row d =
     (case row of
        None \<Rightarrow> d
      | Some se \<Rightarrow> if is_expired now se then d else dict_set (se_token se) se d)"

definition decode_sessions :: "real \<Rightarrow> Session option list \<Rightarrow> session_dict" where
  "decode_sessions now rows = fold (decode_row now) rows []"

definition load_sessions :: "real \<Rightarrow> SessionStore \<Rightarrow> SessionStore" where
  "load_sessions now st =
     (case disk (session_file st) of
        None \<Rightarrow> st
      | Some d \<Rightarrow>
          let loaded = decode_sessions now (map Some (encode_sessions d))
          in st\<lparr>session_file := (session_file st)\<lparr>ram := loaded\<rparr>,
                persisted_expires := map (\<lambda>(t, se). (t, se_expires_at se)) loaded\<rparr>)"

definition put_sessions :: "session_dict \<Rightarrow> SessionStore \<Rightarrow> SessionStore" where
  "put_sessions d st = st\<lparr>session_file := (session_file st)\<lparr>ram := d\<rparr>\<rparr>"

definition schedule_save :: "real \<Rightarrow> SessionStore \<Rightarrow> SessionStore" where
  "schedule_save lnow st = st\<lparr>session_file := async_delay_save lnow 0 (session_file st)\<rparr>"

definition save_now :: "real \<Rightarrow> SessionStore \<Rightarrow> SessionStore" where
  "save_now lnow st = (let st1 = schedule_save lnow st in st1\<lparr>session_file := async_save_now (session_file st1)\<rparr>)"

definition create_session :: "real \<Rightarrow> real \<Rightarrow> string \<Rightarrow> SessionStore \<Rightarrow> Session \<times> SessionStore" where
  "create_session now lnow token st =
     (let se = \<lparr>se_token = token, se_created_at = now, se_last_used_at = now, se_expires_at = now + ttl st\<rparr>;
          st1 = put_sessions (dict_set token se (sessions st)) st;
          st2 = st1\<lparr>persisted_expires := dict_set token (se_expires_at se) (persisted_expires st1)\<rparr>
      in (se, save_now lnow st2))"

definition validate_token :: "real \<Rightarrow> real \<Rightarrow> string \<Rightarrow> SessionStore \<Rightarrow> Session option \<times> SessionStore" where
  "validate_token now lnow token st =
     (if token = [] then (None, st)
      else case dict_get (sessions st) token of
        None \<Rightarrow> (None, st)
      | Some se \<Rightarrow>
          if is_expired now se
          then (None, schedule_save lnow ((put_sessions (dict_pop token (sessions st)) st)
                        \<lparr>persisted_expires := dict_pop token (persisted_expires st)\<rparr>))
          else let se1 = se\<lparr>se_last_used_at := now, se_expires_at := now + ttl st\<rparr>;
                   st1 = put_sessions (dict_set token se1 (sessions st)) st;
                   written = (case dict_get (persisted_expires st1) token of None \<Rightarrow> 0 | Some e \<Rightarrow> e)
               in (Some se1,
                   if PERSIST_DEBOUNCE_SECONDS \<le> se_expires_at se1 - written
                   then schedule_save lnow
                     (st1\<lparr>persisted_expires := dict_set token (se_expires_at se1) (persisted_expires st1)\<rparr>)
                   else st1))"

definition revoke :: "real \<Rightarrow> string \<Rightarrow> SessionStore \<Rightarrow> SessionStore" where
  "revoke lnow token st =
     (if dict_get (sessions st) token = None then st
      else save_now lnow ((put_sessions (dict_pop token (sessions st)) st)
             \<lparr>persisted_expires := dict_pop token (persisted_expires st)\<rparr>))"

definition revoke_all :: "real \<Rightarrow> SessionStore \<Rightarrow> SessionStore" where
  "revoke_all lnow st = save_now lnow ((put_sessions [] st)\<lparr>persisted_expires := []\<rparr>)"

definition active_count :: "SessionStore \<Rightarrow> nat" where
  "active_count st = length (sessions st)"

section \<open>The step relation\<close>

record session_sys =
  store_of :: SessionStore
  clk :: real
  issued :: "string set"
  revoked :: "string set"
  used_at :: "string \<Rightarrow> real"

text \<open>
  A restart finds a file that its predecessor had finished writing; a crash in the middle of a write can bring
  a revoked token back, as \<open>save_now_returns_early\<close> shows, and is left out.
\<close>

inductive session_step :: "session_sys \<Rightarrow> session_sys \<Rightarrow> bool" where
  mints: "clk s \<le> now \<Longrightarrow> token \<notin> issued s \<Longrightarrow> token \<noteq> [] \<Longrightarrow> create_session now lnow token (store_of s) = (se, st) \<Longrightarrow>
    session_step s (s\<lparr>store_of := st, clk := now, issued := insert token (issued s), used_at := (used_at s)(token := now)\<rparr>)"
| accepts: "clk s \<le> now \<Longrightarrow> validate_token now lnow token (store_of s) = (Some se, st) \<Longrightarrow>
    session_step s (s\<lparr>store_of := st, clk := now, used_at := (used_at s)(token := now)\<rparr>)"
| rejects: "clk s \<le> now \<Longrightarrow> validate_token now lnow token (store_of s) = (None, st) \<Longrightarrow>
    session_step s (s\<lparr>store_of := st, clk := now\<rparr>)"
| revokes: "session_step s (s\<lparr>store_of := revoke lnow token (store_of s), revoked := insert token (revoked s) \<inter> issued s\<rparr>)"
| revokes_all: "session_step s (s\<lparr>store_of := revoke_all lnow (store_of s), revoked := issued s\<rparr>)"
| writes: "internal_step (session_file (store_of s)) f \<Longrightarrow>
    session_step s (s\<lparr>store_of := (store_of s)\<lparr>session_file := f\<rparr>\<rparr>)"
| restarts: "clk s \<le> now \<Longrightarrow> \<forall>f. \<not> internal_step (session_file (store_of s)) f \<Longrightarrow> \<not> behind (session_file (store_of s)) \<Longrightarrow>
    session_step s (s\<lparr>store_of := load_sessions now (new_SessionStore (ttl (store_of s)) (disk (session_file (store_of s)))),
                     clk := now\<rparr>)"

definition session_init :: "session_sys \<Rightarrow> bool" where
  "session_init s \<longleftrightarrow> store_of s = new_SessionStore (ttl (store_of s)) None \<and> issued s = {} \<and> revoked s = {} \<and>
     (\<forall>t. used_at s t \<le> clk s)"

section \<open>The invariant\<close>

text \<open>What every dictionary of sessions satisfies that is in RAM, on its way to the disk or on the disk.\<close>

definition genuine :: "session_sys \<Rightarrow> session_dict \<Rightarrow> bool" where
  "genuine s d \<longleftrightarrow> dict_ok d \<and>
     (\<forall>(t, se) \<in> set d. se_token se = t \<and> t \<noteq> [] \<and> t \<in> issued s \<and> se_expires_at se \<le> used_at s t + ttl (store_of s))"

text \<open>A file agrees with the RAM when every token in it is in RAM or has expired.\<close>

definition covered :: "real \<Rightarrow> session_dict \<Rightarrow> session_dict \<Rightarrow> bool" where
  "covered now d v \<longleftrightarrow> (\<forall>(t, se) \<in> set d. t \<in> set (dict_keys v) \<or> se_expires_at se \<le> now)"

definition session_inv :: "session_sys \<Rightarrow> bool" where
  "session_inv s \<longleftrightarrow>
     (\<forall>v \<in> copies (session_file (store_of s)). genuine s v) \<and>
     (\<forall>t \<in> set (dict_keys (sessions (store_of s))). t \<notin> revoked s) \<and> revoked s \<subseteq> issued s \<and>
     (\<forall>t. used_at s t \<le> clk s) \<and> store_inv (covered (clk s)) (session_file (store_of s))"

lemma coveredI: "(\<And>t se. (t, se) \<in> set d \<Longrightarrow> t \<in> set (dict_keys v) \<or> se_expires_at se \<le> now) \<Longrightarrow> covered now d v"
  by (auto simp: covered_def)

lemma coveredD: "covered now d v \<Longrightarrow> (t, se) \<in> set d \<Longrightarrow> t \<in> set (dict_keys v) \<or> se_expires_at se \<le> now"
  by (auto simp: covered_def)

lemma covered_refl [simp]: "covered now d d"
  by (rule coveredI) (metis fst_conv image_eqI list.set_map)

lemma covered_mono: "covered c d v \<Longrightarrow> c \<le> c' \<Longrightarrow> covered c' d v"
  by (rule coveredI) (meson coveredD order_trans)

lemma covered_keys: "covered c d v \<Longrightarrow> set (dict_keys v) \<subseteq> set (dict_keys v') \<Longrightarrow> covered c d v'"
  by (rule coveredI) (meson coveredD subsetD)

lemma dict_get_genuine:
  assumes "genuine s d" "dict_get d t = Some se"
  shows "se_token se = t" "t \<noteq> []" "t \<in> issued s" "se_expires_at se \<le> used_at s t + ttl (store_of s)"
  using assms map_of_SomeD [OF assms(2)] by (auto simp: genuine_def)

text \<open>What is genuine stays so when tokens are issued and used.\<close>

lemma genuine_mono:
  assumes "genuine s d" "issued s \<subseteq> issued s'" "\<And>t. used_at s t \<le> used_at s' t" "ttl (store_of s') = ttl (store_of s)"
  shows "genuine s' d"
  using assms order_trans [OF _ add_right_mono [OF assms(3)]] by (fastforce simp: genuine_def)

lemma genuine_set:
  assumes "genuine s d" "se_token se = t" "t \<noteq> []" "t \<in> issued s" "se_expires_at se \<le> used_at s t + ttl (store_of s)"
  shows "genuine s (dict_set t se d)"
  using assms dict_set_member [where d = d and t = t and x = se] by (fastforce simp: genuine_def)

lemma genuine_pop: "genuine s d \<Longrightarrow> genuine s (dict_pop t d)"
  by (auto simp: genuine_def set_dict_pop)

text \<open>One rule for every step: what it may change of the system, and what it owes for the file.\<close>

lemma session_inv_next:
  assumes "session_inv s" "issued s \<subseteq> issued s'" "\<And>t. used_at s t \<le> used_at s' t" "\<And>t. used_at s' t \<le> clk s'"
    "ttl (store_of s') = ttl (store_of s)" "clk s \<le> clk s'" "revoked s' \<subseteq> issued s'"
    "copies (session_file (store_of s')) \<subseteq> insert (sessions (store_of s')) (copies (session_file (store_of s)))"
    "genuine s' (sessions (store_of s'))" "set (dict_keys (sessions (store_of s'))) \<inter> revoked s' = {}"
    "store_inv (covered (clk s)) (session_file (store_of s'))"
  shows "session_inv s'"
proof -
  have "genuine s' v" if "v \<in> copies (session_file (store_of s'))" for v
  proof (cases "v = sessions (store_of s')")
    case False
    then have "genuine s v" using that assms(1,8) by (auto simp: session_inv_def)
    then show ?thesis by (rule genuine_mono [OF _ assms(2,3,5)])
  qed (use assms(9) in simp)
  moreover have "store_inv (covered (clk s')) (session_file (store_of s'))"
    using assms(6) by (rule_tac store_inv_mono [OF assms(11)]) (rule covered_mono)
  ultimately show ?thesis using assms(4,7,10) by (auto simp: session_inv_def)
qed

lemma session_invD:
  assumes "session_inv s"
  shows "genuine s (sessions (store_of s))" "t \<in> set (dict_keys (sessions (store_of s))) \<Longrightarrow> t \<notin> revoked s"
    "revoked s \<subseteq> issued s" "used_at s t \<le> clk s" "store_inv (covered (clk s)) (session_file (store_of s))"
    "v \<in> copies (session_file (store_of s)) \<Longrightarrow> genuine s v"
  using assms by (auto simp: session_inv_def copies_def)

lemmas session_defs = create_session_def validate_token_def revoke_def revoke_all_def save_now_def schedule_save_def
  put_sessions_def

lemma session_inv_validate:
  assumes i: "session_inv s" "clk s \<le> now" "validate_token now lnow token (store_of s) = (r, st)"
    and s': "s' = s\<lparr>store_of := st, clk := now, used_at := (case r of None \<Rightarrow> used_at s | Some se \<Rightarrow> (used_at s)(token := now))\<rparr>"
  shows "session_inv s'"
proof -
  note d = session_invD [OF i(1)]
  let ?f = "session_file (store_of s)"
  have uses: "used_at s t \<le> used_at s' t" "used_at s' t \<le> now" for t
    using order_trans [OF d(4) i(2)] by (auto simp: s' split: option.split)
  have g: "genuine s' (sessions (store_of s))" if "ttl st = ttl (store_of s)"
    by (rule genuine_mono [OF d(1)]) (use uses that in \<open>simp_all add: s'\<close>)
  show ?thesis
  proof (cases "token = [] \<or> dict_get (sessions (store_of s)) token = None")
    case True
    then have st: "st = store_of s" "r = None" using i(3) by (auto simp: validate_token_def split: option.splits)
    show ?thesis
      by (rule session_inv_next [OF i(1)])
        (use d i(2) uses st g in \<open>auto simp: s' copies_def disjoint_iff\<close>)
  next
    case False
    then obtain se where se: "dict_get (sessions (store_of s)) token = Some se" "token \<noteq> []" by blast
    note gs = dict_get_genuine [OF d(1) se(1)]
    show ?thesis
    proof (cases "is_expired now se")
      case True
      then have r: "r = None" and st: "session_file st = async_delay_save lnow 0 (?f\<lparr>ram := dict_pop token (ram ?f)\<rparr>)"
        "ttl st = ttl (store_of s)"
        using i(3) se by (auto simp: session_defs)
      have "genuine s' (dict_pop token (ram ?f))" by (rule genuine_pop [OF g [OF st(2)]])
      then show ?thesis
        by (intro session_inv_next [OF i(1)])
          (use d i(2) uses st r copies_ram [where f = ?f] in \<open>auto simp: s' store_inv_changes dict_simps disjoint_iff\<close>)
    next
      case False
      let ?se = "se\<lparr>se_last_used_at := now, se_expires_at := now + ttl (store_of s)\<rparr>"
      let ?g = "?f\<lparr>ram := dict_set token ?se (ram ?f)\<rparr>"
      have r: "r = Some ?se" and st: "session_file st = ?g \<or> session_file st = async_delay_save lnow 0 ?g"
        "ttl st = ttl (store_of s)"
        using i(3) se False by (auto simp: session_defs Let_def split: if_splits)
      have gen: "genuine s' (dict_set token ?se (ram ?f))"
        using gs se(2) by (intro genuine_set g [OF st(2)]) (simp_all add: s' r st(2))
      have keys: "set (dict_keys (dict_set token ?se (ram ?f))) = set (dict_keys (ram ?f))"
        using se(1) dict_get_None_iff [of "ram ?f" token] by (auto simp: dict_keys_set)
      have "store_inv (covered (clk s)) ?g"
        using d(5) keys by (intro store_inv_refresh) (auto elim: covered_keys)
      then have "store_inv (covered (clk s)) (session_file st)" using st(1) store_inv_changes by metis
      moreover have "copies (session_file st) \<subseteq> insert (dict_set token ?se (ram ?f)) (copies ?f)" "sessions st = dict_set token ?se (ram ?f)"
        using st(1) copies_ram [where f = ?f and v = "dict_set token ?se (ram ?f)"] by auto
      ultimately show ?thesis
        by (intro session_inv_next [OF i(1)]) (use d i(2) uses st(2) gen keys in \<open>auto simp: s' disjoint_iff\<close>)
    qed
  qed
qed

text \<open>The steps that end in a save that is waited for.\<close>

lemma session_inv_saved:
  assumes "session_inv s" "session_file st = async_save_now (async_delay_save lnow 0 ((session_file (store_of s))\<lparr>ram := d\<rparr>))"
    "ttl st = ttl (store_of s)" "store_of s' = st" "clk s \<le> clk s'" "issued s \<subseteq> issued s'" "revoked s' \<subseteq> issued s'"
    "\<And>t. used_at s t \<le> used_at s' t" "\<And>t. used_at s' t \<le> clk s'"
    "genuine s' d" "set (dict_keys d) \<inter> revoked s' = {}"
  shows "session_inv s'"
proof (rule session_inv_next [OF assms(1)])
  have "copies ((session_file (store_of s))\<lparr>ram := d\<rparr>) \<subseteq> insert d (copies (session_file (store_of s)))" by (rule copies_ram)
  then show "copies (session_file (store_of s')) \<subseteq> insert (sessions (store_of s')) (copies (session_file (store_of s)))"
    using assms(2,4) by simp
  show "store_inv (covered (clk s)) (session_file (store_of s'))"
    using assms(2,4) by (simp add: store_inv_flushes store_inv_changes)
qed (use assms in simp_all)

lemma session_inv_create:
  assumes "session_inv s" "clk s \<le> now" "token \<notin> issued s" "token \<noteq> []" "create_session now lnow token (store_of s) = (se, st)"
    and s': "s' = s\<lparr>store_of := st, clk := now, issued := insert token (issued s), used_at := (used_at s)(token := now)\<rparr>"
  shows "session_inv s'"
proof -
  note d = session_invD [OF assms(1)]
  let ?se = "\<lparr>se_token = token, se_created_at = now, se_last_used_at = now, se_expires_at = now + ttl (store_of s)\<rparr>"
  have st: "session_file st = async_save_now (async_delay_save lnow 0
      ((session_file (store_of s))\<lparr>ram := dict_set token ?se (sessions (store_of s))\<rparr>))" "ttl st = ttl (store_of s)"
    using assms(5) by (auto simp: session_defs Let_def)
  have uses: "used_at s t \<le> used_at s' t" "used_at s' t \<le> now" for t
    using order_trans [OF d(4) assms(2)] by (auto simp: s')
  have "genuine s' (sessions (store_of s))"
    by (rule genuine_mono [OF d(1)]) (use uses st in \<open>auto simp: s'\<close>)
  then have "genuine s' (dict_set token ?se (sessions (store_of s)))"
    by (rule genuine_set) (use assms(4) st in \<open>simp_all add: s'\<close>)
  moreover have "set (dict_keys (dict_set token ?se (sessions (store_of s)))) \<inter> revoked s' = {}"
    using d(2,3) assms(3) by (auto simp: dict_keys_set s')
  ultimately show ?thesis
    by (intro session_inv_saved [OF assms(1) st]) (use d(3) assms(2) uses in \<open>auto simp: s'\<close>)
qed

lemma session_inv_revoke:
  assumes "session_inv s"
  shows "session_inv (s\<lparr>store_of := revoke lnow token (store_of s), revoked := insert token (revoked s) \<inter> issued s\<rparr>)" (is "session_inv ?r")
    "session_inv (s\<lparr>store_of := revoke_all lnow (store_of s), revoked := issued s\<rparr>)" (is "session_inv ?a")
proof -
  note d = session_invD [OF assms]
  have g: "genuine (s\<lparr>store_of := st, revoked := r\<rparr>) v" if "genuine s v" "ttl st = ttl (store_of s)" for st r v
    by (rule genuine_mono [OF that(1)]) (use that(2) in simp_all)
  have gr: "genuine (s\<lparr>revoked := r\<rparr>) (sessions (store_of s))" for r
    by (rule genuine_mono [OF d(1)]) simp_all
  have dis: "t \<notin> revoked s" if "(t, x) \<in> set (sessions (store_of s))" for t x
    using d(2) [of t] imageI [OF that, of fst] by simp
  show "session_inv ?r"
  proof (cases "dict_get (sessions (store_of s)) token")
    case None
    then show ?thesis
      by (intro session_inv_next [OF assms])
        (use d gr in \<open>auto simp: revoke_def disjoint_iff dict_get_None_iff copies_def\<close>)
  next
    case (Some se)
    then have "session_file (store_of ?r) = async_save_now (async_delay_save lnow 0
        ((session_file (store_of s))\<lparr>ram := dict_pop token (sessions (store_of s))\<rparr>))" "ttl (store_of ?r) = ttl (store_of s)"
      by (auto simp: session_defs Let_def)
    then show ?thesis
      using d dis g [OF genuine_pop [OF d(1)]] by (intro session_inv_saved [OF assms]) (auto simp: dict_simps disjoint_iff)
  qed
  have "session_file (store_of ?a) = async_save_now (async_delay_save lnow 0 ((session_file (store_of s))\<lparr>ram := []\<rparr>))"
    "ttl (store_of ?a) = ttl (store_of s)"
    by (simp_all add: session_defs Let_def)
  then show "session_inv ?a"
    by (rule session_inv_saved [OF assms]) (use d in \<open>simp_all add: genuine_def\<close>)
qed

text \<open>What \<open>_decode\<close> makes of a file.\<close>

lemma decode_row_ok:
  assumes "dict_ok d"
  shows "dict_ok (decode_row now row d)"
    "(t, se) \<in> set (decode_row now row d) \<Longrightarrow>
       (t, se) \<in> set d \<or> t = se_token se \<and> row = Some se \<and> \<not> is_expired now se"
    "t \<in> set (dict_keys d) \<Longrightarrow> t \<in> set (dict_keys (decode_row now row d))"
    "row = Some se \<Longrightarrow> \<not> is_expired now se \<Longrightarrow> se_token se \<in> set (dict_keys (decode_row now row d))"
proof -
  show "dict_ok (decode_row now row d)" using assms by (simp add: decode_row_def split: option.split)
  show "(t, se) \<in> set d \<or> t = se_token se \<and> row = Some se \<and> \<not> is_expired now se"
    if m: "(t, se) \<in> set (decode_row now row d)"
    using m by (cases row) (auto simp: decode_row_def split: if_splits dest!: dict_set_member)
  show "t \<in> set (dict_keys (decode_row now row d))" if "t \<in> set (dict_keys d)"
    using that by (cases row) (simp_all add: decode_row_def fst_image_dict_set)
  show "se_token se \<in> set (dict_keys (decode_row now row d))" if "row = Some se" "\<not> is_expired now se"
    using that by (simp add: decode_row_def fst_image_dict_set)
qed

lemma decode_fold_ok: "dict_ok d \<Longrightarrow> dict_ok (fold (decode_row now) rows d)"
  by (induction rows arbitrary: d) (simp_all add: decode_row_ok(1))

lemma decode_fold_mem:
  "dict_ok d \<Longrightarrow> (t, se) \<in> set (fold (decode_row now) rows d) \<Longrightarrow>
   (t, se) \<in> set d \<or> t = se_token se \<and> Some se \<in> set rows \<and> \<not> is_expired now se"
proof (induction rows arbitrary: d)
  case (Cons row rows)
  then show ?case using Cons.IH [OF decode_row_ok(1) [OF Cons.prems(1)]] decode_row_ok(2) [OF Cons.prems(1), of t se now row] by auto
qed simp

lemma decode_fold_keys:
  "dict_ok d \<Longrightarrow> t \<in> set (dict_keys d) \<Longrightarrow> t \<in> set (dict_keys (fold (decode_row now) rows d))"
proof (induction rows arbitrary: d)
  case (Cons row rows)
  show ?case
    using Cons.IH [OF decode_row_ok(1) [OF Cons.prems(1)] decode_row_ok(3) [OF Cons.prems]] by (simp only: fold_simps)
qed simp

lemma decode_fold_rows:
  "dict_ok d \<Longrightarrow> Some se \<in> set rows \<Longrightarrow> \<not> is_expired now se \<Longrightarrow>
   se_token se \<in> set (dict_keys (fold (decode_row now) rows d))"
proof (induction rows arbitrary: d)
  case (Cons row rows)
  note ok = decode_row_ok(1) [OF Cons.prems(1)]
  show ?case
  proof (cases "row = Some se")
    case True
    then show ?thesis
      using decode_fold_keys [OF ok decode_row_ok(4) [OF Cons.prems(1) True Cons.prems(3)]] by (simp only: fold_simps)
  next
    case False
    then have "Some se \<in> set rows" using Cons.prems(2) by auto
    then show ?thesis using Cons.IH [OF ok _ Cons.prems(3)] by (simp only: fold_simps)
  qed
qed simp

lemma decode_sessions_ok:
  "dict_ok (decode_sessions now rows)"
  "(t, se) \<in> set (decode_sessions now rows) \<Longrightarrow> t = se_token se \<and> Some se \<in> set rows \<and> \<not> is_expired now se"
  "Some se \<in> set rows \<Longrightarrow> \<not> is_expired now se \<Longrightarrow> se_token se \<in> set (dict_keys (decode_sessions now rows))"
  unfolding decode_sessions_def
  using decode_fold_ok [of "[]"] decode_fold_mem [of "[]" t se] decode_fold_rows [of "[]"] by simp_all

lemma session_inv_restart:
  assumes "session_inv s" "clk s \<le> now" "\<forall>f. \<not> internal_step (session_file (store_of s)) f"
    "\<not> behind (session_file (store_of s))"
    and s': "s' = s\<lparr>store_of := load_sessions now (new_SessionStore (ttl (store_of s)) (disk (session_file (store_of s)))), clk := now\<rparr>"
  shows "session_inv s'"
proof -
  note i = session_invD [OF assms(1)]
  obtain d where d: "disk (session_file (store_of s)) = Some d" "covered (clk s) d (sessions (store_of s))"
    using settled [OF i(5)] assms(3,4) by blast
  let ?l = "decode_sessions now (map Some (encode_sessions d))"
  have fl: "session_file (store_of s') = (new_DStore [] (Some d))\<lparr>ram := ?l\<rparr>" "ttl (store_of s') = ttl (store_of s)"
    by (simp_all add: s' load_sessions_def new_SessionStore_def d(1) new_DStore_def Let_def)
  have gd: "genuine s d" using i(6) d(1) by (simp add: copies_def)
  then have gd': "genuine s' d" by (rule genuine_mono) (use fl(2) in \<open>simp_all add: s'\<close>)
  have row: "(t, se) \<in> set d" "\<not> is_expired now se" if "(t, se) \<in> set ?l" for t se
    using decode_sessions_ok(2) [OF that] gd by (force simp: encode_sessions_def genuine_def)+
  then have "genuine s' ?l" using gd' decode_sessions_ok(1) by (fastforce simp: genuine_def)
  moreover have "t \<notin> revoked s" if "t \<in> set (dict_keys ?l)" for t
  proof -
    obtain se where se: "(t, se) \<in> set ?l" using \<open>t \<in> set (dict_keys ?l)\<close> by auto
    have "\<not> se_expires_at se \<le> clk s" using row(2) [OF se] assms(2) by (simp add: is_expired_def)
    then show ?thesis using coveredD [OF d(2) row(1) [OF se]] i(2) by blast
  qed
  moreover have "covered now d ?l"
  proof (rule coveredI)
    fix t se
    assume m: "(t, se) \<in> set d"
    then have "se_token se = t" using gd by (auto simp: genuine_def)
    moreover have "Some se \<in> set (map Some (encode_sessions d))" using m by (force simp: encode_sessions_def)
    ultimately show "t \<in> set (dict_keys ?l) \<or> se_expires_at se \<le> now"
      using decode_sessions_ok(3) [of se _ now] by (auto simp: is_expired_def)
  qed
  moreover have "used_at s t \<le> now" for t using order_trans [OF i(4) assms(2)] .
  ultimately show ?thesis
    using i(3) gd' fl by (auto simp: session_inv_def copies_def new_DStore_def store_inv_def s')
qed

section \<open>Which tokens are accepted\<close>

lemma session_inv_init: "session_init s \<Longrightarrow> session_inv s"
  unfolding session_init_def session_inv_def new_SessionStore_def
  by (elim conjE, erule ssubst)
    (simp add: copies_def genuine_def new_DStore_def store_inv_def)

lemma session_inv_step:
  assumes "session_step s s'" "session_inv s"
  shows "session_inv s'"
  using assms
proof (induction rule: session_step.induct)
  case (mints s now token lnow se st)
  then show ?case using session_inv_create by blast
next
  case (accepts s now lnow token se st)
  then show ?case using session_inv_validate [OF accepts.prems accepts.hyps(1,2)] by simp
next
  case (rejects s now lnow token st)
  then show ?case using session_inv_validate [OF rejects.prems rejects.hyps(1,2)] by simp
next
  case (writes s f)
  note c = copies_internal [OF writes.hyps] and d = session_invD [OF writes.prems]
  have "genuine (s\<lparr>store_of := (store_of s)\<lparr>session_file := f\<rparr>\<rparr>) (sessions (store_of s))"
    by (rule genuine_mono [OF d(1)]) simp_all
  moreover have "store_inv (covered (clk s)) f" by (rule store_inv_internal [OF writes.hyps _ d(5)]) simp
  ultimately show ?case
    by (intro session_inv_next [OF writes.prems]) (use c d in \<open>auto simp: disjoint_iff\<close>)
next
  case (restarts s now)
  then show ?case using session_inv_restart by blast
qed (use session_inv_revoke in blast)+

interpretation session_machine: state_machine session_init session_step session_inv
  using session_inv_init session_inv_step by unfold_locales blast+

lemma accepted_token_ok:
  assumes "session_inv s" "validate_token now lnow token (store_of s) = (Some se, st)"
  shows "token \<in> issued s \<and> token \<notin> revoked s \<and> now < used_at s token + ttl (store_of s) \<and> se_token se = token \<and>
    se_expires_at se = now + ttl (store_of s)"
proof -
  note i = session_invD [OF assms(1)]
  obtain old where old: "dict_get (sessions (store_of s)) token = Some old" "\<not> is_expired now old"
    "se = old\<lparr>se_last_used_at := now, se_expires_at := now + ttl (store_of s)\<rparr>"
    using assms(2) by (auto simp: validate_token_def Let_def split: if_splits option.splits)
  note g = dict_get_genuine [OF i(1) old(1)]
  have "token \<in> set (dict_keys (sessions (store_of s)))" using old(1) dict_get_None_iff [of "sessions (store_of s)" token] by auto
  then have "token \<notin> revoked s" using i(2) by blast
  then show ?thesis using g old(2,3) by (simp add: is_expired_def)
qed

text \<open>
  C7. Whatever logins, uses, logouts, writes and clean restarts came before, a token the server accepts is one it
  issued, was never revoked, and was issued or accepted less than the lifetime of a session ago. Once revoked it
  is refused for ever.
\<close>
theorem accepted_token_genuine:
  assumes "reachable session_init session_step s" "clk s \<le> now"
    "validate_token now lnow token (store_of s) = (Some se, st)"
  shows "token \<in> issued s \<and> token \<notin> revoked s \<and> now < used_at s token + ttl (store_of s) \<and> se_token se = token \<and>
    se_expires_at se = now + ttl (store_of s)"
  by (rule accepted_token_ok [OF session_machine.invariant [OF assms(1)] assms(3)])

definition ex_logged_in :: session_sys where
  "ex_logged_in = \<lparr>store_of = snd (create_session 5 5 ''tok'' (new_SessionStore TOKEN_TTL_SECONDS None)), clk = 5,
     issued = {''tok''}, revoked = {}, used_at = (\<lambda>_. 0)(''tok'' := 5)\<rparr>"

lemma accepted_token_genuine_witness:
  "\<exists>se st. validate_token 7 7 ''tok'' (store_of ex_logged_in) = (Some se, st) \<and>
     ''tok'' \<notin> revoked ex_logged_in \<and> 7 < used_at ex_logged_in ''tok'' + TOKEN_TTL_SECONDS"
proof -
  let ?i = "\<lparr>store_of = new_SessionStore TOKEN_TTL_SECONDS None, clk = 0, issued = {}, revoked = {}, used_at = \<lambda>_. 0\<rparr>"
  obtain se st where c: "create_session 5 5 ''tok'' (store_of ?i) = (se, st)" by fastforce
  have "reachable session_init session_step ?i"
    by (rule reachable_init) (simp add: session_init_def new_SessionStore_def)
  moreover have "session_step ?i ex_logged_in"
    using session_step.mints [of ?i 5 "''tok''" 5 se st] c by (simp add: ex_logged_in_def)
  ultimately have r: "reachable session_init session_step ex_logged_in" by (rule reachable_step)
  have "\<exists>se st. validate_token 7 7 ''tok'' (store_of ex_logged_in) = (Some se, st)"
    by (simp add: ex_logged_in_def session_defs is_expired_def new_SessionStore_def new_DStore_def
        TOKEN_TTL_SECONDS_def Let_def)
  then obtain se st where v: "validate_token 7 7 ''tok'' (store_of ex_logged_in) = (Some se, st)" by blast
  have "clk ex_logged_in \<le> 7" "ttl (store_of ex_logged_in) = TOKEN_TTL_SECONDS"
    by (simp_all add: ex_logged_in_def session_defs new_SessionStore_def Let_def)
  then show ?thesis using accepted_token_genuine [OF r _ v] v by simp
qed

end
