(* ===== verification/RateLimit.thy ===== *)
theory RateLimit
  imports Prelude
begin

text \<open>
  The login rate limiter of \<open>helpers/auth.py\<close>. The monotonic clock is read once at the start of each
  method and is an argument here; its floats are real numbers. What is shown is the promise of the class:
  no address has more than \<open>max_attempts\<close> passwords checked and refused in any window since its last
  success, as long as the lockout is no shorter than the window.
\<close>

section \<open>The limiter\<close>

definition RATE_LIMIT_MAX_ATTEMPTS :: nat where
  "RATE_LIMIT_MAX_ATTEMPTS = 10"

definition RATE_LIMIT_WINDOW_SECONDS :: real where
  "RATE_LIMIT_WINDOW_SECONDS = 5 * 60"

definition RATE_LIMIT_LOCKOUT_SECONDS :: real where
  "RATE_LIMIT_LOCKOUT_SECONDS = 5 * 60"

definition RATE_LIMIT_PRUNE_INTERVAL :: real where
  "RATE_LIMIT_PRUNE_INTERVAL = 60"

record RateLimiter =
  max_attempts :: nat
  window_seconds :: real
  lockout_seconds :: real
  attempts :: "(string, real list) dict"
  lockouts :: "(string, real) dict"
  last_prune :: real

definition new_RateLimiter :: RateLimiter where
  "new_RateLimiter = \<lparr>max_attempts = RATE_LIMIT_MAX_ATTEMPTS, window_seconds = RATE_LIMIT_WINDOW_SECONDS,
     lockout_seconds = RATE_LIMIT_LOCKOUT_SECONDS, attempts = [], lockouts = [], last_prune = 0\<rparr>"

definition attempts_of :: "RateLimiter \<Rightarrow> string \<Rightarrow> real list" where
  "attempts_of r ip = (case dict_get (attempts r) ip of None \<Rightarrow> [] | Some a \<Rightarrow> a)"

text \<open>\<open>clear\<close>, which also is what an expired lockout does.\<close>

definition clear_ip :: "string \<Rightarrow> RateLimiter \<Rightarrow> RateLimiter" where
  "clear_ip ip r = r\<lparr>attempts := dict_pop ip (attempts r), lockouts := dict_pop ip (lockouts r)\<rparr>"

definition remaining_lockout :: "real \<Rightarrow> string \<Rightarrow> RateLimiter \<Rightarrow> real \<times> RateLimiter" where
  "remaining_lockout now ip r =
     (case dict_get (lockouts r) ip of
        None \<Rightarrow> (0, r)
      | Some unlock_at \<Rightarrow>
          if unlock_at - now \<le> 0
          then (0, r\<lparr>lockouts := dict_pop ip (lockouts r), attempts := dict_pop ip (attempts r)\<rparr>)
          else (unlock_at - now, r))"

definition stale_ips :: "real \<Rightarrow> RateLimiter \<Rightarrow> string list" where
  "stale_ips cutoff r =
     map fst (filter (\<lambda>(ip, a). (a = [] \<or> last a < cutoff) \<and> ip \<notin> set (dict_keys (lockouts r))) (attempts r))"

definition maybe_prune :: "real \<Rightarrow> RateLimiter \<Rightarrow> RateLimiter" where
  "maybe_prune now r =
     (if now - last_prune r < RATE_LIMIT_PRUNE_INTERVAL then r
      else r\<lparr>last_prune := now,
             attempts := fold dict_pop (stale_ips (now - window_seconds r) r) (attempts r)\<rparr>)"

definition record_failure :: "real \<Rightarrow> string \<Rightarrow> RateLimiter \<Rightarrow> RateLimiter" where
  "record_failure now ip r =
     (let r1 = maybe_prune now r;
          cutoff = now - window_seconds r1;
          a = dropWhile (\<lambda>t. t < cutoff) (attempts_of r1 ip) @ [now];
          r2 = r1\<lparr>attempts := dict_set ip a (attempts r1)\<rparr>
      in if max_attempts r2 \<le> length a
         then r2\<lparr>lockouts := dict_set ip (now + lockout_seconds r2) (lockouts r2)\<rparr>
         else r2)"

text \<open>
  How both callers use it, the login command and the middleware: a locked address is turned away before
  its password is looked at, a success clears its history, a failure is recorded. \<open>None\<close> is the refusal
  without a check. Nothing is awaited in between.
\<close>

definition try_password :: "real \<Rightarrow> string \<Rightarrow> bool \<Rightarrow> RateLimiter \<Rightarrow> bool option \<times> RateLimiter" where
  "try_password now ip correct r =
     (case remaining_lockout now ip r of
        (remaining, r1) \<Rightarrow>
          if 0 < remaining then (None, r1)
          else if correct then (Some True, clear_ip ip r1)
          else (Some False, record_failure now ip r1))"

section \<open>Frames\<close>

lemma fold_dict_pop: "dict_get (fold dict_pop ks d) k = (if k \<in> set ks then None else dict_get d k)"
  by (induction ks arbitrary: d) (auto simp: dict_simps)

lemma maybe_prune_frame [simp]:
  "max_attempts (maybe_prune now r) = max_attempts r" "window_seconds (maybe_prune now r) = window_seconds r"
  "lockout_seconds (maybe_prune now r) = lockout_seconds r" "lockouts (maybe_prune now r) = lockouts r"
  by (simp_all add: maybe_prune_def)

text \<open>A prune drops only addresses that have no attempt left in the window.\<close>

lemma dict_ok_fold_pop: "dict_ok d \<Longrightarrow> dict_ok (fold dict_pop ks d)"
  by (induction ks arbitrary: d) simp_all

lemma maybe_prune_attempts:
  assumes "dict_ok (attempts r)"
  shows "attempts_of (maybe_prune now r) ip = attempts_of r ip \<or>
    attempts_of (maybe_prune now r) ip = [] \<and> dict_get (lockouts r) ip = None \<and>
      (attempts_of r ip \<noteq> [] \<longrightarrow> last (attempts_of r ip) < now - window_seconds r)"
    "dict_ok (attempts (maybe_prune now r))"
proof -
  let ?st = "stale_ips (now - window_seconds r) r"
  show "dict_ok (attempts (maybe_prune now r))"
    using assms by (simp add: maybe_prune_def dict_ok_fold_pop)
  have "dict_get (lockouts r) ip = None \<and> (attempts_of r ip \<noteq> [] \<longrightarrow> last (attempts_of r ip) < now - window_seconds r)"
    if st: "ip \<in> set ?st"
  proof -
    obtain e where "fst e = ip" "e \<in> set (filter (\<lambda>(ip, a). (a = [] \<or> last a < now - window_seconds r) \<and>
        ip \<notin> set (dict_keys (lockouts r))) (attempts r))"
      using st unfolding stale_ips_def set_map by blast
    then obtain a where a: "(ip, a) \<in> set (attempts r)" "a = [] \<or> last a < now - window_seconds r"
      "ip \<notin> set (dict_keys (lockouts r))"
      by (cases e) (simp only: set_filter mem_Collect_eq prod.case fst_conv, blast)
    have "dict_get (attempts r) ip = Some a" using a(1) assms by (simp add: dict_ok_def)
    then show ?thesis using a(2,3) by (auto simp: attempts_of_def dict_get_None_iff)
  qed
  then show "attempts_of (maybe_prune now r) ip = attempts_of r ip \<or>
    attempts_of (maybe_prune now r) ip = [] \<and> dict_get (lockouts r) ip = None \<and>
      (attempts_of r ip \<noteq> [] \<longrightarrow> last (attempts_of r ip) < now - window_seconds r)"
    by (cases "ip \<in> set ?st") (simp_all add: maybe_prune_def attempts_of_def fold_dict_pop)
qed

definition limits :: "RateLimiter \<Rightarrow> nat \<times> real \<times> real" where
  "limits r = (max_attempts r, window_seconds r, lockout_seconds r)"

lemma limits_step [simp]:
  "limits (clear_ip ip r) = limits r" "limits (snd (remaining_lockout now ip r)) = limits r"
  "limits (record_failure now ip r) = limits r"
  by (auto simp: limits_def clear_ip_def remaining_lockout_def record_failure_def Let_def split: option.split)

section \<open>How often a password can be guessed\<close>

text \<open>
  A sequence of attempts (time, address, whether the password is right), with the log of the refused
  checks of every address since its last success.
\<close>

definition guess_step :: "real \<times> string \<times> bool \<Rightarrow> RateLimiter \<times> (real \<times> string) list \<Rightarrow> RateLimiter \<times> (real \<times> string) list"
where
  "guess_step e c =
     (case e of (now, ip, correct) \<Rightarrow>
        case try_password now ip correct (fst c) of
          (None, r) \<Rightarrow> (r, snd c)
        | (Some True, r) \<Rightarrow> (r, filter (\<lambda>x. snd x \<noteq> ip) (snd c))
        | (Some False, r) \<Rightarrow> (r, snd c @ [(now, ip)]))"

definition refused_of :: "(real \<times> string) list \<Rightarrow> string \<Rightarrow> real list" where
  "refused_of trail ip = map fst (filter (\<lambda>x. snd x = ip) trail)"

definition in_window :: "real \<Rightarrow> real \<Rightarrow> real list \<Rightarrow> real list" where
  "in_window w t ts = filter (\<lambda>x. t - w < x \<and> x \<le> t) ts"

lemma refused_of_simps [simp]:
  "refused_of [] ip = []"
  "refused_of (trail @ [(now, ip')]) ip = (if ip = ip' then refused_of trail ip @ [now] else refused_of trail ip)"
  "refused_of (filter (\<lambda>x. snd x \<noteq> ip') trail) ip = (if ip = ip' then [] else refused_of trail ip)"
  by (auto simp: refused_of_def filter_empty_conv intro!: arg_cong [of _ _ "map fst"] filter_cong)

text \<open>
  What the limiter knows of an address whose refused checks were at the times \<open>h\<close>: while it is not locked,
  its attempts are the end of \<open>h\<close> that can still be in the window, fewer than the maximum; while it is
  locked, the lockout runs from the last of them.
\<close>

definition knows :: "real \<Rightarrow> RateLimiter \<Rightarrow> string \<Rightarrow> real list \<Rightarrow> bool" where
  "knows clk r ip h \<longleftrightarrow>
     sorted h \<and> (\<forall>x \<in> set h. x \<le> clk) \<and> (\<forall>t. length (in_window (window_seconds r) t h) \<le> max_attempts r) \<and>
     (case dict_get (lockouts r) ip of
        None \<Rightarrow> length (attempts_of r ip) < max_attempts r \<and>
          (\<exists>p. h = p @ attempts_of r ip \<and> (\<forall>x \<in> set p. x \<le> clk - window_seconds r))
      | Some u \<Rightarrow> \<forall>x \<in> set h. x \<le> u - lockout_seconds r)"

lemma knows_later:
  assumes "knows clk r ip h" "clk \<le> now"
  shows "knows now r ip h"
proof -
  have "x \<le> now - window_seconds r" if "x \<le> clk - window_seconds r" for x using that assms(2) by simp
  then show ?thesis using assms by (fastforce simp: knows_def split: option.splits)
qed

text \<open>Nothing about an address changes when only the entries of others do.\<close>

lemma knows_cong:
  assumes "knows clk r ip h" "limits r' = limits r" "attempts_of r' ip = attempts_of r ip"
    "dict_get (lockouts r') ip = dict_get (lockouts r) ip"
  shows "knows clk r' ip h"
  using assms by (auto simp: knows_def limits_def split: option.splits)

lemma sorted_le_last: "sorted xs \<Longrightarrow> x \<in> set xs \<Longrightarrow> x \<le> last xs"
  by (induction xs rule: rev_induct) (auto simp: sorted_append)

lemma knows_prune:
  assumes "knows now r ip h" "dict_ok (attempts r)"
  shows "knows now (maybe_prune now r) ip h"
proof (cases "attempts_of (maybe_prune now r) ip = attempts_of r ip")
  case True
  then show ?thesis by (intro knows_cong [OF assms(1)]) (simp_all add: limits_def)
next
  case False
  then have e: "attempts_of (maybe_prune now r) ip = []" "dict_get (lockouts r) ip = None"
    "attempts_of r ip \<noteq> []" "last (attempts_of r ip) < now - window_seconds r"
    using maybe_prune_attempts(1) [OF assms(2), of now ip] by auto
  obtain p where p: "h = p @ attempts_of r ip" "\<forall>x \<in> set p. x \<le> now - window_seconds r"
    using assms(1) e(2) by (auto simp: knows_def)
  have "sorted (attempts_of r ip)" using assms(1) p(1) by (simp add: knows_def sorted_append)
  then have "x \<le> last (attempts_of r ip)" if "x \<in> set (attempts_of r ip)" for x
    using that by (rule sorted_le_last)
  then have "\<forall>x \<in> set h. x \<le> now - window_seconds r" using p e(4) by fastforce
  then show ?thesis using assms(1) e(1,2) by (auto simp: knows_def)
qed

text \<open>One refused check of an address that is not locked.\<close>

lemma knows_failure:
  assumes k: "knows now r ip h" "dict_get (lockouts r) ip = None" "dict_ok (attempts r)"
    and w: "0 < window_seconds r"
  shows "knows now (record_failure now ip r) ip (h @ [now])"
proof -
  let ?r = "maybe_prune now r" and ?w = "window_seconds r"
  let ?a = "dropWhile (\<lambda>t. t < now - ?w) (attempts_of ?r ip)"
  note kp = knows_prune [OF k(1,3)]
  obtain p where p: "h = p @ attempts_of ?r ip" "\<forall>x \<in> set p. x \<le> now - ?w" "length (attempts_of ?r ip) < max_attempts r"
    using kp k(2) by (auto simp: knows_def)
  define q where "q = p @ takeWhile (\<lambda>t. t < now - ?w) (attempts_of ?r ip)"
  have h: "h = q @ ?a" using p(1) by (simp add: q_def)
  have q: "\<forall>x \<in> set q. x \<le> now - ?w" using p(2) by (auto simp: q_def dest: set_takeWhileD)
  have len: "length ?a < max_attempts r" using p(3) le_less_trans [OF length_dropWhile_le] by blast
  have le: "\<forall>x \<in> set h. x \<le> now" "sorted h" using k(1) by (simp_all add: knows_def)
  have win: "length (in_window ?w t (h @ [now])) \<le> max_attempts r" for t
  proof (cases "now \<le> t")
    case True
    then have "in_window ?w t q = []" using q by (fastforce simp: in_window_def filter_empty_conv)
    then have "in_window ?w t (h @ [now]) = in_window ?w t (?a @ [now])" unfolding h by (simp add: in_window_def)
    then have "length (in_window ?w t (h @ [now])) \<le> length (?a @ [now])"
      unfolding in_window_def by (simp only: length_filter_le)
    then show ?thesis using len by simp
  next
    case False
    then show ?thesis using k(1) by (simp add: knows_def in_window_def)
  qed
  have att: "attempts_of (record_failure now ip r) ip = ?a @ [now]"
    by (simp add: record_failure_def Let_def attempts_of_def)
  have lock: "dict_get (lockouts (record_failure now ip r)) ip =
      (if max_attempts r \<le> Suc (length ?a) then Some (now + lockout_seconds r) else None)"
    using k(2) by (simp add: record_failure_def Let_def)
  have lim: "limits (record_failure now ip r) = limits r" by simp
  have "sorted (h @ [now])" using le by (simp add: sorted_append)
  then show ?thesis
    using lim le(1) win att lock h q w unfolding knows_def by (auto simp: limits_def)
qed

definition guarded :: "real \<Rightarrow> RateLimiter \<times> (real \<times> string) list \<Rightarrow> bool" where
  "guarded clk c \<longleftrightarrow> dict_ok (attempts (fst c)) \<and> (\<forall>ip. knows clk (fst c) ip (refused_of (snd c) ip))"

lemma remaining_lockout_ok:
  assumes "knows now r ip h" "dict_ok (attempts r)" "0 < max_attempts r" "window_seconds r \<le> lockout_seconds r"
    "remaining_lockout now ip r = (left, r')"
  shows "knows now r' ip h" "dict_ok (attempts r')" "left \<le> 0 \<Longrightarrow> dict_get (lockouts r') ip = None"
    "0 < left \<Longrightarrow> r' = r" "ip' \<noteq> ip \<Longrightarrow> attempts_of r' ip' = attempts_of r ip'"
    "ip' \<noteq> ip \<Longrightarrow> dict_get (lockouts r') ip' = dict_get (lockouts r) ip'"
proof -
  show "knows now r' ip h"
  proof (cases "dict_get (lockouts r) ip")
    case (Some u)
    then have "\<forall>x \<in> set h. x \<le> u - lockout_seconds r" using assms(1) by (simp add: knows_def)
    then have "\<forall>x \<in> set h. x \<le> now - window_seconds r" if "u - now \<le> 0" using that assms(4) by fastforce
    then show ?thesis
      using assms(1,3,5) Some by (auto simp: remaining_lockout_def knows_def attempts_of_def split: if_splits)
  qed (use assms(1,5) in \<open>simp add: remaining_lockout_def\<close>)
qed (use assms(2,5) in \<open>auto simp: remaining_lockout_def attempts_of_def split: option.splits if_splits\<close>)

lemma record_failure_other:
  assumes "knows now r ip' h" "dict_ok (attempts r)" "ip' \<noteq> ip"
  shows "knows now (record_failure now ip r) ip' h" "dict_ok (attempts (record_failure now ip r))"
proof -
  let ?m = "maybe_prune now r"
  show "dict_ok (attempts (record_failure now ip r))"
    using maybe_prune_attempts(2) [OF assms(2)] by (simp add: record_failure_def Let_def)
  show "knows now (record_failure now ip r) ip' h"
    by (rule knows_cong [OF knows_prune [OF assms(1,2)]])
      (use assms(3) in \<open>simp_all add: limits_def record_failure_def Let_def attempts_of_def\<close>)
qed

lemma guess_step_ok:
  assumes g: "guarded clk c" "clk \<le> now"
    and lim: "0 < max_attempts (fst c)" "0 < window_seconds (fst c)" "window_seconds (fst c) \<le> lockout_seconds (fst c)"
  shows "guarded now (guess_step (now, ip, correct) c) \<and> limits (fst (guess_step (now, ip, correct) c)) = limits (fst c)"
proof -
  obtain r trail where c: "c = (r, trail)" by fastforce
  have d: "dict_ok (attempts r)" and k: "knows now r i (refused_of trail i)" for i
    using g knows_later [OF _ g(2)] by (simp_all add: guarded_def c)
  obtain left r1 where rl: "remaining_lockout now ip r = (left, r1)" by fastforce
  note ok = remaining_lockout_ok [OF k d lim(1) [unfolded c fst_conv] lim(3) [unfolded c fst_conv] rl]
  have l1: "limits r1 = limits r" using limits_step(2) [of now ip r] rl by simp
  then have w1: "0 < window_seconds r1" using lim(2) by (simp add: limits_def c)
  have k1: "knows now r1 i (refused_of trail i)" for i
  proof (cases "i = ip")
    case False
    then show ?thesis using ok(5,6) by (intro knows_cong [OF k l1])
  qed (use ok(1) in simp)
  show ?thesis
  proof (cases "0 < left \<or> correct")
    case True
    have clear: "knows now (clear_ip ip r1) i (if i = ip then [] else refused_of trail i)" for i
    proof (cases "i = ip")
      case True
      have "0 < max_attempts r1" using l1 lim(1) by (simp add: limits_def c)
      then show ?thesis using True w1 by (simp add: knows_def clear_ip_def attempts_of_def in_window_def)
    next
      case False
      then show ?thesis using knows_cong [OF k1, of "clear_ip ip r1"] by (simp add: clear_ip_def attempts_of_def limits_def)
    qed
    show ?thesis
      using True clear k1 ok(2) l1
      by (cases "0 < left") (auto simp: guess_step_def try_password_def c rl guarded_def clear_ip_def limits_def)
  next
    case False
    then have n: "dict_get (lockouts r1) ip = None" "left \<le> 0" "\<not> correct" using ok(3) by simp_all
    have "knows now (record_failure now ip r1) i (if i = ip then refused_of trail i @ [now] else refused_of trail i)" for i
      using knows_failure [OF k1 _ ok(2) w1] record_failure_other(1) [OF k1 ok(2)] n(1) by simp
    moreover have "dict_ok (attempts (record_failure now ip r1))"
      using maybe_prune_attempts(2) [OF ok(2)] by (simp add: record_failure_def Let_def)
    ultimately show ?thesis
      using n(2,3) l1 by (simp add: guess_step_def try_password_def c rl guarded_def)
  qed
qed

lemma guesses_guarded:
  assumes "guarded clk c" "sorted (map fst es)" "\<forall>e \<in> set es. clk \<le> fst e"
    "0 < max_attempts (fst c)" "0 < window_seconds (fst c)" "window_seconds (fst c) \<le> lockout_seconds (fst c)"
  shows "\<exists>clk'. guarded clk' (fold guess_step es c) \<and> limits (fst (fold guess_step es c)) = limits (fst c)"
  using assms
proof (induction es arbitrary: c clk)
  case (Cons e es)
  obtain now i b where e: "e = (now, i, b)" by (cases e)
  have le: "clk \<le> now" using Cons.prems(3) by (simp add: e)
  have s: "guarded now (guess_step e c)" "limits (fst (guess_step e c)) = limits (fst c)"
    using guess_step_ok [OF Cons.prems(1) le Cons.prems(4-6)] unfolding e by blast+
  have "\<exists>clk'. guarded clk' (fold guess_step es (guess_step e c)) \<and>
      limits (fst (fold guess_step es (guess_step e c))) = limits (fst (guess_step e c))"
    by (rule Cons.IH [OF s(1)]) (use Cons.prems s(2) in \<open>simp_all add: e limits_def\<close>)
  then show ?case using s(2) by simp
qed auto

text \<open>
  C14. Whoever tries passwords, in any order and from any number of addresses: in no window of
  \<open>window_seconds\<close> are more than \<open>max_attempts\<close> passwords of one address checked and refused since its last
  success. The bound holds for every limiter whose lockout is no shorter than its window, as the default one
  is, whatever the pruning of the other addresses drops.
\<close>
theorem guesses_bounded:
  assumes "sorted (map fst es)" "\<forall>e \<in> set es. 0 \<le> fst e"
    "0 < max_attempts r" "0 < window_seconds r" "window_seconds r \<le> lockout_seconds r"
    "attempts r = []" "lockouts r = []"
  shows "length (in_window (window_seconds r) t (refused_of (snd (fold guess_step es (r, []))) ip)) \<le> max_attempts r"
proof -
  let ?c = "fold guess_step es (r, [])"
  have "guarded 0 (r, [])"
    using assms(3-7) by (simp add: guarded_def knows_def attempts_of_def in_window_def)
  then obtain clk where g: "guarded clk ?c" and l: "limits (fst ?c) = limits r"
    using guesses_guarded [of 0 "(r, [])" es] assms(1-5) by auto
  have "window_seconds (fst ?c) = window_seconds r" "max_attempts (fst ?c) = max_attempts r"
    using l by (simp_all add: limits_def)
  moreover have "knows clk (fst ?c) ip (refused_of (snd ?c) ip)" using g by (simp add: guarded_def)
  ultimately show ?thesis by (simp add: knows_def)
qed

lemma guesses_bounded_witness:
  "length (in_window 300 2 (refused_of (snd (fold guess_step
     [(0, ''10.0.0.9'', False), (1, ''10.0.0.7'', True), (2, ''10.0.0.9'', False)] (new_RateLimiter, []))) ''10.0.0.9'')) \<le> 10"
  using guesses_bounded [of "[(0, ''10.0.0.9'', False), (1, ''10.0.0.7'', True), (2, ''10.0.0.9'', False)]"
      new_RateLimiter 2 "''10.0.0.9''"]
  by (simp add: new_RateLimiter_def RATE_LIMIT_MAX_ATTEMPTS_def RATE_LIMIT_WINDOW_SECONDS_def
      RATE_LIMIT_LOCKOUT_SECONDS_def)

section \<open>What a prune does not drop\<close>

text \<open>
  The entries of an address that reached a lockout stay until that address tries again, however long the
  lockout has been over and however many others are pruned: the prune tests for an entry in \<open>_lockouts\<close>,
  not for one that still holds.
\<close>

lemma expired_lockout_kept:
  assumes "dict_ok (attempts (fst c))" "dict_get (lockouts (fst c)) ip = Some u" "\<forall>e \<in> set es. fst (snd e) \<noteq> ip"
  shows "dict_get (lockouts (fst (fold guess_step es c))) ip = Some u \<and>
    attempts_of (fst (fold guess_step es c)) ip = attempts_of (fst c) ip"
  using assms
proof (induction es arbitrary: c)
  case (Cons e es)
  obtain now i b where e: "e = (now, i, b)" and i: "i \<noteq> ip" using Cons.prems(3) by (cases e) auto
  obtain left r1 where rl: "remaining_lockout now i (fst c) = (left, r1)" by fastforce
  have r1: "dict_ok (attempts r1)" "dict_get (lockouts r1) ip = Some u" "attempts_of r1 ip = attempts_of (fst c) ip"
    using rl i Cons.prems(1,2) by (auto simp: remaining_lockout_def attempts_of_def split: option.splits if_splits)
  have p: "attempts_of (maybe_prune now r1) ip = attempts_of r1 ip" "dict_ok (attempts (maybe_prune now r1))"
    using maybe_prune_attempts(1) [OF r1(1), of now ip] maybe_prune_attempts(2) [OF r1(1), of now] r1(2) by auto
  have "dict_ok (attempts (record_failure now i r1))" "dict_get (lockouts (record_failure now i r1)) ip = Some u"
    "attempts_of (record_failure now i r1) ip = attempts_of r1 ip"
    using p r1(2) i by (simp_all add: record_failure_def Let_def attempts_of_def)
  moreover have "dict_ok (attempts (clear_ip i r1))" "dict_get (lockouts (clear_ip i r1)) ip = Some u"
    "attempts_of (clear_ip i r1) ip = attempts_of r1 ip"
    using r1(1,2) i by (simp_all add: clear_ip_def attempts_of_def)
  ultimately have "dict_ok (attempts (fst (guess_step e c)))" "dict_get (lockouts (fst (guess_step e c))) ip = Some u"
    "attempts_of (fst (guess_step e c)) ip = attempts_of (fst c) ip"
    using r1 by (auto simp: guess_step_def try_password_def e rl)
  then show ?case using Cons.IH [of "guess_step e c"] Cons.prems(3) by simp
qed simp

end
