(* ===== verification/AuthGate.thy ===== *)
theory AuthGate
  imports Sessions RateLimit PyRegex
begin

text \<open>
  Who may reach the server: the header parsing, the REST middleware and the ingress guard of
  \<open>helpers/auth.py\<close>, the origin checks of \<open>helpers/origin.py\<close>, the login, logout and refresh commands of
  \<open>controllers/auth.py\<close>, and the WebSocket handshake and command dispatch of \<open>api/ws.py\<close>. What the library
  answers (URL and address parsing, base64 with UTF-8, the random token) and the check of the password's hash
  are arguments. Nothing is awaited between the reading and the writing of the limiter.
\<close>

section \<open>Authorization headers\<close>

text \<open>\<open>s.split(None, 1)\<close> on white space.\<close>

definition split_ws1 :: "string \<Rightarrow> string list" where
  "split_ws1 s =
     (let s1 = dropWhile is_space s;
          w = takeWhile (\<lambda>c. \<not> is_space c) s1;
          r = dropWhile is_space (dropWhile (\<lambda>c. \<not> is_space c) s1)
      in if s1 = [] then [] else if r = [] then [w] else [w, r])"

definition extract_bearer_token :: "string \<Rightarrow> string option" where
  "extract_bearer_token authorization =
     (case split_ws1 authorization of
        [scheme, r] \<Rightarrow>
          if lower scheme \<noteq> ''bearer'' then None
          else if strip r = [] then None else Some (strip r)
      | _ \<Rightarrow> None)"

text \<open>\<open>b64decode\<close> is the strict base64 decoding followed by UTF-8, \<open>None\<close> where either raises.\<close>

definition parse_basic_auth :: "(string \<Rightarrow> string option) \<Rightarrow> string \<Rightarrow> (string \<times> string) option" where
  "parse_basic_auth b64decode authorization =
     (case split_ws1 authorization of
        [scheme, r] \<Rightarrow>
          if lower scheme \<noteq> ''basic'' then None
          else (case b64decode (strip r) of
                  None \<Rightarrow> None
                | Some decoded \<Rightarrow>
                    if CHR '':'' \<notin> set decoded then None
                    else Some (takeWhile (\<lambda>c. c \<noteq> CHR '':'') decoded, tl (dropWhile (\<lambda>c. c \<noteq> CHR '':'') decoded)))
      | _ \<Rightarrow> None)"

section \<open>The REST middleware\<close>

definition PUBLIC_PATHS :: "string list" where
  "PUBLIC_PATHS = [''/'', ''/ws'', ''/favicon.ico'', ''/manifest.json'', ''/version'', ''/api/firmware/download'',
     ''/api/devices/import_bundle'']"

definition PUBLIC_PREFIXES :: "string list" where
  "PUBLIC_PREFIXES = [''/assets/'', ''/boards/images/'']"

definition HASHED_FILENAME_RE :: re where
  "HASHED_FILENAME_RE =
     (let hex = Chr (\<lambda>c. is_digit c \<or> CHR ''a'' \<le> c \<and> c \<le> CHR ''f'')
      in Seqs [Lit CHR ''.'', Seqs (replicate 8 hex), Star True hex, Lit CHR ''.''])"

definition is_public_hashed_asset :: "string \<Rightarrow> string \<Rightarrow> bool" where
  "is_public_hashed_asset verb path \<longleftrightarrow>
     verb \<in> {''GET'', ''HEAD''} \<and> count_list path (CHR ''/'') = 1 \<and> re_search HASHED_FILENAME_RE path \<noteq> None"

text \<open>What the application is configured with; \<open>password_ok\<close> is \<open>check_password\<close>.\<close>

record Settings =
  using_password :: bool
  password_ok :: "string \<Rightarrow> string \<Rightarrow> bool"
  trusted_domains :: "string list"
  trusted_site :: bool

record Request =
  verb :: string
  path :: string
  authorization :: string
  remote :: "string option"
  origin :: "string option"
  host :: string
  peername :: "string option"

datatype response = Handled | Unauthorized string | Forbidden string

definition client_ip :: "string option \<Rightarrow> string" where
  "client_ip r = (case r of None \<Rightarrow> ''?'' | Some ip \<Rightarrow> if ip = [] then ''?'' else ip)"

definition is_open_path :: "Request \<Rightarrow> bool" where
  "is_open_path rq \<longleftrightarrow>
     path rq \<in> set PUBLIC_PATHS \<or> (\<exists>p \<in> set PUBLIC_PREFIXES. starts_with (path rq) p) \<or>
     is_public_hashed_asset (verb rq) (path rq)"

text \<open>The times of one request: wall clock, loop and monotonic clock.\<close>

record Clocks =
  wall :: real
  loop_time :: real
  monotonic :: real

definition auth_middleware ::
    "(string \<Rightarrow> string option) \<Rightarrow> Settings \<Rightarrow> Clocks \<Rightarrow> Request \<Rightarrow> SessionStore \<times> RateLimiter \<Rightarrow>
     response \<times> SessionStore \<times> RateLimiter" where
  "auth_middleware b64 cfg t rq st =
     (if \<not> using_password cfg \<or> verb rq = ''OPTIONS'' \<or> is_open_path rq then (Handled, st)
      else
        let ip = client_ip (remote rq);
            v = (case extract_bearer_token (authorization rq) of
                   None \<Rightarrow> (None, fst st)
                 | Some token \<Rightarrow> validate_token (wall t) (loop_time t) token (fst st))
        in if fst v \<noteq> None then (Handled, snd v, snd st)
           else case parse_basic_auth b64 (authorization rq) of
             None \<Rightarrow> (Unauthorized ''Authentication required'', snd v, snd st)
           | Some (user, pw) \<Rightarrow>
               (case remaining_lockout (monotonic t) ip (snd st) of
                  (left, r1) \<Rightarrow>
                    if 0 < left
                    then (Unauthorized ''Too many failed attempts; try again later'', snd v, r1)
                    else if password_ok cfg user pw then (Handled, snd v, clear_ip ip r1)
                    else (Unauthorized ''Authentication required'', snd v, record_failure (monotonic t) ip r1)))"

definition TRUSTED_INGRESS_PEERS :: "string list" where
  "TRUSTED_INGRESS_PEERS = [''127.0.0.1'', ''::1'', ''172.30.32.2'']"

definition ingress_peer_guard :: "Request \<Rightarrow> response" where
  "ingress_peer_guard rq =
     (case peername rq of
        None \<Rightarrow> Forbidden ''Forbidden''
      | Some ip \<Rightarrow> if ip \<in> set TRUSTED_INGRESS_PEERS then Handled else Forbidden ''Forbidden'')"

section \<open>Origins\<close>

text \<open>The URL and address parsers, \<open>None\<close> where they raise.\<close>

record UrlLib =
  netloc :: "string \<Rightarrow> string option"
  url_hostname :: "string \<Rightarrow> string option option"
  split_hostname :: "string \<Rightarrow> string option option"
  ip_address :: "string \<Rightarrow> string option"

definition normalize_host :: "UrlLib \<Rightarrow> string \<Rightarrow> string" where
  "normalize_host u h =
     (let stripped = strip h
      in case (if starts_with stripped ''['' then None else ip_address u stripped) of
           Some ip \<Rightarrow> ip
         | None \<Rightarrow>
             (case split_hostname u (''//'' @ stripped) of
                Some (Some name) \<Rightarrow> (case ip_address u name of Some ip \<Rightarrow> ip | None \<Rightarrow> lower name)
              | _ \<Rightarrow> lower stripped))"

definition origin_matches_host :: "UrlLib \<Rightarrow> string \<Rightarrow> string \<Rightarrow> bool" where
  "origin_matches_host u org request_host =
     (case netloc u org of None \<Rightarrow> False | Some n \<Rightarrow> n \<noteq> [] \<and> n = request_host)"

definition origin_in_allowlist :: "UrlLib \<Rightarrow> string \<Rightarrow> string list \<Rightarrow> bool" where
  "origin_in_allowlist u org allowlist =
     (if allowlist = [] then False
      else if ''*'' \<in> set allowlist then True
      else case url_hostname u org of
        None \<Rightarrow> False
      | Some h \<Rightarrow>
          let hostname = normalize_host u (case h of None \<Rightarrow> [] | Some x \<Rightarrow> x)
          in hostname \<noteq> [] \<and> (\<exists>entry \<in> set allowlist. normalize_host u entry = hostname))"

definition host_in_allowlist :: "UrlLib \<Rightarrow> string \<Rightarrow> string list \<Rightarrow> bool" where
  "host_in_allowlist u request_host allowlist =
     (if allowlist = [] \<or> ''*'' \<in> set allowlist then True
      else \<exists>entry \<in> set allowlist. normalize_host u entry = normalize_host u request_host)"

definition request_origin_allowed :: "UrlLib \<Rightarrow> string \<Rightarrow> string \<Rightarrow> string list \<Rightarrow> bool" where
  "request_origin_allowed u org request_host domains \<longleftrightarrow>
     origin_matches_host u org request_host \<or> origin_in_allowlist u org domains"

definition reject_untrusted_browser_request :: "UrlLib \<Rightarrow> Settings \<Rightarrow> Request \<Rightarrow> response option" where
  "reject_untrusted_browser_request u cfg rq =
     (case origin rq of
        None \<Rightarrow> None
      | Some org \<Rightarrow>
          if org = [] \<or> trusted_site cfg then None
          else if \<not> request_origin_allowed u org (host rq) (trusted_domains cfg)
          then Some (Forbidden ''Cross-origin connection rejected'')
          else if \<not> host_in_allowlist u (host rq) (trusted_domains cfg)
          then Some (Forbidden ''Host not in trusted-domains allowlist'')
          else None)"

section \<open>The commands of the connection\<close>

text \<open>What the gate reads and writes of a \<open>WebSocketClient\<close>.\<close>

record WsClient =
  ws_remote :: string
  authenticated :: bool
  token :: "string option"
  close_after_send :: bool

definition set_authenticated :: "string option \<Rightarrow> WsClient \<Rightarrow> WsClient" where
  "set_authenticated t c = c\<lparr>authenticated := True, token := t\<rparr>"

definition schedule_close :: "WsClient \<Rightarrow> WsClient" where
  "schedule_close c = c\<lparr>close_after_send := True\<rparr>"

type_synonym token_reply = "(string \<times> real) result"

text \<open>\<open>auth/login\<close>; \<open>fresh\<close> is the token \<open>secrets.token_urlsafe\<close> would draw.\<close>

definition login ::
    "Settings \<Rightarrow> Clocks \<Rightarrow> string \<Rightarrow> string \<Rightarrow> string \<Rightarrow> string \<Rightarrow> WsClient \<Rightarrow> SessionStore \<times> RateLimiter \<Rightarrow>
     token_reply \<times> WsClient \<times> SessionStore \<times> RateLimiter" where
  "login cfg t fresh user pw tok c st =
     (if tok \<noteq> [] then
        (case validate_token (wall t) (loop_time t) tok (fst st) of
           (None, ss) \<Rightarrow> (Inl (CommandError NOT_AUTHENTICATED ''Invalid or expired token''), c, ss, snd st)
         | (Some se, ss) \<Rightarrow>
             (Inr (se_token se, se_expires_at se), set_authenticated (Some (se_token se)) c, ss, snd st))
      else
        let ip = (if ws_remote c = [] then ''?'' else ws_remote c)
        in case remaining_lockout (monotonic t) ip (snd st) of
             (left, r1) \<Rightarrow>
               if 0 < left
               then (Inl (CommandError RATE_LIMITED
                       (''Too many failed attempts; try again in '' @ show_nat (nat \<lfloor>left\<rfloor> + 1) @ ''s'')), c, fst st, r1)
               else if \<not> password_ok cfg user pw
               then (Inl (CommandError NOT_AUTHENTICATED ''Invalid credentials''), c, fst st,
                     record_failure (monotonic t) ip r1)
               else case create_session (wall t) (loop_time t) fresh (fst st) of
                 (se, ss) \<Rightarrow>
                   (Inr (se_token se, se_expires_at se), set_authenticated (Some (se_token se)) c, ss, clear_ip ip r1))"

definition logout :: "Clocks \<Rightarrow> WsClient \<Rightarrow> SessionStore \<Rightarrow> WsClient \<times> SessionStore" where
  "logout t c ss =
     (schedule_close c,
      case token c of
        None \<Rightarrow> ss
      | Some tok \<Rightarrow> if tok = [] then ss else revoke (loop_time t) tok ss)"

definition refresh :: "Clocks \<Rightarrow> WsClient \<Rightarrow> SessionStore \<Rightarrow> token_reply \<times> SessionStore" where
  "refresh t c ss =
     (case token c of
        None \<Rightarrow> (Inl (CommandError NOT_AUTHENTICATED ''No active session''), ss)
      | Some tok \<Rightarrow>
          if tok = [] then (Inl (CommandError NOT_AUTHENTICATED ''No active session''), ss)
          else case validate_token (wall t) (loop_time t) tok ss of
            (None, ss1) \<Rightarrow> (Inl (CommandError NOT_AUTHENTICATED ''Session expired''), ss1)
          | (Some se, ss1) \<Rightarrow> (Inr (se_token se, se_expires_at se), ss1))"

text \<open>
  The handshake: a refused origin gets no connection; a bearer token in the header authenticates it at once.
  \<open>requires_auth\<close> of the greeting is the negation of what the connection starts with.
\<close>

definition websocket_handler ::
    "UrlLib \<Rightarrow> Settings \<Rightarrow> Clocks \<Rightarrow> Request \<Rightarrow> SessionStore \<Rightarrow> (response + WsClient) \<times> SessionStore" where
  "websocket_handler u cfg t rq ss =
     (case reject_untrusted_browser_request u cfg rq of
        Some rejected \<Rightarrow> (Inl rejected, ss)
      | None \<Rightarrow>
          let c = \<lparr>ws_remote = (case remote rq of None \<Rightarrow> [] | Some ip \<Rightarrow> ip),
                   authenticated = trusted_site cfg \<or> \<not> using_password cfg, token = None, close_after_send = False\<rparr>
          in if authenticated c then (Inr c, ss)
             else case extract_bearer_token (authorization rq) of
               None \<Rightarrow> (Inr c, ss)
             | Some bearer \<Rightarrow>
                 (case validate_token (wall t) (loop_time t) bearer ss of
                    (None, ss1) \<Rightarrow> (Inr c, ss1)
                  | (Some se, ss1) \<Rightarrow> (Inr (set_authenticated (Some (se_token se)) c), ss1)))"

definition PRE_AUTH_COMMANDS :: "string list" where
  "PRE_AUTH_COMMANDS = [''auth'', ''auth/login'']"

text \<open>
  What \<open>_handle_command\<close> does with a message before the handler runs: \<open>Reply\<close> is an error sent back with its
  message id, \<open>Run\<close> the handler to call. \<open>parsed\<close> is the message as \<open>CommandMessage.from_dict\<close> reads it.
\<close>

datatype dispatch = Reply string ErrorCode string | Run string string

definition dispatch_command :: "string list \<Rightarrow> WsClient \<Rightarrow> (string \<times> string) option \<Rightarrow> dispatch" where
  "dispatch_command command_handlers c parsed =
     (case parsed of
        None \<Rightarrow> Reply [] INVALID_MESSAGE ''Invalid command format''
      | Some (command, message_id) \<Rightarrow>
          if \<not> authenticated c \<and> command \<notin> set PRE_AUTH_COMMANDS
          then Reply message_id NOT_AUTHENTICATED ''Authentication required''
          else if command \<notin> set command_handlers
          then Reply message_id UNKNOWN_COMMAND (''Unknown command: '' @ command)
          else Run command message_id)"

text \<open>How the handler ended, and what is sent: a result, or an error with its code and details.\<close>

datatype 'a handler_end = Returned 'a | RaisedCommandError ErrorCode string | RaisedBackpressure string | RaisedOther

datatype 'a reply = SendResult string 'a | SendError string ErrorCode string

definition finish_command :: "string \<Rightarrow> string \<Rightarrow> 'a handler_end \<Rightarrow> WsClient \<Rightarrow> 'a reply \<times> WsClient" where
  "finish_command command message_id r c =
     (case r of
        Returned x \<Rightarrow> (SendResult message_id x, c)
      | RaisedCommandError code m \<Rightarrow> (SendError message_id code m, c)
      | RaisedBackpressure m \<Rightarrow> (SendError message_id INTERNAL_ERROR m, schedule_close c)
      | RaisedOther \<Rightarrow> (SendError message_id INTERNAL_ERROR (''Command failed: '' @ command), c))"

section \<open>The gate as a whole\<close>

text \<open>
  The connections, the limiter and the session store, with the refused passwords and the tokens handed out kept
  beside them. \<open>note_use\<close> records the token an operation issued or accepted, if it did.
\<close>

record gate_sys =
  sess :: session_sys
  lim :: RateLimiter
  trail :: "(real \<times> string) list"
  mono :: real
  clients :: "nat \<Rightarrow> WsClient option"

definition note_use :: "real \<Rightarrow> string option \<Rightarrow> SessionStore \<Rightarrow> session_sys \<Rightarrow> session_sys" where
  "note_use now tk ss s =
     (case tk of
        None \<Rightarrow> s\<lparr>store_of := ss, clk := now\<rparr>
      | Some tok \<Rightarrow> s\<lparr>store_of := ss, clk := now, issued := insert tok (issued s), used_at := (used_at s)(tok := now)\<rparr>)"

definition handed_out :: "token_reply \<Rightarrow> string option" where
  "handed_out reply = (case reply of Inl e \<Rightarrow> None | Inr (tok, e) \<Rightarrow> Some tok)"

definition bearer_used :: "Settings \<Rightarrow> Clocks \<Rightarrow> Request \<Rightarrow> SessionStore \<Rightarrow> string option" where
  "bearer_used cfg t rq ss =
     (if \<not> using_password cfg \<or> verb rq = ''OPTIONS'' \<or> is_open_path rq then None
      else case extract_bearer_token (authorization rq) of
        None \<Rightarrow> None
      | Some tok \<Rightarrow> map_option se_token (fst (validate_token (wall t) (loop_time t) tok ss)))"

text \<open>Whether a request has its password looked at or is turned away for a lockout, and whose it is.\<close>

definition password_tried ::
    "(string \<Rightarrow> string option) \<Rightarrow> Settings \<Rightarrow> Clocks \<Rightarrow> Request \<Rightarrow> SessionStore \<Rightarrow> (real \<times> string \<times> bool) option" where
  "password_tried b64 cfg t rq ss =
     (if \<not> using_password cfg \<or> verb rq = ''OPTIONS'' \<or> is_open_path rq \<or> bearer_used cfg t rq ss \<noteq> None then None
      else map_option (\<lambda>(user, pw). (monotonic t, client_ip (remote rq), password_ok cfg user pw))
             (parse_basic_auth b64 (authorization rq)))"

definition ws_ip :: "WsClient \<Rightarrow> string" where
  "ws_ip c = (if ws_remote c = [] then ''?'' else ws_remote c)"

definition trail_after :: "(real \<times> string \<times> bool) option \<Rightarrow> gate_sys \<Rightarrow> (real \<times> string) list" where
  "trail_after e g = (case e of None \<Rightarrow> trail g | Some x \<Rightarrow> snd (guess_step x (lim g, trail g)))"

inductive gate_step ::
    "(string \<Rightarrow> string option) \<Rightarrow> UrlLib \<Rightarrow> Settings \<Rightarrow> string list \<Rightarrow> gate_sys \<Rightarrow> gate_sys \<Rightarrow> bool"
  for b64 :: "string \<Rightarrow> string option" and u :: UrlLib and cfg :: Settings and handlers :: "string list"
where
  connects: "clients g i = None \<Longrightarrow> clk (sess g) \<le> wall t \<Longrightarrow>
    websocket_handler u cfg t rq (store_of (sess g)) = (Inr c, ss) \<Longrightarrow>
    gate_step b64 u cfg handlers g
      (g\<lparr>sess := note_use (wall t) (token c) ss (sess g), clients := (clients g)(i \<mapsto> c)\<rparr>)"
| logs_in: "clients g i = Some c \<Longrightarrow> dispatch_command handlers c (Some (''auth/login'', mid)) = Run ''auth/login'' mid \<Longrightarrow>
    clk (sess g) \<le> wall t \<Longrightarrow> mono g \<le> monotonic t \<Longrightarrow> fresh \<notin> issued (sess g) \<Longrightarrow> fresh \<noteq> [] \<Longrightarrow>
    login cfg t fresh user pw tok c (store_of (sess g), lim g) = (reply, c', ss, r) \<Longrightarrow>
    gate_step b64 u cfg handlers g
      (g\<lparr>sess := note_use (wall t) (handed_out reply) ss (sess g), lim := r,
         trail := trail_after (if tok = [] then Some (monotonic t, ws_ip c, password_ok cfg user pw) else None) g,
         mono := monotonic t, clients := (clients g)(i \<mapsto> c')\<rparr>)"
| logs_out: "clients g i = Some c \<Longrightarrow> dispatch_command handlers c (Some (''auth/logout'', mid)) = Run ''auth/logout'' mid \<Longrightarrow>
    logout t c (store_of (sess g)) = (c', ss) \<Longrightarrow>
    gate_step b64 u cfg handlers g
      (g\<lparr>sess := (sess g)\<lparr>store_of := ss,
           revoked := (case token c of None \<Rightarrow> revoked (sess g)
                       | Some tok \<Rightarrow> insert tok (revoked (sess g)) \<inter> issued (sess g))\<rparr>,
         clients := (clients g)(i \<mapsto> c')\<rparr>)"
| refreshes: "clients g i = Some c \<Longrightarrow> dispatch_command handlers c (Some (''auth/refresh'', mid)) = Run ''auth/refresh'' mid \<Longrightarrow>
    clk (sess g) \<le> wall t \<Longrightarrow> refresh t c (store_of (sess g)) = (reply, ss) \<Longrightarrow>
    gate_step b64 u cfg handlers g (g\<lparr>sess := note_use (wall t) (handed_out reply) ss (sess g)\<rparr>)"
| requests: "clk (sess g) \<le> wall t \<Longrightarrow> mono g \<le> monotonic t \<Longrightarrow>
    auth_middleware b64 cfg t rq (store_of (sess g), lim g) = (res, ss, r) \<Longrightarrow>
    gate_step b64 u cfg handlers g
      (g\<lparr>sess := note_use (wall t) (bearer_used cfg t rq (store_of (sess g))) ss (sess g), lim := r,
         trail := trail_after (password_tried b64 cfg t rq (store_of (sess g))) g, mono := monotonic t\<rparr>)"
| closes: "gate_step b64 u cfg handlers g (g\<lparr>clients := (clients g)(i := None)\<rparr>)"
| finishes: "clients g i = Some c \<Longrightarrow> finish_command command mid (r :: json handler_end) c = (reply, c') \<Longrightarrow>
    gate_step b64 u cfg handlers g (g\<lparr>clients := (clients g)(i \<mapsto> c')\<rparr>)"
| files: "internal_step (session_file (store_of (sess g))) f \<Longrightarrow>
    gate_step b64 u cfg handlers g
      (g\<lparr>sess := (sess g)\<lparr>store_of := (store_of (sess g))\<lparr>session_file := f\<rparr>\<rparr>\<rparr>)"

definition gate_init :: "gate_sys \<Rightarrow> bool" where
  "gate_init g \<longleftrightarrow> session_init (sess g) \<and> lim g = new_RateLimiter \<and> trail g = [] \<and> 0 \<le> mono g \<and> clients g = Map.empty"

text \<open>A connection may be authenticated because the site needs no password, or by a token the server issued.\<close>

definition entitled :: "Settings \<Rightarrow> string set \<Rightarrow> WsClient \<Rightarrow> bool" where
  "entitled cfg tokens c \<longleftrightarrow> (authenticated c \<longrightarrow>
     trusted_site cfg \<or> \<not> using_password cfg \<or> (\<exists>tok \<in> tokens. token c = Some tok))"

definition gate_inv :: "Settings \<Rightarrow> gate_sys \<Rightarrow> bool" where
  "gate_inv cfg g \<longleftrightarrow> session_inv (sess g) \<and> guarded (mono g) (lim g, trail g) \<and> limits (lim g) = limits new_RateLimiter \<and>
     (\<forall>i c. clients g i = Some c \<longrightarrow> entitled cfg (issued (sess g)) c)"

section \<open>What the operations do to the parts\<close>

lemma note_validate:
  assumes "session_inv s" "clk s \<le> now" "validate_token now lnow tok (store_of s) = (r, ss)"
  shows "session_inv (note_use now (map_option se_token r) ss s)" "issued (note_use now (map_option se_token r) ss s) = issued s"
    "r = Some se \<Longrightarrow> se_token se = tok \<and> tok \<in> issued s"
proof -
  note d = session_invD(1) [OF assms(1)]
  show tok: "se_token se = tok \<and> tok \<in> issued s" if r: "r = Some se" for se
  proof -
    obtain old where old: "dict_get (sessions (store_of s)) tok = Some old" "se_token se = se_token old"
      using assms(3) r by (auto simp: validate_token_def Let_def split: if_splits option.splits)
    then show ?thesis using dict_get_genuine [OF d old(1)] by simp
  qed
  then show i: "issued (note_use now (map_option se_token r) ss s) = issued s"
    by (auto simp: note_use_def insert_absorb split: option.split)
  have "note_use now (map_option se_token r) ss s =
      s\<lparr>store_of := ss, clk := now, used_at := (case r of None \<Rightarrow> used_at s | Some se \<Rightarrow> (used_at s)(tok := now))\<rparr>"
    using tok by (auto simp: note_use_def insert_absorb split: option.split)
  then show "session_inv (note_use now (map_option se_token r) ss s)"
    using session_inv_validate [OF assms] by simp
qed

text \<open>A clock that only moves on.\<close>

lemma note_clock:
  assumes "session_inv s" "clk s \<le> now"
  shows "session_inv (note_use now None (store_of s) s)"
proof -
  have "validate_token now 0 [] (store_of s) = (None, store_of s)" by (simp add: validate_token_def)
  from note_validate(1) [OF assms this] show ?thesis by simp
qed

lemma guarded_later: "guarded m c \<Longrightarrow> m \<le> now \<Longrightarrow> guarded now c"
  unfolding guarded_def using knows_later by blast

lemma default_limits:
  "limits r = limits new_RateLimiter \<Longrightarrow> 0 < max_attempts r \<and> 0 < window_seconds r \<and> window_seconds r \<le> lockout_seconds r"
  by (simp add: limits_def new_RateLimiter_def RATE_LIMIT_MAX_ATTEMPTS_def RATE_LIMIT_WINDOW_SECONDS_def
      RATE_LIMIT_LOCKOUT_SECONDS_def)

text \<open>An attempt, counted by the limiter and by the trail alike.\<close>

lemma guarded_try:
  assumes "guarded m (r, tr)" "limits r = limits new_RateLimiter" "m \<le> now"
  shows "guarded now (snd (try_password now ip ok r), snd (guess_step (now, ip, ok) (r, tr)))"
    "limits (snd (try_password now ip ok r)) = limits new_RateLimiter"
proof -
  have "fst (guess_step (now, ip, ok) (r, tr)) = snd (try_password now ip ok r)"
    by (auto simp: guess_step_def split: prod.split option.split bool.split)
  moreover have "guarded now (guess_step (now, ip, ok) (r, tr)) \<and> limits (fst (guess_step (now, ip, ok) (r, tr))) = limits r"
    using guess_step_ok [OF assms(1,3)] default_limits [OF assms(2)] by simp
  ultimately show "guarded now (snd (try_password now ip ok r), snd (guess_step (now, ip, ok) (r, tr)))"
    "limits (snd (try_password now ip ok r)) = limits new_RateLimiter"
    using assms(2) by (metis prod.collapse)+
qed

lemma try_password_cases:
  "try_password now ip ok r =
     (case remaining_lockout now ip r of
        (left, r1) \<Rightarrow> if 0 < left then (None, r1) else if ok then (Some True, clear_ip ip r1)
                      else (Some False, record_failure now ip r1))"
  by (simp add: try_password_def)

lemma login_parts:
  assumes "login cfg t fresh user pw tok c (ss0, r0) = (reply, c', ss, r)"
  shows "tok = [] \<Longrightarrow> r = snd (try_password (monotonic t) (ws_ip c) (password_ok cfg user pw) r0)"
    "tok \<noteq> [] \<Longrightarrow> r = r0"
    "(\<exists>v. tok \<noteq> [] \<and> validate_token (wall t) (loop_time t) tok ss0 = (v, ss) \<and> handed_out reply = map_option se_token v) \<or>
     (\<exists>se. tok = [] \<and> create_session (wall t) (loop_time t) fresh ss0 = (se, ss) \<and> handed_out reply = Some fresh) \<or>
     tok = [] \<and> ss = ss0 \<and> handed_out reply = None"
    "c' = (case handed_out reply of None \<Rightarrow> c | Some k \<Rightarrow> set_authenticated (Some k) c)"
  using assms
  by (auto simp: login_def try_password_def ws_ip_def handed_out_def create_session_def Let_def
      split: if_splits option.splits prod.splits)

lemma middleware_parts:
  assumes "auth_middleware b64 cfg t rq (ss0, r0) = (res, ss, r)"
  shows "r = (case password_tried b64 cfg t rq ss0 of None \<Rightarrow> r0
        | Some (now, ip, ok) \<Rightarrow> snd (try_password now ip ok r0))"
    "(\<exists>tok v. validate_token (wall t) (loop_time t) tok ss0 = (v, ss) \<and> bearer_used cfg t rq ss0 = map_option se_token v) \<or>
     ss = ss0 \<and> bearer_used cfg t rq ss0 = None"
proof -
  let ?free = "\<not> using_password cfg \<or> verb rq = ''OPTIONS'' \<or> is_open_path rq"
  define v where "v = (case extract_bearer_token (authorization rq) of None \<Rightarrow> (None, ss0)
      | Some tok \<Rightarrow> validate_token (wall t) (loop_time t) tok ss0)"
  have used: "bearer_used cfg t rq ss0 = (if ?free then None else map_option se_token (fst v))"
    by (simp add: bearer_used_def v_def split: option.split)
  have ss: "ss = (if ?free then ss0 else snd v)"
    using assms by (auto simp: auth_middleware_def v_def Let_def split: if_splits option.splits prod.splits)
  show "(\<exists>tok v. validate_token (wall t) (loop_time t) tok ss0 = (v, ss) \<and> bearer_used cfg t rq ss0 = map_option se_token v) \<or>
     ss = ss0 \<and> bearer_used cfg t rq ss0 = None"
  proof (cases "?free \<or> extract_bearer_token (authorization rq) = None")
    case True
    then show ?thesis by (auto simp: used ss v_def)
  next
    case False
    then obtain tok where "v = validate_token (wall t) (loop_time t) tok ss0" by (auto simp: v_def)
    then show ?thesis using False by (intro disjI1 exI [of _ tok] exI [of _ "fst v"]) (simp add: used ss)
  qed
  have r: "auth_middleware b64 cfg t rq (ss0, r0) = (if ?free then (Handled, ss0, r0)
     else if fst v \<noteq> None then (Handled, snd v, r0)
     else case parse_basic_auth b64 (authorization rq) of
       None \<Rightarrow> (Unauthorized ''Authentication required'', snd v, r0)
     | Some (user, pw) \<Rightarrow>
         (case try_password (monotonic t) (client_ip (remote rq)) (password_ok cfg user pw) r0 of
            (None, r1) \<Rightarrow> (Unauthorized ''Too many failed attempts; try again later'', snd v, r1)
          | (Some ok, r1) \<Rightarrow> (if ok then Handled else Unauthorized ''Authentication required'', snd v, r1)))"
    unfolding auth_middleware_def Let_def fst_conv snd_conv v_def [symmetric] try_password_def
    by (simp split: prod.split option.split)
  show "r = (case password_tried b64 cfg t rq ss0 of None \<Rightarrow> r0
        | Some (now, ip, ok) \<Rightarrow> snd (try_password now ip ok r0))"
    using assms unfolding r
    by (auto simp: password_tried_def used split: if_splits option.splits prod.splits)
qed

text \<open>A request comes through only where it may.\<close>

lemma middleware_handled:
  assumes "auth_middleware b64 cfg t rq (ss0, r0) = (Handled, ss, r)" "using_password cfg" "verb rq \<noteq> ''OPTIONS''"
    "\<not> is_open_path rq"
  shows "bearer_used cfg t rq ss0 \<noteq> None \<or>
    (\<exists>user pw. parse_basic_auth b64 (authorization rq) = Some (user, pw) \<and> password_ok cfg user pw \<and>
       fst (remaining_lockout (monotonic t) (client_ip (remote rq)) r0) \<le> 0)"
  using assms
  by (auto simp: auth_middleware_def bearer_used_def Let_def split: if_splits option.splits prod.splits)

section \<open>Every run of the gate\<close>

lemma gate_invD:
  assumes "gate_inv cfg g"
  shows "session_inv (sess g)" "guarded (mono g) (lim g, trail g)" "limits (lim g) = limits new_RateLimiter"
    "clients g i = Some c \<Longrightarrow> entitled cfg (issued (sess g)) c"
  using assms by (auto simp: gate_inv_def)

lemma entitled_mono: "entitled cfg tokens c \<Longrightarrow> tokens \<subseteq> tokens' \<Longrightarrow> entitled cfg tokens' c"
  by (auto simp: entitled_def)

lemma gate_invI:
  assumes "gate_inv cfg g" "session_inv (sess g')" "guarded (mono g') (lim g', trail g')"
    "limits (lim g') = limits new_RateLimiter" "issued (sess g) \<subseteq> issued (sess g')"
    "\<And>i c. clients g' i = Some c \<Longrightarrow> clients g i = Some c \<or> entitled cfg (issued (sess g')) c"
  shows "gate_inv cfg g'"
  using assms entitled_mono unfolding gate_inv_def by blast

lemma issued_note_use: "issued s \<subseteq> issued (note_use now tk ss s)" "issued (note_use now (Some k) ss s) = insert k (issued s)"
  by (auto simp: note_use_def split: option.split)

text \<open>A login or a refresh, by a token or a password: the sessions stay sound and hold what was handed out.\<close>

lemma note_login:
  assumes "session_inv s" "clk s \<le> wall t" "fresh \<notin> issued s" "fresh \<noteq> []"
    "login cfg t fresh user pw tok c (store_of s, r0) = (reply, c', ss, r)"
  shows "session_inv (note_use (wall t) (handed_out reply) ss s)"
proof -
  consider v where "validate_token (wall t) (loop_time t) tok (store_of s) = (v, ss)" "handed_out reply = map_option se_token v"
    | se where "create_session (wall t) (loop_time t) fresh (store_of s) = (se, ss)" "handed_out reply = Some fresh"
    | "ss = store_of s" "handed_out reply = None"
    using login_parts(3) [OF assms(5)] by metis
  then show ?thesis
  proof cases
    case 1
    then show ?thesis using note_validate(1) [OF assms(1,2)] by simp
  next
    case 2
    then show ?thesis using session_inv_create [OF assms(1,2,3,4) 2(1)] by (simp add: note_use_def)
  qed (use note_clock [OF assms(1,2)] in simp)
qed

lemma refresh_parts:
  assumes "refresh t c ss0 = (reply, ss)"
  shows "\<exists>tok v. validate_token (wall t) (loop_time t) tok ss0 = (v, ss) \<and> handed_out reply = map_option se_token v"
proof (cases "token c = None \<or> token c = Some []")
  case True
  then have "validate_token (wall t) (loop_time t) [] ss0 = (None, ss)" "handed_out reply = None"
    using assms by (auto simp: refresh_def validate_token_def handed_out_def)
  then show ?thesis by (metis option.map_disc_iff)
next
  case False
  then obtain tok where "token c = Some tok" "tok \<noteq> []" by auto
  then show ?thesis
    using assms by (intro exI [of _ tok] exI [of _ "fst (validate_token (wall t) (loop_time t) tok ss0)"])
      (auto simp: refresh_def handed_out_def split: option.splits prod.splits)
qed

lemma handshake_parts:
  assumes "websocket_handler u cfg t rq ss0 = (Inr c, ss)"
  shows "(\<exists>tok v. validate_token (wall t) (loop_time t) tok ss0 = (v, ss) \<and> token c = map_option se_token v) \<or>
      ss = ss0 \<and> token c = None"
    "authenticated c \<Longrightarrow> trusted_site cfg \<or> \<not> using_password cfg \<or> token c \<noteq> None"
    "reject_untrusted_browser_request u cfg rq = None"
proof -
  show "reject_untrusted_browser_request u cfg rq = None"
    using assms by (auto simp: websocket_handler_def split: option.splits)
  then show "authenticated c \<Longrightarrow> trusted_site cfg \<or> \<not> using_password cfg \<or> token c \<noteq> None"
    using assms by (auto simp: websocket_handler_def set_authenticated_def Let_def split: option.splits if_splits prod.splits)
  show "(\<exists>tok v. validate_token (wall t) (loop_time t) tok ss0 = (v, ss) \<and> token c = map_option se_token v) \<or>
      ss = ss0 \<and> token c = None"
  proof (cases "trusted_site cfg \<or> \<not> using_password cfg \<or> extract_bearer_token (authorization rq) = None")
    case True
    then show ?thesis
      using assms \<open>reject_untrusted_browser_request u cfg rq = None\<close> by (auto simp: websocket_handler_def Let_def split: if_splits)
  next
    case False
    then obtain tok where "extract_bearer_token (authorization rq) = Some tok" by auto
    then show ?thesis
      using assms False \<open>reject_untrusted_browser_request u cfg rq = None\<close>
      by (intro disjI1 exI [of _ tok] exI [of _ "fst (validate_token (wall t) (loop_time t) tok ss0)"])
        (auto simp: websocket_handler_def set_authenticated_def Let_def split: option.splits prod.splits)
  qed
qed

lemma gate_inv_step:
  assumes "gate_step b64 u cfg handlers g g'" "gate_inv cfg g"
  shows "gate_inv cfg g'"
  using assms
proof (induction rule: gate_step.induct)
  case (connects g i t rq c ss)
  note d = gate_invD [OF connects.prems]
  have "session_inv (note_use (wall t) (token c) ss (sess g))"
    using handshake_parts(1) [OF connects.hyps(3)] note_validate(1) [OF d(1) connects.hyps(2)] note_clock [OF d(1) connects.hyps(2)]
    by auto
  moreover have "entitled cfg (issued (note_use (wall t) (token c) ss (sess g))) c"
    using handshake_parts(2) [OF connects.hyps(3)] by (auto simp: entitled_def issued_note_use)
  ultimately show ?case
    by (intro gate_invI [OF connects.prems]) (use d issued_note_use in \<open>auto split: if_splits\<close>)
next
  case (logs_in g i c mid t fresh user pw tok reply c' ss r)
  note d = gate_invD [OF logs_in.prems] and p = login_parts [OF logs_in.hyps(7)]
  have "guarded (monotonic t) (r, trail_after (if tok = [] then Some (monotonic t, ws_ip c, password_ok cfg user pw) else None) g)"
    "limits r = limits new_RateLimiter"
    using guarded_try [OF d(2,3) logs_in.hyps(4), of "ws_ip c" "password_ok cfg user pw"] guarded_later [OF d(2) logs_in.hyps(4)] d(3) p(1,2)
    by (auto simp: trail_after_def)
  moreover have "entitled cfg (issued (note_use (wall t) (handed_out reply) ss (sess g))) c'"
    using p(4) entitled_mono [OF d(4) [OF logs_in.hyps(1)] issued_note_use(1)]
    by (auto simp: entitled_def set_authenticated_def issued_note_use split: option.splits)
  ultimately show ?case
    by (intro gate_invI [OF logs_in.prems])
      (use note_login [OF d(1) logs_in.hyps(3,5,6,7)] issued_note_use in \<open>auto split: if_splits\<close>)
next
  case (logs_out g i c mid t c' ss)
  note d = gate_invD [OF logs_out.prems]
  have "session_inv ((sess g)\<lparr>store_of := ss, revoked := (case token c of None \<Rightarrow> revoked (sess g)
      | Some tok \<Rightarrow> insert tok (revoked (sess g)) \<inter> issued (sess g))\<rparr>)"
  proof (cases "token c")
    case None
    then show ?thesis using logs_out.hyps(3) d(1) by (auto simp: logout_def)
  next
    case (Some tok)
    have "dict_get (sessions (store_of (sess g))) [] = None"
      using dict_get_genuine(2) [OF session_invD(1) [OF d(1)]] by (cases "dict_get (sessions (store_of (sess g))) []") auto
    then have "ss = revoke (loop_time t) tok (store_of (sess g))"
      using logs_out.hyps(3) Some by (auto simp: logout_def revoke_def split: if_splits)
    then show ?thesis using session_inv_revoke(1) [OF d(1)] Some by simp
  qed
  moreover have "entitled cfg (issued (sess g)) c'"
    using d(4) [OF logs_out.hyps(1)] logs_out.hyps(3) by (auto simp: logout_def schedule_close_def entitled_def)
  ultimately show ?case by (intro gate_invI [OF logs_out.prems]) (use d in \<open>auto split: if_splits\<close>)
next
  case (refreshes g i c mid t reply ss)
  note d = gate_invD [OF refreshes.prems]
  obtain tok v where "validate_token (wall t) (loop_time t) tok (store_of (sess g)) = (v, ss)" "handed_out reply = map_option se_token v"
    using refresh_parts [OF refreshes.hyps(4)] by blast
  then have "session_inv (note_use (wall t) (handed_out reply) ss (sess g))"
    using note_validate(1) [OF d(1) refreshes.hyps(3)] by simp
  then show ?case by (intro gate_invI [OF refreshes.prems]) (use d issued_note_use in auto)
next
  case (requests g t rq res ss r)
  note d = gate_invD [OF requests.prems] and p = middleware_parts [OF requests.hyps(3)]
  have "session_inv (note_use (wall t) (bearer_used cfg t rq (store_of (sess g))) ss (sess g))"
    using p(2) note_validate(1) [OF d(1) requests.hyps(1)] note_clock [OF d(1) requests.hyps(1)] by auto
  moreover have "guarded (monotonic t) (r, trail_after (password_tried b64 cfg t rq (store_of (sess g))) g)"
    "limits r = limits new_RateLimiter"
  proof -
    show "guarded (monotonic t) (r, trail_after (password_tried b64 cfg t rq (store_of (sess g))) g)" "limits r = limits new_RateLimiter"
      using guarded_try [OF d(2,3) requests.hyps(2)] guarded_later [OF d(2) requests.hyps(2)] d(3) p(1)
      by (auto simp: trail_after_def password_tried_def split: if_splits option.splits)
  qed
  ultimately show ?case by (intro gate_invI [OF requests.prems]) (use issued_note_use in auto)
next
  case (closes g i)
  then show ?case by (intro gate_invI [OF closes]) (use gate_invD [OF closes] in \<open>auto split: if_splits\<close>)
next
  case (finishes g i c command mid r reply c')
  note d = gate_invD [OF finishes.prems]
  have "entitled cfg (issued (sess g)) c'"
    using d(4) [OF finishes.hyps(1)] finishes.hyps(2)
    by (auto simp: finish_command_def schedule_close_def entitled_def split: handler_end.splits)
  then show ?case by (intro gate_invI [OF finishes.prems]) (use d in \<open>auto split: if_splits\<close>)
next
  case (files g f)
  note d = gate_invD [OF files.prems]
  have "session_inv ((sess g)\<lparr>store_of := (store_of (sess g))\<lparr>session_file := f\<rparr>\<rparr>)"
    by (rule session_inv_step [OF session_step.writes [OF files.hyps] d(1)])
  then show ?case by (intro gate_invI [OF files.prems]) (use d in auto)
qed

lemma gate_inv_init: "gate_init g \<Longrightarrow> gate_inv cfg g"
  using session_inv_init [of "sess g"]
  by (auto simp: gate_init_def gate_inv_def guarded_def knows_def attempts_of_def in_window_def new_RateLimiter_def
      RATE_LIMIT_MAX_ATTEMPTS_def)

interpretation gate_machine: state_machine gate_init "gate_step b64 u cfg handlers" "gate_inv cfg"
  using gate_inv_init gate_inv_step by unfold_locales blast+



section \<open>An example\<close>

text \<open>A dashboard with a password: a connection without a token, and its login.\<close>

definition ex_settings :: Settings where
  "ex_settings = \<lparr>using_password = True, password_ok = (\<lambda>user pw. user = ''admin'' \<and> pw = ''pw''), trusted_domains = [],
     trusted_site = False\<rparr>"

definition ex_request :: "string \<Rightarrow> Request" where
  "ex_request header = \<lparr>verb = ''GET'', path = ''/api/devices'', authorization = header, remote = Some ''10.0.0.9'',
     origin = None, host = ''h'', peername = None\<rparr>"

definition ex_urls :: UrlLib where
  "ex_urls = \<lparr>netloc = (\<lambda>_. None), url_hostname = (\<lambda>_. None), split_hostname = (\<lambda>_. None), ip_address = (\<lambda>_. None)\<rparr>"

definition ex_clocks :: "real \<Rightarrow> Clocks" where
  "ex_clocks x = \<lparr>wall = x, loop_time = x, monotonic = x\<rparr>"

definition ex_gate :: gate_sys where
  "ex_gate = \<lparr>sess = \<lparr>store_of = new_SessionStore TOKEN_TTL_SECONDS None, clk = 0, issued = {}, revoked = {}, used_at = \<lambda>_. 0\<rparr>,
     lim = new_RateLimiter, trail = [], mono = 0, clients = Map.empty\<rparr>"

definition ex_client :: WsClient where
  "ex_client = \<lparr>ws_remote = ''10.0.0.9'', authenticated = False, token = None, close_after_send = False\<rparr>"

definition ex_login :: "token_reply \<times> WsClient \<times> SessionStore \<times> RateLimiter" where
  "ex_login = login ex_settings (ex_clocks 1) ''tok'' ''admin'' ''pw'' [] ex_client
     (new_SessionStore TOKEN_TTL_SECONDS None, new_RateLimiter)"

definition ex_in :: gate_sys where
  "ex_in = ex_gate\<lparr>sess := note_use 1 (Some ''tok'') (fst (snd (snd ex_login))) (note_use 0 None (store_of (sess ex_gate)) (sess ex_gate)),
     lim := snd (snd (snd ex_login)), trail := [], mono := 1, clients := [0 \<mapsto> fst (snd ex_login)]\<rparr>"

lemmas ex_gate_simps = ex_settings_def ex_clocks_def ex_gate_def ex_client_def ex_login_def new_SessionStore_def
  new_RateLimiter_def new_DStore_def

lemma ex_login_result:
  "handed_out (fst ex_login) = Some ''tok''" "authenticated (fst (snd ex_login))" "token (fst (snd ex_login)) = Some ''tok''"
  by (simp_all add: ex_gate_simps login_def remaining_lockout_def create_session_def handed_out_def set_authenticated_def Let_def)

lemma ex_in_reachable:
  "reachable gate_init (gate_step Some ex_urls ex_settings [''auth/login'', ''devices/list'']) ex_in"
proof -
  let ?step = "gate_step Some ex_urls ex_settings [''auth/login'', ''devices/list'']"
  let ?t = "ex_clocks 1" and ?ss = "store_of (sess ex_gate)"
  define g1 where "g1 = ex_gate\<lparr>sess := note_use 0 None ?ss (sess ex_gate), clients := [0 \<mapsto> ex_client]\<rparr>"
  have "reachable gate_init ?step ex_gate"
    by (rule reachable_init) (simp add: gate_init_def session_init_def ex_gate_def new_SessionStore_def)
  moreover have "?step ex_gate g1"
    using gate_step.connects [of ex_gate 0 "ex_clocks 0" ex_urls ex_settings "ex_request []" ex_client ?ss]
    by (simp add: g1_def ex_gate_simps websocket_handler_def reject_untrusted_browser_request_def ex_request_def
        extract_bearer_token_def split_ws1_def Let_def)
  ultimately have r: "reachable gate_init ?step g1" by (rule reachable_step)
  have g1: "store_of (sess g1) = new_SessionStore TOKEN_TTL_SECONDS None" "lim g1 = new_RateLimiter" "trail g1 = []"
    "clients g1 = [0 \<mapsto> ex_client]" "clk (sess g1) = 0" "mono g1 = 0" "issued (sess g1) = {}"
    by (simp_all add: g1_def ex_gate_def note_use_def)
  obtain reply c' ss r' where l: "login ex_settings ?t ''tok'' ''admin'' ''pw'' [] ex_client (store_of (sess g1), lim g1) = (reply, c', ss, r')"
    "ex_login = (reply, c', ss, r')"
    unfolding g1 ex_login_def by (metis prod.collapse)
  have "trail_after (Some (monotonic ?t, ws_ip ex_client, password_ok ex_settings ''admin'' ''pw'')) g1 = []"
    by (simp add: trail_after_def g1 guess_step_def try_password_def remaining_lockout_def ex_gate_simps)
  moreover have "?step g1 (g1\<lparr>sess := note_use (wall ?t) (handed_out reply) ss (sess g1), lim := r',
      trail := trail_after (if [] = ([] :: string) then Some (monotonic ?t, ws_ip ex_client, password_ok ex_settings ''admin'' ''pw'') else None) g1,
      mono := monotonic ?t, clients := (clients g1)(0 \<mapsto> c')\<rparr>)"
    by (rule gate_step.logs_in [OF _ _ _ _ _ _ l(1), where mid = "''1''"])
      (simp_all add: g1 dispatch_command_def ex_client_def PRE_AUTH_COMMANDS_def ex_clocks_def)
  ultimately have "?step g1 ex_in"
    using ex_login_result(1) unfolding l(2) by (simp add: ex_in_def g1_def ex_clocks_def l(2))
  with r show ?thesis by (rule reachable_step)
qed



end
