(* ===== verification/BundleTransfer.thy ===== *)
theory BundleTransfer
  imports Prelude Strings "HOL-Library.Word"
begin

text \<open>
  \<open>helpers/peer_link_bundle.py\<close>: how a bundle or a firmware archive is cut into the chunks of the peer link and put
  together again. The digest is an argument; what the code relies on is that \<open>hexdigest\<close> gives lower-case digits.
  An error is its code, the text of its message is not modelled.
\<close>

type_synonym bytes = "8 word list"

definition BUNDLE_CHUNK_SIZE_BYTES :: nat where
  "BUNDLE_CHUNK_SIZE_BYTES = 32 * 1024"

definition FIRMWARE_MAX_TOTAL_BYTES :: nat where
  "FIRMWARE_MAX_TOTAL_BYTES = 256 * 1024 * 1024"

datatype BundleAssemblerErrorCode =
    OUT_OF_ORDER | POST_COMPLETION | OVERSIZED | UNDERSIZED | HASH_MISMATCH | CHUNK_COUNT_MISMATCH | EMPTY_BUNDLE

section \<open>Cutting\<close>

text \<open>The slices from one offset on; the flag marks the last one.\<close>

function chunk_bundle_iter :: "nat \<Rightarrow> nat \<Rightarrow> bytes \<Rightarrow> (nat \<times> bytes \<times> bool) list" where
  "chunk_bundle_iter chunk_size index data =
     (if data = [] \<or> chunk_size = 0 then []
      else (index, take chunk_size data, length data \<le> chunk_size) #
           chunk_bundle_iter chunk_size (Suc index) (drop chunk_size data))"
  by pat_completeness auto
termination
  by (relation "measure (\<lambda>(_, _, data). length data)") auto

declare chunk_bundle_iter.simps [simp del]

definition chunk_bundle :: "bytes \<Rightarrow> int \<Rightarrow> (nat \<times> bytes \<times> bool) list result" where
  "chunk_bundle data chunk_size =
     (if chunk_size \<le> 0 then Inl (ValueError ''chunk_size must be positive'')
      else Inr (chunk_bundle_iter (nat chunk_size) 0 data))"

section \<open>The assembler\<close>

record BundleAssembler =
  total_bytes :: int
  num_chunks :: int
  sha256_hex :: string
  buf :: bytes
  next_index :: nat
  closed :: bool
  assembled :: "bytes option"

definition new_BundleAssembler ::
    "int \<Rightarrow> int \<Rightarrow> string \<Rightarrow> int \<Rightarrow> BundleAssemblerErrorCode + BundleAssembler" where
  "new_BundleAssembler size_hd n sha max_total =
     (if size_hd \<le> 0 then Inl EMPTY_BUNDLE
      else if n \<le> 0 then Inl CHUNK_COUNT_MISMATCH
      else if max_total < size_hd then Inl OVERSIZED
      else Inr \<lparr>total_bytes = size_hd, num_chunks = n, sha256_hex = lower sha, buf = [], next_index = 0,
                closed = False, assembled = None\<rparr>)"

text \<open>A chunk that contradicts the announced count is refused after it was appended.\<close>

definition feed :: "int \<Rightarrow> bytes \<Rightarrow> bool \<Rightarrow> BundleAssembler \<Rightarrow> BundleAssemblerErrorCode option \<times> BundleAssembler" where
  "feed chunk_index raw is_last a =
     (if closed a then (Some POST_COMPLETION, a)
      else if chunk_index \<noteq> int (next_index a) then (Some OUT_OF_ORDER, a)
      else if total_bytes a < int (length (buf a) + length raw) then (Some OVERSIZED, a)
      else let b = a\<lparr>buf := buf a @ raw, next_index := Suc (next_index a)\<rparr>
           in if is_last \<noteq> (int (next_index b) = num_chunks b) then (Some CHUNK_COUNT_MISMATCH, b)
              else (None, if is_last then b\<lparr>closed := True\<rparr> else b))"

definition finalise :: "(bytes \<Rightarrow> string) \<Rightarrow> BundleAssembler \<Rightarrow> (BundleAssemblerErrorCode + bytes) \<times> BundleAssembler" where
  "finalise sha256 a =
     (case assembled a of
        Some r \<Rightarrow> (Inr r, a)
      | None \<Rightarrow>
          if \<not> closed a then (Inl UNDERSIZED, a)
          else if int (length (buf a)) \<noteq> total_bytes a then (Inl UNDERSIZED, a)
          else if sha256 (buf a) \<noteq> sha256_hex a then (Inl HASH_MISMATCH, a)
          else (Inr (buf a), a\<lparr>assembled := Some (buf a), buf := []\<rparr>))"

text \<open>The chunks in the order they come, up to the first one that is refused.\<close>

fun feed_all :: "(int \<times> bytes \<times> bool) list \<Rightarrow> BundleAssembler \<Rightarrow> BundleAssemblerErrorCode option \<times> BundleAssembler" where
  "feed_all [] a = (None, a)"
| "feed_all ((i, raw, l) # cs) a =
     (case feed i raw l a of
        (Some e, b) \<Rightarrow> (Some e, b)
      | (None, b) \<Rightarrow> feed_all cs b)"

section \<open>What the assembler accepts\<close>

text \<open>While nothing was refused, the buffer is what came, in order, and the stream is closed after the last chunk.\<close>

definition received :: "int \<Rightarrow> int \<Rightarrow> string \<Rightarrow> (int \<times> bytes \<times> bool) list \<Rightarrow> BundleAssembler \<Rightarrow> bool" where
  "received size_hd n sha cs a \<longleftrightarrow>
     total_bytes a = size_hd \<and> num_chunks a = n \<and> sha256_hex a = lower sha \<and> assembled a = None \<and>
     buf a = List.concat (map (fst \<circ> snd) cs) \<and> next_index a = length cs \<and> int (length (buf a)) \<le> size_hd \<and>
     map fst cs = map int [0..<length cs] \<and> (closed a \<longleftrightarrow> int (length cs) = n) \<and>
     (\<forall>k < length cs. snd (snd (cs ! k)) = (int (Suc k) = n))"

lemma received_feed:
  assumes "received size_hd n sha cs a" "feed i raw l a = (None, b)"
  shows "received size_hd n sha (cs @ [(i, raw, l)]) b"
  using assms
  by (auto simp: received_def feed_def Let_def nth_append less_Suc_eq split: if_splits)

lemma received_feed_all:
  "received size_hd n sha ds a \<Longrightarrow> feed_all cs a = (None, b) \<Longrightarrow> received size_hd n sha (ds @ cs) b"
proof (induction cs arbitrary: ds a)
  case (Cons c cs)
  obtain i raw l where c: "c = (i, raw, l)" by (cases c)
  obtain m where m: "feed i raw l a = (None, m)" "feed_all cs m = (None, b)"
    using Cons.prems(2) by (auto simp: c split: prod.splits option.splits)
  show ?case using Cons.IH [OF received_feed [OF Cons.prems(1) m(1)] m(2)] by (simp add: c)
qed simp

lemma feed_bound:
  assumes "feed i raw l a = (r, b)" "int (length (buf a)) \<le> total_bytes a"
  shows "int (length (buf b)) \<le> total_bytes b" "total_bytes b = total_bytes a"
  using assms by (auto simp: feed_def Let_def split: if_splits)

lemma feed_all_bound:
  "feed_all cs a = (r, b) \<Longrightarrow> int (length (buf a)) \<le> total_bytes a \<Longrightarrow>
   int (length (buf b)) \<le> total_bytes b \<and> total_bytes b = total_bytes a"
proof (induction cs arbitrary: a)
  case (Cons c cs)
  obtain i raw l where c: "c = (i, raw, l)" by (cases c)
  obtain e m where m: "feed i raw l a = (e, m)" by fastforce
  note f = feed_bound [OF m Cons.prems(2)]
  show ?case
  proof (cases e)
    case None
    then show ?thesis using Cons.IH [OF _ f(1)] Cons.prems(1) m f(2) by (simp add: c)
  qed (use Cons.prems(1) m f in \<open>simp add: c\<close>)
qed simp

text \<open>
  C18. Whatever chunks a peer sends: when none is refused and the stream is accepted, the result has the announced
  length and digest and is the concatenation of the chunks, which came numbered from 0 in order, as many as announced.
  The buffer never holds more than the announced size, which is within the cap, also when chunks are refused.
\<close>
theorem assembled_is_sent:
  assumes "new_BundleAssembler size_hd n sha cap = Inr a" "feed_all cs a = (r, b)"
  shows "int (length (buf b)) \<le> size_hd \<and> size_hd \<le> cap \<and>
    (r = None \<and> fst (finalise sha256 b) = Inr data \<longrightarrow>
       data = List.concat (map (fst \<circ> snd) cs) \<and> int (length data) = size_hd \<and> sha256 data = lower sha \<and>
       int (length cs) = n \<and> map fst cs = map int [0..<length cs])"
proof -
  have a: "total_bytes a = size_hd" "buf a = []" "size_hd \<le> cap" "0 < size_hd" "received size_hd n sha [] a"
    using assms(1) by (auto simp: new_BundleAssembler_def received_def split: if_splits)
  have "int (length (buf b)) \<le> size_hd" using feed_all_bound [OF assms(2)] a by simp
  moreover have "data = List.concat (map (fst \<circ> snd) cs) \<and> int (length data) = size_hd \<and> sha256 data = lower sha \<and>
      int (length cs) = n \<and> map fst cs = map int [0..<length cs]" if "r = None" "fst (finalise sha256 b) = Inr data"
  proof -
    have "received size_hd n sha cs b" using received_feed_all [OF a(5)] assms(2) that(1) by simp
    then show ?thesis using that(2) by (auto simp: received_def finalise_def split: if_splits)
  qed
  ultimately show ?thesis using a(3) by blast
qed

section \<open>Cut and assembled\<close>

definition wire :: "(nat \<times> bytes \<times> bool) list \<Rightarrow> (int \<times> bytes \<times> bool) list" where
  "wire cs = map (\<lambda>(i, raw, l). (int i, raw, l)) cs"

lemma chunks_pos: "data \<noteq> [] \<Longrightarrow> 0 < k \<Longrightarrow> 0 < length (chunk_bundle_iter k i data)"
  by (subst chunk_bundle_iter.simps) simp

lemma chunks_small: "(j, raw, l) \<in> set (chunk_bundle_iter k i data) \<Longrightarrow> raw \<noteq> [] \<and> length raw \<le> k"
proof (induction k i data rule: chunk_bundle_iter.induct)
  case (1 k i data)
  then show ?case by (subst (asm) (2) chunk_bundle_iter.simps) (auto split: if_splits)
qed

lemma feed_chunks:
  assumes "0 < k" "data \<noteq> []" "\<not> closed a" "next_index a = i"
    "total_bytes a = int (length (buf a) + length data)" "num_chunks a = int (i + length (chunk_bundle_iter k i data))"
  shows "feed_all (wire (chunk_bundle_iter k i data)) a =
    (None, a\<lparr>buf := buf a @ data, next_index := i + length (chunk_bundle_iter k i data), closed := True\<rparr>)"
  using assms
proof (induction k i data arbitrary: a rule: chunk_bundle_iter.induct)
  case (1 k i data)
  have eq: "chunk_bundle_iter k i data = (i, take k data, length data \<le> k) # chunk_bundle_iter k (Suc i) (drop k data)"
    using 1(2,3) by (subst chunk_bundle_iter.simps) simp
  show ?case
  proof (cases "length data \<le> k")
    case True
    then have "chunk_bundle_iter k (Suc i) (drop k data) = []" by (subst chunk_bundle_iter.simps) simp
    then show ?thesis using True 1(4-7) eq by (simp add: wire_def feed_def Let_def)
  next
    case False
    let ?b = "a\<lparr>buf := buf a @ take k data, next_index := Suc i\<rparr>"
    have pos: "0 < length (chunk_bundle_iter k (Suc i) (drop k data))" using False 1(2) by (intro chunks_pos) auto
    then have "feed (int i) (take k data) False a = (None, ?b)"
      using 1(4-7) eq False by (simp add: feed_def Let_def)
    moreover have "feed_all (wire (chunk_bundle_iter k (Suc i) (drop k data))) ?b =
        (None, ?b\<lparr>buf := buf ?b @ drop k data, next_index := Suc i + length (chunk_bundle_iter k (Suc i) (drop k data)), closed := True\<rparr>)"
      by (rule 1(1)) (use 1(2-7) False eq in auto)
    ultimately show ?thesis using eq False by (simp add: wire_def)
  qed
qed

text \<open>
  C17. What is cut by \<open>chunk_bundle\<close> with any chunk size is put together again: the receiver refuses none of the chunks
  and its result is the data that was sent, when the header announces its length, the number of its chunks and its
  digest. No chunk is empty or longer than the chunk size.
\<close>
theorem bundle_roundtrip:
  assumes "data \<noteq> []" "0 < size_hd" "int (length data) \<le> cap" "lower (sha256 data) = sha256 data"
  shows "\<exists>cs a b. chunk_bundle data size_hd = Inr cs \<and> (\<forall>(i, raw, l) \<in> set cs. raw \<noteq> [] \<and> int (length raw) \<le> size_hd) \<and>
    new_BundleAssembler (int (length data)) (int (length cs)) (sha256 data) cap = Inr a \<and>
    feed_all (wire cs) a = (None, b) \<and> fst (finalise sha256 b) = Inr data"
proof -
  let ?k = "nat size_hd" let ?cs = "chunk_bundle_iter ?k 0 data"
  have k: "0 < ?k" "chunk_bundle data size_hd = Inr ?cs" using assms(2) by (simp_all add: chunk_bundle_def)
  define a where "a = \<lparr>total_bytes = int (length data), num_chunks = int (length ?cs), sha256_hex = sha256 data, buf = [],
    next_index = 0, closed = False, assembled = None\<rparr>"
  have new: "new_BundleAssembler (int (length data)) (int (length ?cs)) (sha256 data) cap = Inr a"
    using chunks_pos [OF assms(1) k(1), of 0] assms(1,3,4) by (simp add: new_BundleAssembler_def a_def)
  have "feed_all (wire ?cs) a = (None, a\<lparr>buf := buf a @ data, next_index := 0 + length ?cs, closed := True\<rparr>)"
    by (rule feed_chunks [OF k(1) assms(1)]) (simp_all add: a_def)
  moreover have "fst (finalise sha256 (a\<lparr>buf := buf a @ data, next_index := 0 + length ?cs, closed := True\<rparr>)) = Inr data"
    by (simp add: finalise_def a_def)
  moreover have "raw \<noteq> [] \<and> int (length raw) \<le> size_hd" if "(i, raw, l) \<in> set ?cs" for i raw l
    using chunks_small [OF that] assms(2) by linarith
  ultimately show ?thesis using k(2) new by blast
qed

lemma bundle_roundtrip_witness:
  "\<exists>cs a b. chunk_bundle [1, 2, 3] 2 = Inr cs \<and> new_BundleAssembler 3 (int (length cs)) ''ab'' 10 = Inr a \<and>
     feed_all (wire cs) a = (None, b) \<and> fst (finalise (\<lambda>_. ''ab'') b) = Inr [1, 2, 3]"
proof -
  have "lower ''ab'' = ''ab''" by code_simp
  then show ?thesis using bundle_roundtrip [of "[1, 2, 3]" 2 10 "\<lambda>_. ''ab''"] by auto
qed

lemma assembled_is_sent_witness:
  "\<exists>a b. new_BundleAssembler 3 2 ''AB'' 10 = Inr a \<and> feed_all [(0, [1, 2], False), (1, [3], True)] a = (None, b) \<and>
     fst (finalise (\<lambda>_. ''ab'') b) = Inr [1, 2, 3] \<and> int (length (buf b)) \<le> 3"
proof -
  have low: "lower ''AB'' = ''ab''" by code_simp
  obtain a where a: "new_BundleAssembler 3 2 ''AB'' 10 = Inr a" by (simp add: new_BundleAssembler_def)
  obtain b where b: "feed_all [(0, [1, 2], False), (1, [3], True)] a = (None, b)" "fst (finalise (\<lambda>_. ''ab'') b) = Inr [1, 2, 3]"
    using a low by (auto simp: new_BundleAssembler_def feed_def finalise_def Let_def)
  show ?thesis using assembled_is_sent [OF a b(1), of "\<lambda>_. ''ab''" "[1, 2, 3]"] a b by blast
qed

end
