(* ===== verification/Receiver.thy ===== *)
theory Receiver
  imports DebouncedStore Strings PyRegex "HOL-Library.Word"
begin

text \<open>
  The receiving side of remote builds, first part: the rows of \<open>models/remote_build/receiver.py\<close>, the state of
  \<open>controllers/remote_build/_receiver_state.py\<close> as far as pairing, sessions and the connect-back dialer use it, the cooldown
  ledger of \<open>helpers/cooldown.py\<close> and the dialer of \<open>controllers/remote_build/connect_back.py\<close>. A clock is read once per
  call. Tasks and sessions are numbered objects; \<open>fired\<close> is what went over the event bus, newest first.
\<close>

section \<open>Cooldowns\<close>

record 'k CooldownLedger =
  deadlines :: "('k, real) dict"
  strike_counts :: "('k, nat) dict"

definition new_CooldownLedger :: "'k CooldownLedger" where
  "new_CooldownLedger = \<lparr>deadlines = [], strike_counts = []\<rparr>"

definition deadline_of :: "'k \<Rightarrow> 'k CooldownLedger \<Rightarrow> real" where
  "deadline_of k c = (case dict_get (deadlines c) k of None \<Rightarrow> 0 | Some t \<Rightarrow> t)"

definition cd_ready :: "real \<Rightarrow> 'k \<Rightarrow> 'k CooldownLedger \<Rightarrow> bool" where
  "cd_ready now k c \<longleftrightarrow> deadline_of k c \<le> now"

definition cd_remaining :: "real \<Rightarrow> 'k \<Rightarrow> 'k CooldownLedger \<Rightarrow> real" where
  "cd_remaining now k c = max 0 (deadline_of k c - now)"

definition strikes :: "'k \<Rightarrow> 'k CooldownLedger \<Rightarrow> nat" where
  "strikes k c = (case dict_get (strike_counts c) k of None \<Rightarrow> 0 | Some n \<Rightarrow> n)"

definition cd_set :: "real \<Rightarrow> 'k \<Rightarrow> real \<Rightarrow> 'k CooldownLedger \<Rightarrow> 'k CooldownLedger" where
  "cd_set now k seconds c = c\<lparr>deadlines := dict_set k (now + seconds) (deadlines c)\<rparr>"

definition escalate :: "real \<Rightarrow> 'k \<Rightarrow> real \<Rightarrow> real \<Rightarrow> 'k CooldownLedger \<Rightarrow> 'k CooldownLedger" where
  "escalate now k base cap c =
     (let n = strikes k c + 1
      in cd_set now k (min (base * 2 ^ min (n - 1) 32) cap) (c\<lparr>strike_counts := dict_set k n (strike_counts c)\<rparr>))"

definition cd_discard :: "'k \<Rightarrow> 'k CooldownLedger \<Rightarrow> 'k CooldownLedger" where
  "cd_discard k c = \<lparr>deadlines = dict_pop k (deadlines c), strike_counts = dict_pop k (strike_counts c)\<rparr>"

definition cd_clear :: "'k CooldownLedger \<Rightarrow> 'k CooldownLedger" where
  "cd_clear c = \<lparr>deadlines = [], strike_counts = []\<rparr>"

definition cd_prune :: "('k \<Rightarrow> bool) \<Rightarrow> 'k CooldownLedger \<Rightarrow> 'k CooldownLedger" where
  "cd_prune keep c = \<lparr>deadlines = filter (keep \<circ> fst) (deadlines c), strike_counts = filter (keep \<circ> fst) (strike_counts c)\<rparr>"

lemmas cd_defs = cd_ready_def cd_remaining_def cd_set_def cd_discard_def cd_clear_def cd_prune_def escalate_def

lemma cd_ready_iff: "cd_ready now k c \<longleftrightarrow> cd_remaining now k c = 0"
  by (auto simp: cd_defs)

lemma strikes_set [simp]: "strikes k' (cd_set now k t c) = strikes k' c"
  by (simp add: cd_set_def strikes_def)

lemma escalate_other: "k' \<noteq> k \<Longrightarrow> deadline_of k' (escalate now k base cap c) = deadline_of k' c \<and> strikes k' (escalate now k base cap c) = strikes k' c"
  by (simp add: escalate_def cd_set_def deadline_of_def strikes_def Let_def)

text \<open>The delays of a streak of failures double from the base up to the cap, and one discard ends the streak.\<close>

lemma escalate_delay:
  "strikes k (escalate now k base cap c) = Suc (strikes k c)"
  "deadline_of k (escalate now k base cap c) = now + min (base * 2 ^ min (strikes k c) 32) cap"
  by (simp_all add: escalate_def cd_set_def deadline_of_def strikes_def Let_def)

fun streak :: "'k \<Rightarrow> (real \<times> real) list \<Rightarrow> real \<Rightarrow> 'k CooldownLedger \<Rightarrow> 'k CooldownLedger" where
  "streak k [] cap c = c"
| "streak k ((now, base) # fs) cap c = streak k fs cap (escalate now k base cap c)"

lemma streak_append: "streak k (fs @ gs) cap c = streak k gs cap (streak k fs cap c)"
  by (induction fs arbitrary: c) auto

lemma streak_strikes: "strikes k (streak k fs cap c) = strikes k c + length fs"
  by (induction fs arbitrary: c) (auto simp: escalate_delay)

lemma streak_delay:
  "deadline_of k (streak k (fs @ [(now, base)]) cap (cd_discard k c)) = now + min (base * 2 ^ min (length fs) 32) cap"
proof -
  have "strikes k (cd_discard k c) = 0" by (simp add: cd_discard_def strikes_def)
  then show ?thesis by (simp add: streak_append streak_strikes escalate_delay)
qed

section \<open>Rows\<close>

datatype PeerLinkIntent = PREVIEW | PAIR_REQUEST | PEER_LINK | PAIR_STATUS | CONNECT_BACK

datatype IntentResponse = OK | APPROVED | PENDING | REJECTED | NO_PAIRING_WINDOW

datatype RejectReason =
    NO_APPROVED_PEER | PIN_MISMATCH | PENDING_NOT_APPROVED | BAD_DASHBOARD_ID | BAD_INTENT | BAD_ENDPOINT
  | ALREADY_CONNECTED | REBIND_IN_PROGRESS | PROBE_FAILED

type_synonym IntentOutcome = "IntentResponse \<times> RejectReason option"

definition port_or_zero :: "json \<Rightarrow> nat" where
  "port_or_zero v = (case v of JNum n \<Rightarrow> if 0 < n \<and> n < 65536 then nat n else 0 | _ \<Rightarrow> 0)"

record StoredPeer =
  dashboard_id :: string
  pin_sha256 :: string
  static_x25519_pub :: "8 word list"
  peer_label :: string
  paired_at :: real
  peer_ip :: string
  connect_back_port :: nat
  friendly_name :: string
  ha_addon :: bool
  label_auto :: bool

text \<open>The inputs of one handshake, \<open>_DispatchInput\<close>; the pin is derived from the key the peer proved to hold.\<close>

record DispatchInput =
  in_intent :: PeerLinkIntent
  in_dashboard_id :: string
  in_label :: string
  in_pin :: string
  in_pub :: "8 word list"
  in_ip :: string
  in_key :: "string option"
  in_friendly :: string
  in_addon :: bool
  in_label_auto :: bool
  in_port :: nat

definition refresh_fields :: "StoredPeer \<Rightarrow> string \<times> 8 word list \<times> string \<times> string \<times> string \<times> bool \<times> bool" where
  "refresh_fields p = (pin_sha256 p, static_x25519_pub p, peer_label p, peer_ip p, friendly_name p, ha_addon p, label_auto p)"

definition refresh_from_pair_request :: "DispatchInput \<Rightarrow> StoredPeer \<Rightarrow> bool \<times> StoredPeer" where
  "refresh_from_pair_request i p =
     (let p1 = p\<lparr>pin_sha256 := in_pin i, static_x25519_pub := in_pub i\<rparr>;
          p2 = (if in_label i \<noteq> [] then p1\<lparr>peer_label := in_label i, label_auto := in_label_auto i\<rparr> else p1);
          p3 = (if in_ip i \<noteq> [] then p2\<lparr>peer_ip := in_ip i\<rparr> else p2);
          p4 = (if in_friendly i \<noteq> [] then p3\<lparr>friendly_name := in_friendly i\<rparr> else p3);
          p5 = p4\<lparr>ha_addon := in_addon i\<rparr>
      in (refresh_fields p5 \<noteq> refresh_fields p, p5))"

definition new_StoredPeer :: "DispatchInput \<Rightarrow> real \<Rightarrow> StoredPeer" where
  "new_StoredPeer i t = \<lparr>dashboard_id = in_dashboard_id i, pin_sha256 = in_pin i, static_x25519_pub = in_pub i,
     peer_label = in_label i, paired_at = t, peer_ip = in_ip i, connect_back_port = 0,
     friendly_name = in_friendly i, ha_addon = in_addon i, label_auto = in_label_auto i\<rparr>"

lemma refresh_keeps [simp]:
  "dashboard_id (snd (refresh_from_pair_request i p)) = dashboard_id p"
  "pin_sha256 (snd (refresh_from_pair_request i p)) = in_pin i"
  "connect_back_port (snd (refresh_from_pair_request i p)) = connect_back_port p"
  "paired_at (snd (refresh_from_pair_request i p)) = paired_at p"
  by (simp_all add: refresh_from_pair_request_def Let_def)

section \<open>State\<close>

text \<open>The key of a window entry: the connection of a dashboard tab, or the start of a headless server.\<close>

datatype WindowClient = BOOTSTRAP_WINDOW_CLIENT | WsConnection nat

datatype peer_status = Status_approved | Status_removed

datatype receiver_event =
    PAIRING_WINDOW_CHANGED bool "real option"
  | PAIR_STATUS_CHANGED string peer_status
  | PAIR_REQUEST_RECEIVED StoredPeer
  | PEER_REFRESHED StoredPeer
  | SESSION_OPENED string string bool
  | SESSION_CLOSED string

text \<open>A long poll of \<open>lookup_peer_for_status\<close> that waits for its \<open>flip_event\<close>.\<close>

record StatusWait =
  wait_id :: string
  wait_pin :: string
  flip_event :: bool

record PeerLinkSession =
  se_id :: string
  se_ip :: string
  se_friendly :: string
  se_addon :: bool
  se_port :: nat
  closing :: bool

record Dial =
  dial_id :: string
  dial_cancelled :: bool

type_synonym peers_dict = "(string, StoredPeer) dict"

record ReceiverState =
  pairing_window_clients :: "(WindowClient, real) dict"
  pairing_window_handle :: "real option"
  auto_approve_first_pair :: bool
  bootstrap_pairing_key :: "string option"
  pending_peers :: peers_dict
  peers_store :: "peers_dict DStore"
  peer_link_sessions :: "(string, nat) dict"
  session_objects :: "PeerLinkSession list"
  connect_back_last_contact :: "(string, real) dict"
  connect_back_tasks :: "(string, nat) dict"
  connect_back_cooldowns :: "string CooldownLedger"
  dials :: "Dial list"
  running_dials :: "nat list"
  status_waits :: "(nat, StatusWait) dict"
  auto_flushes :: "(nat \<times> DispatchInput) list"
  registering :: "nat list"
  live_sessions :: "nat list"
  fired :: "receiver_event list"

text \<open>
  \<open>ReceiverController.__init__\<close> and the part of \<open>start\<close> that reads the file; \<open>_serialize_peers\<close> writes the rows.
  The coroutines that are suspended are in the state: polls in \<open>status_waits\<close>, a first pairing that awaits its flush
  (the task of the store) in \<open>auto_flushes\<close>, a session that awaits the end of the one it replaces in \<open>registering\<close>.
\<close>

definition serialize_peers :: "peers_dict \<Rightarrow> StoredPeer list" where
  "serialize_peers d = dict_values d"

definition seed_peers :: "StoredPeer list \<Rightarrow> peers_dict" where
  "seed_peers ps = fold (\<lambda>p. dict_set (dashboard_id p) p) ps []"

definition start_receiver :: "peers_dict option \<Rightarrow> ReceiverState" where
  "start_receiver file =
     \<lparr>pairing_window_clients = [], pairing_window_handle = None, auto_approve_first_pair = False,
      bootstrap_pairing_key = None, pending_peers = [],
      peers_store = new_DStore (case file of None \<Rightarrow> [] | Some d \<Rightarrow> seed_peers (serialize_peers d)) file,
      peer_link_sessions = [], session_objects = [], connect_back_last_contact = [], connect_back_tasks = [],
      connect_back_cooldowns = new_CooldownLedger, dials = [], running_dials = [], status_waits = [],
      auto_flushes = [], registering = [], live_sessions = [], fired = []\<rparr>"

abbreviation approved_peers :: "ReceiverState \<Rightarrow> peers_dict" where
  "approved_peers st \<equiv> ram (peers_store st)"

definition fire_event :: "receiver_event \<Rightarrow> ReceiverState \<Rightarrow> ReceiverState" where
  "fire_event e st = st\<lparr>fired := e # fired st\<rparr>"

definition set_approved :: "peers_dict \<Rightarrow> ReceiverState \<Rightarrow> ReceiverState" where
  "set_approved d st = st\<lparr>peers_store := (peers_store st)\<lparr>ram := d\<rparr>\<rparr>"

definition PEERS_SAVE_DELAY_SECONDS :: real where
  "PEERS_SAVE_DELAY_SECONDS = 1"

definition save_peers :: "real \<Rightarrow> ReceiverState \<Rightarrow> ReceiverState" where
  "save_peers now st = st\<lparr>peers_store := async_delay_save now PEERS_SAVE_DELAY_SECONDS (peers_store st)\<rparr>"

section \<open>Dialing back\<close>

definition CONNECT_BACK_QUIET_SECONDS :: real where
  "CONNECT_BACK_QUIET_SECONDS = 300"

definition CONNECT_BACK_RETRY_BASE_SECONDS :: real where
  "CONNECT_BACK_RETRY_BASE_SECONDS = 300"

definition CONNECT_BACK_RETRY_CAP_SECONDS :: real where
  "CONNECT_BACK_RETRY_CAP_SECONDS = 3600"

definition CONNECT_BACK_SHORT_RETRY_SECONDS :: real where
  "CONNECT_BACK_SHORT_RETRY_SECONDS = 30"

definition CONNECT_BACK_JITTER :: real where
  "CONNECT_BACK_JITTER = 2 / 10"

definition cancel_dial :: "string \<Rightarrow> ReceiverState \<Rightarrow> ReceiverState" where
  "cancel_dial k st =
     (let s1 = (case dict_get (connect_back_tasks st) k of
                  None \<Rightarrow> st
                | Some t \<Rightarrow> st\<lparr>connect_back_tasks := dict_pop k (connect_back_tasks st),
                              dials := (dials st)[t := (dials st ! t)\<lparr>dial_cancelled := True\<rparr>]\<rparr>)
      in s1\<lparr>connect_back_cooldowns := cd_discard k (connect_back_cooldowns s1)\<rparr>)"

definition on_session_registered :: "real \<Rightarrow> string \<Rightarrow> ReceiverState \<Rightarrow> ReceiverState" where
  "on_session_registered now k st =
     (let s1 = cancel_dial k st in s1\<lparr>connect_back_last_contact := dict_set k now (connect_back_last_contact s1)\<rparr>)"

definition on_session_unregistered :: "real \<Rightarrow> string \<Rightarrow> ReceiverState \<Rightarrow> ReceiverState" where
  "on_session_unregistered now k st =
     (if dict_get (approved_peers st) k = None then st
      else st\<lparr>connect_back_last_contact := dict_set k now (connect_back_last_contact st)\<rparr>)"

definition on_peer_removed :: "string \<Rightarrow> ReceiverState \<Rightarrow> ReceiverState" where
  "on_peer_removed k st =
     (let s1 = cancel_dial k st in s1\<lparr>connect_back_last_contact := dict_pop k (connect_back_last_contact s1)\<rparr>)"

text \<open>One peer of a sweep, and the sweep; \<open>listener_port\<close> and \<open>role_active\<close> say whether this side listens.\<close>

definition dial_blocked :: "real \<Rightarrow> real \<Rightarrow> string \<Rightarrow> StoredPeer \<Rightarrow> ReceiverState \<Rightarrow> bool" where
  "dial_blocked now last_contact k p st \<longleftrightarrow>
     connect_back_port p \<le> 0 \<or> peer_ip p = [] \<or> dict_get (peer_link_sessions st) k \<noteq> None \<or>
     dict_get (connect_back_tasks st) k \<noteq> None \<or> now - last_contact < CONNECT_BACK_QUIET_SECONDS \<or>
     \<not> cd_ready now k (connect_back_cooldowns st)"

definition sweep_peer :: "real \<Rightarrow> string \<times> StoredPeer \<Rightarrow> ReceiverState \<Rightarrow> ReceiverState" where
  "sweep_peer now kp st =
     (let (k, p) = kp;
          (last_contact, s1) = (case dict_get (connect_back_last_contact st) k of
             Some t \<Rightarrow> (t, st)
           | None \<Rightarrow> (now, st\<lparr>connect_back_last_contact := dict_set k now (connect_back_last_contact st)\<rparr>))
      in if dial_blocked now last_contact k p s1 then s1
         else s1\<lparr>dials := dials s1 @ [\<lparr>dial_id = k, dial_cancelled = False\<rparr>],
                 running_dials := running_dials s1 @ [length (dials s1)],
                 connect_back_tasks := dict_set k (length (dials s1)) (connect_back_tasks s1)\<rparr>)"

definition sweep_connect_back :: "real \<Rightarrow> nat option \<Rightarrow> bool \<Rightarrow> ReceiverState \<Rightarrow> ReceiverState" where
  "sweep_connect_back now listener_port role_active st =
     (if listener_port = None \<or> \<not> role_active then st else fold (sweep_peer now) (approved_peers st) st)"

text \<open>How a dial ends, and what it does to the backoff; \<open>u\<close> is the random factor of the jitter.\<close>

datatype dial_end = Replied string "string option" | Pin_mismatch | Client_error | Dial_crash

definition escalate_dial :: "real \<Rightarrow> real \<Rightarrow> string \<Rightarrow> real \<Rightarrow> real \<Rightarrow> ReceiverState \<Rightarrow> ReceiverState" where
  "escalate_dial now u k base cap st =
     st\<lparr>connect_back_cooldowns := escalate now k (base * u) cap (connect_back_cooldowns st)\<rparr>"

definition apply_reply :: "real \<Rightarrow> real \<Rightarrow> string \<Rightarrow> string \<Rightarrow> string option \<Rightarrow> ReceiverState \<Rightarrow> ReceiverState" where
  "apply_reply now u k response reason st =
     (if response = ''ok''
      then st\<lparr>connect_back_cooldowns := cd_discard k (connect_back_cooldowns st),
              connect_back_last_contact := dict_set k now (connect_back_last_contact st)\<rparr>
      else if reason = Some ''rebind_in_progress''
      then escalate_dial now u k CONNECT_BACK_SHORT_RETRY_SECONDS CONNECT_BACK_RETRY_BASE_SECONDS st
      else if reason = Some ''already_connected'' \<or> reason = Some ''probe_failed''
      then escalate_dial now u k CONNECT_BACK_RETRY_BASE_SECONDS CONNECT_BACK_RETRY_CAP_SECONDS st
      else st\<lparr>connect_back_cooldowns := cd_set now k CONNECT_BACK_RETRY_CAP_SECONDS (connect_back_cooldowns st)\<rparr>)"

definition dial_peer_end :: "real \<Rightarrow> real \<Rightarrow> nat \<Rightarrow> dial_end \<Rightarrow> ReceiverState \<Rightarrow> ReceiverState" where
  "dial_peer_end now u t e st =
     (let k = dial_id (dials st ! t); s1 = st\<lparr>running_dials := remove1 t (running_dials st)\<rparr>
      in if dial_cancelled (dials st ! t) then s1
         else case e of
           Replied response reason \<Rightarrow> apply_reply now u k response reason s1
         | _ \<Rightarrow> escalate_dial now u k CONNECT_BACK_RETRY_BASE_SECONDS CONNECT_BACK_RETRY_CAP_SECONDS s1)"

definition pop_dial_task :: "string \<Rightarrow> nat \<Rightarrow> ReceiverState \<Rightarrow> ReceiverState" where
  "pop_dial_task k t st =
     (if dict_get (connect_back_tasks st) k = Some t
      then st\<lparr>connect_back_tasks := dict_pop k (connect_back_tasks st)\<rparr> else st)"

end
