(* ===== verification/Pairing.thy ===== *)
theory Pairing
  imports Receiver
begin

text \<open>
  The receiving side of remote builds, second part: who gets paired. \<open>controllers/remote_build/pairing_window.py\<close>,
  \<open>pair_flow.py\<close> and \<open>peer_crud.py\<close>, the intent dispatch of \<open>peer_link/handshake.py\<close>, \<open>helpers/pairing_key.py\<close> and
  the first-pair bootstrap of \<open>_remote_build_only.py\<close>.
\<close>

section \<open>Keys and ids\<close>

definition char_upper :: "char \<Rightarrow> char" where
  "char_upper c = (if is_lower c then char_of (of_char c - (32::nat)) else c)"

definition KEY_ALPHABET :: string where
  "KEY_ALPHABET = ''ABCDEFGHJKMNPQRSTVWXYZ23456789''"

definition MAX_PRESENTED_CHARS :: nat where
  "MAX_PRESENTED_CHARS = 256"

definition normalize_key :: "string \<Rightarrow> string" where
  "normalize_key v = re_delete (Chr (\<lambda>c. \<not> (is_digit c \<or> is_upper c))) (map char_upper v)"

definition pairing_key_matches :: "string \<Rightarrow> string option \<Rightarrow> bool" where
  "pairing_key_matches expected presented \<longleftrightarrow>
     (case presented of
        None \<Rightarrow> False
      | Some p \<Rightarrow> p \<noteq> [] \<and> length p \<le> MAX_PRESENTED_CHARS \<and> normalize_key expected = normalize_key p)"

text \<open>The key made of the sixteen characters that were drawn.\<close>

definition generate_pairing_key :: "string \<Rightarrow> string" where
  "generate_pairing_key chars =
     join_with CHR ''-'' (map (\<lambda>i. take 4 (drop i chars)) [0, 4, 8, 12])"

definition DASHBOARD_ID_MAX_CHARS :: nat where
  "DASHBOARD_ID_MAX_CHARS = 64"

definition DASHBOARD_ID_PATTERN :: re where
  "DASHBOARD_ID_PATTERN = Plus (Chr (\<lambda>c. is_upper c \<or> is_lower c \<or> is_digit c \<or> c = CHR ''_'' \<or> c = CHR ''-''))"

definition dashboard_id_ok :: "string \<Rightarrow> bool" where
  "dashboard_id_ok s \<longleftrightarrow> \<not> (s = [] \<or> DASHBOARD_ID_MAX_CHARS < length s \<or> re_fullmatch DASHBOARD_ID_PATTERN s = None)"

definition validate_dashboard_id :: "json \<Rightarrow> string result" where
  "validate_dashboard_id raw =
     (case raw of
        JStr s \<Rightarrow>
          if dashboard_id_ok (strip s) then Inr (strip s)
          else Inl (CommandError INVALID_ARGS ''dashboard_id must be 1-64 base64url chars'')
      | _ \<Rightarrow> Inl (CommandError INVALID_ARGS ''dashboard_id must be a string''))"

section \<open>Events\<close>

text \<open>Firing a status change calls the listeners of the long polls that wait for that id.\<close>

definition fire_pair_status_changed :: "string \<Rightarrow> peer_status \<Rightarrow> ReceiverState \<Rightarrow> ReceiverState" where
  "fire_pair_status_changed k status st =
     (let s1 = fire_event (PAIR_STATUS_CHANGED k status) st
      in s1\<lparr>status_waits := map (\<lambda>(n, w). (n, if wait_id w = k then w\<lparr>flip_event := True\<rparr> else w)) (status_waits s1)\<rparr>)"

section \<open>The pairing window\<close>

definition PAIRING_WINDOW_DURATION_SECONDS :: real where
  "PAIRING_WINDOW_DURATION_SECONDS = 300"

definition BOOTSTRAP_PAIRING_WINDOW_DURATION_SECONDS :: real where
  "BOOTSTRAP_PAIRING_WINDOW_DURATION_SECONDS = 900"

definition prune_stale_pairing_window_clients :: "real \<Rightarrow> ReceiverState \<Rightarrow> ReceiverState" where
  "prune_stale_pairing_window_clients now st =
     st\<lparr>pairing_window_clients := filter (\<lambda>(c, deadline). now \<le> deadline) (pairing_window_clients st)\<rparr>"

definition is_pairing_window_open :: "real \<Rightarrow> ReceiverState \<Rightarrow> bool \<times> ReceiverState" where
  "is_pairing_window_open now st =
     (let s1 = prune_stale_pairing_window_clients now st in (pairing_window_clients s1 \<noteq> [], s1))"

definition pairing_window_remaining :: "real \<Rightarrow> ReceiverState \<Rightarrow> real option \<times> ReceiverState" where
  "pairing_window_remaining now st =
     (let s1 = prune_stale_pairing_window_clients now st
      in (if pairing_window_clients s1 = [] then None
          else Some (max 0 (Max (set (dict_values (pairing_window_clients s1))) - now)), s1))"

definition pairing_window_state :: "real \<Rightarrow> ReceiverState \<Rightarrow> (bool \<times> real option) \<times> ReceiverState" where
  "pairing_window_state now st =
     (case pairing_window_remaining now st of
        (None, s1) \<Rightarrow> ((False, None), s1)
      | (Some r, s1) \<Rightarrow> ((True, Some r), s1))"

definition fire_pairing_window_changed :: "real \<Rightarrow> ReceiverState \<Rightarrow> ReceiverState" where
  "fire_pairing_window_changed now st =
     (let ((is_open, expires), s1) = pairing_window_state now st in fire_event (PAIRING_WINDOW_CHANGED is_open expires) s1)"

definition reschedule_pairing_window_close :: "real \<Rightarrow> ReceiverState \<Rightarrow> ReceiverState" where
  "reschedule_pairing_window_close now st =
     (case pairing_window_remaining now (st\<lparr>pairing_window_handle := None\<rparr>) of
        (None, s1) \<Rightarrow> s1
      | (Some r, s1) \<Rightarrow> s1\<lparr>pairing_window_handle := Some (now + r)\<rparr>)"

definition clear_pending_peers_on_window_close :: "ReceiverState \<Rightarrow> ReceiverState" where
  "clear_pending_peers_on_window_close st =
     fold (\<lambda>k. fire_pair_status_changed k Status_removed) (dict_keys (pending_peers st)) (st\<lparr>pending_peers := []\<rparr>)"

definition on_pairing_window_deadline :: "real \<Rightarrow> ReceiverState \<Rightarrow> ReceiverState" where
  "on_pairing_window_deadline now st =
     clear_pending_peers_on_window_close
       (fire_pairing_window_changed now (st\<lparr>pairing_window_handle := None, pairing_window_clients := []\<rparr>))"

definition put_window_client :: "bool \<Rightarrow> WindowClient \<Rightarrow> real \<Rightarrow> ReceiverState \<Rightarrow> ReceiverState" where
  "put_window_client op client deadline st =
     st\<lparr>pairing_window_clients :=
          (if op then dict_set client deadline (pairing_window_clients st) else dict_pop client (pairing_window_clients st))\<rparr>"

definition announce_window :: "real \<Rightarrow> bool \<Rightarrow> bool \<Rightarrow> ReceiverState \<Rightarrow> ReceiverState" where
  "announce_window now op was_open st =
     (let is_open = (pairing_window_clients st \<noteq> []);
          s1 = (if was_open \<noteq> is_open \<or> op \<and> is_open then fire_pairing_window_changed now st else st)
      in if was_open \<and> \<not> is_open then clear_pending_peers_on_window_close s1 else s1)"

definition set_pairing_window ::
    "real \<Rightarrow> json \<Rightarrow> WindowClient \<Rightarrow> real option \<Rightarrow> ReceiverState \<Rightarrow> (bool \<times> real option) result \<times> ReceiverState" where
  "set_pairing_window now opened client duration st =
     (case opened of
        JBool op \<Rightarrow>
          (let seconds = (case duration of None \<Rightarrow> PAIRING_WINDOW_DURATION_SECONDS | Some d \<Rightarrow> d);
               (was_open, s1) = is_pairing_window_open now st;
               s2 = reschedule_pairing_window_close now (put_window_client op client (now + seconds) s1);
               (reply, s3) = pairing_window_state now (announce_window now op was_open s2)
           in (Inr reply, s3))
      | _ \<Rightarrow> (Inl (CommandError INVALID_ARGS ''remote_build/set_pairing_window: 'open' must be a bool''), st))"

section \<open>The administrator's commands\<close>

definition approve_peer :: "real \<Rightarrow> json \<Rightarrow> ReceiverState \<Rightarrow> unit result \<times> ReceiverState" where
  "approve_peer now raw st =
     (case validate_dashboard_id raw of
        Inl e \<Rightarrow> (Inl e, st)
      | Inr k \<Rightarrow>
          (case dict_get (pending_peers st) k of
             None \<Rightarrow>
               if dict_get (approved_peers st) k \<noteq> None
               then (Inl (CommandError INVALID_ARGS (''peer is already approved: '' @ k)), st)
               else (Inl (CommandError NOT_FOUND (''no pending peer with dashboard_id: '' @ k)), st)
           | Some p \<Rightarrow>
               (let s1 = st\<lparr>pending_peers := dict_pop k (pending_peers st)\<rparr>;
                    s2 = save_peers now (set_approved (dict_set k p (approved_peers s1)) s1)
                in (Inr (), fire_pair_status_changed k Status_approved s2))))"

definition remove_peer :: "real \<Rightarrow> json \<Rightarrow> ReceiverState \<Rightarrow> unit result \<times> ReceiverState" where
  "remove_peer now raw st =
     (case validate_dashboard_id raw of
        Inl e \<Rightarrow> (Inl e, st)
      | Inr k \<Rightarrow>
          if dict_get (pending_peers st) k \<noteq> None
          then (Inr (), fire_pair_status_changed k Status_removed (st\<lparr>pending_peers := dict_pop k (pending_peers st)\<rparr>))
          else if dict_get (approved_peers st) k = None
          then (Inl (CommandError NOT_FOUND (''no peer with dashboard_id: '' @ k)), st)
          else (Inr (), fire_pair_status_changed k Status_removed
                  (save_peers now (on_peer_removed k (set_approved (dict_pop k (approved_peers st)) st)))))"

section \<open>Pair requests\<close>

text \<open>The settings of the process; \<open>parse_ip\<close> is \<open>str(ipaddress.ip_address(s))\<close>, \<open>None\<close> where it raises.\<close>

record PairSettings =
  remote_build_only :: bool
  allow_pairing_sources :: "string list"
  parse_ip :: "string \<Rightarrow> string option"

definition pairing_source_allowed :: "PairSettings \<Rightarrow> string \<Rightarrow> bool" where
  "pairing_source_allowed cfg ip \<longleftrightarrow>
     allow_pairing_sources cfg = [] \<or>
     (case parse_ip cfg ip of None \<Rightarrow> False | Some n \<Rightarrow> n \<in> set (allow_pairing_sources cfg))"

text \<open>
  No outcome yet (\<open>None\<close>) while the flush of the store is awaited, which \<open>auto_approve_resume\<close> gives when it is over.
\<close>

definition auto_approve_pair_request ::
    "real \<Rightarrow> real \<Rightarrow> DispatchInput \<Rightarrow> ReceiverState \<Rightarrow> IntentOutcome option \<times> ReceiverState" where
  "auto_approve_pair_request now wall i st =
     (let s1 = st\<lparr>auto_approve_first_pair := False, bootstrap_pairing_key := None\<rparr>;
          s2 = set_approved (dict_set (in_dashboard_id i) (new_StoredPeer i wall) (approved_peers s1)) s1
      in (None, s2\<lparr>peers_store := async_save_now (async_delay_save now 0 (peers_store s2)),
                   auto_flushes := (next_task (peers_store s2), i) # auto_flushes s2\<rparr>))"

definition auto_approve_resume :: "nat \<times> DispatchInput \<Rightarrow> ReceiverState \<Rightarrow> IntentOutcome \<times> ReceiverState" where
  "auto_approve_resume e st =
     ((APPROVED, None), fire_pair_status_changed (in_dashboard_id (snd e)) Status_approved
                          (st\<lparr>auto_flushes := remove1 e (auto_flushes st)\<rparr>))"

definition refuse :: IntentOutcome where
  "refuse = (IntentResponse.NO_PAIRING_WINDOW, None)"

definition auto_approve_or_refuse ::
    "PairSettings \<Rightarrow> real \<Rightarrow> real \<Rightarrow> DispatchInput \<Rightarrow> ReceiverState \<Rightarrow> IntentOutcome option \<times> ReceiverState" where
  "auto_approve_or_refuse cfg now wall i st =
     (case bootstrap_pairing_key st of
        None \<Rightarrow> (Some refuse, st)
      | Some k \<Rightarrow>
          if \<not> pairing_key_matches k (in_key i) then (Some refuse, st)
          else if pairing_source_allowed cfg (in_ip i) then auto_approve_pair_request now wall i st
          else (Some refuse, st))"

definition rival_pending :: "DispatchInput \<Rightarrow> ReceiverState \<Rightarrow> bool" where
  "rival_pending i st \<longleftrightarrow>
     (case dict_get (pending_peers st) (in_dashboard_id i) of None \<Rightarrow> False | Some e \<Rightarrow> static_x25519_pub e \<noteq> in_pub i)"

definition record_pair_request ::
    "PairSettings \<Rightarrow> real \<Rightarrow> real \<Rightarrow> DispatchInput \<Rightarrow> ReceiverState \<Rightarrow> IntentOutcome option \<times> ReceiverState" where
  "record_pair_request cfg now wall i st =
     (let k = in_dashboard_id i
      in case dict_get (approved_peers st) k of
           Some p \<Rightarrow>
             if pin_sha256 p \<noteq> in_pin i then (Some (REJECTED, Some PIN_MISMATCH), st)
             else (let (changed, p1) = refresh_from_pair_request i p; s1 = set_approved (dict_set k p1 (approved_peers st)) st
                   in (Some (APPROVED, None), if changed then fire_event (PEER_REFRESHED p1) (save_peers now s1) else s1))
         | None \<Rightarrow>
             (case is_pairing_window_open now st of
                (False, s1) \<Rightarrow> (Some refuse, s1)
              | (True, s1) \<Rightarrow>
                  if auto_approve_first_pair s1 \<and> approved_peers s1 = [] then auto_approve_or_refuse cfg now wall i s1
                  else if rival_pending i s1 then (Some (REJECTED, Some PIN_MISMATCH), s1)
                  else (let p = new_StoredPeer i wall
                        in (Some (PENDING, None),
                            fire_event (PAIR_REQUEST_RECEIVED p) (s1\<lparr>pending_peers := dict_set k p (pending_peers s1)\<rparr>)))))"

definition lookup_peer_response :: "IntentResponse \<Rightarrow> string \<Rightarrow> string \<Rightarrow> ReceiverState \<Rightarrow> IntentOutcome" where
  "lookup_peer_response approved_response k pin st =
     (case dict_get (pending_peers st) k of
        Some p \<Rightarrow> if pin_sha256 p \<noteq> pin then (REJECTED, Some PIN_MISMATCH) else (PENDING, Some PENDING_NOT_APPROVED)
      | None \<Rightarrow>
          (case dict_get (approved_peers st) k of
             None \<Rightarrow> (REJECTED, Some NO_APPROVED_PEER)
           | Some p \<Rightarrow> if pin_sha256 p \<noteq> pin then (REJECTED, Some PIN_MISMATCH) else (approved_response, None)))"

definition lookup_peer_for_session :: "string \<Rightarrow> string \<Rightarrow> ReceiverState \<Rightarrow> IntentOutcome" where
  "lookup_peer_for_session = lookup_peer_response OK"

text \<open>The long poll number \<open>n\<close>: answered at once, or parked until its event; and the answer after the event.\<close>

definition lookup_peer_for_status :: "nat \<Rightarrow> string \<Rightarrow> string \<Rightarrow> ReceiverState \<Rightarrow> IntentOutcome option \<times> ReceiverState" where
  "lookup_peer_for_status n k pin st =
     (let snapshot = lookup_peer_response APPROVED k pin st
      in if fst snapshot \<noteq> PENDING then (Some snapshot, st)
         else (None, st\<lparr>status_waits := dict_set n \<lparr>wait_id = k, wait_pin = pin, flip_event = False\<rparr> (status_waits st)\<rparr>))"

definition status_resume :: "nat \<Rightarrow> StatusWait \<Rightarrow> ReceiverState \<Rightarrow> IntentOutcome \<times> ReceiverState" where
  "status_resume n w st =
     (lookup_peer_response APPROVED (wait_id w) (wait_pin w) st, st\<lparr>status_waits := dict_pop n (status_waits st)\<rparr>)"

section \<open>Dispatch\<close>

text \<open>
  What \<open>_dispatch_intent\<close> answers: a receiver intent, or \<open>connect_back\<close>, which the offloading side answers (an
  argument, \<open>None\<close> when it is not wired). A parked status poll and a first pairing being written have no answer yet.
\<close>

definition dispatch_intent ::
    "PairSettings \<Rightarrow> bool \<Rightarrow> (DispatchInput \<Rightarrow> IntentOutcome) option \<Rightarrow> real \<Rightarrow> real \<Rightarrow> nat \<Rightarrow> DispatchInput \<Rightarrow> ReceiverState \<Rightarrow>
     IntentOutcome option \<times> ReceiverState" where
  "dispatch_intent cfg accept_receiver_intents offloader now wall n i st =
     (if in_intent i = CONNECT_BACK then
        (case offloader of
           None \<Rightarrow> (Some (REJECTED, Some PROBE_FAILED), st)
         | Some f \<Rightarrow> (Some (f i), st))
      else if \<not> accept_receiver_intents then (Some (REJECTED, Some BAD_INTENT), st)
      else if in_intent i = PREVIEW then (Some (OK, None), st)
      else if \<not> dashboard_id_ok (in_dashboard_id i) then (Some (REJECTED, Some BAD_DASHBOARD_ID), st)
      else if in_intent i = PAIR_REQUEST then
        record_pair_request cfg now wall i st
      else if in_intent i = PEER_LINK then (Some (lookup_peer_for_session (in_dashboard_id i) (in_pin i) st), st)
      else lookup_peer_for_status n (in_dashboard_id i) (in_pin i) st)"

section \<open>The first pairing of a headless server\<close>

text \<open>
  \<open>_bootstrap_first_pair\<close> up to its wait, its \<open>finally\<close>, and the closing of the window after a pairing. It runs only
  when nothing is approved yet (\<open>_serve\<close>).
\<close>

definition bootstrap_arm :: "real \<Rightarrow> string \<Rightarrow> ReceiverState \<Rightarrow> ReceiverState" where
  "bootstrap_arm now chars st =
     snd (set_pairing_window now (JBool True) BOOTSTRAP_WINDOW_CLIENT (Some BOOTSTRAP_PAIRING_WINDOW_DURATION_SECONDS)
       (st\<lparr>auto_approve_first_pair := True, bootstrap_pairing_key := Some (generate_pairing_key chars)\<rparr>))"

definition bootstrap_disarm :: "ReceiverState \<Rightarrow> ReceiverState" where
  "bootstrap_disarm st = st\<lparr>auto_approve_first_pair := False, bootstrap_pairing_key := None\<rparr>"

definition bootstrap_close :: "real \<Rightarrow> ReceiverState \<Rightarrow> ReceiverState" where
  "bootstrap_close now st = snd (set_pairing_window now (JBool False) BOOTSTRAP_WINDOW_CLIENT None st)"

end
