(* ===== verification/ReceiverSystem.thy ===== *)
theory ReceiverSystem
  imports Pairing
begin

text \<open>
  The receiving side of remote builds, third part: the registry of open sessions
  (\<open>controllers/remote_build/peer_link_sessions.py\<close>), and everything together: the handshakes of any number of peers, the
  administrator's commands, the pairing window and its timer, the bootstrap of a headless server, the writes of the file,
  the sessions, the dials and restarts, in every order.
\<close>

section \<open>Sessions\<close>

text \<open>\<open>terminate\<close> marks the session before it sends the frame; a second call does nothing.\<close>

definition terminate :: "nat \<Rightarrow> ReceiverState \<Rightarrow> ReceiverState" where
  "terminate sid st = st\<lparr>session_objects := (session_objects st)[sid := (session_objects st ! sid)\<lparr>closing := True\<rparr>]\<rparr>"

definition new_PeerLinkSession :: "DispatchInput \<Rightarrow> nat \<Rightarrow> PeerLinkSession" where
  "new_PeerLinkSession i port = \<lparr>se_id = in_dashboard_id i, se_ip = in_ip i, se_friendly = in_friendly i,
     se_addon = in_addon i, se_port = port, closing = False\<rparr>"

definition refresh_row :: "PeerLinkSession \<Rightarrow> StoredPeer \<Rightarrow> StoredPeer" where
  "refresh_row se p =
     (let p1 = (if se_friendly se \<noteq> [] then p\<lparr>friendly_name := se_friendly se\<rparr> else p);
          p2 = p1\<lparr>ha_addon := se_addon se\<rparr>;
          p3 = (if se_ip se \<noteq> [] then p2\<lparr>peer_ip := se_ip se\<rparr> else p2)
      in if se_port se \<noteq> 0 then p3\<lparr>connect_back_port := se_port se\<rparr> else p3)"

definition refresh_peer_display_identity :: "real \<Rightarrow> PeerLinkSession \<Rightarrow> ReceiverState \<Rightarrow> ReceiverState" where
  "refresh_peer_display_identity now se st =
     (case dict_get (approved_peers st) (se_id se) of
        None \<Rightarrow> st
      | Some p \<Rightarrow>
          (let p1 = refresh_row se p; s1 = set_approved (dict_set (se_id se) p1 (approved_peers st)) st
           in if p1 \<noteq> p then save_peers now s1 else s1))"

text \<open>
  Registering up to the wait for the session it replaces, and from there on; without one there is no wait. The
  queue status that is sent to the new session is not modelled.
\<close>

definition register_finish :: "real \<Rightarrow> nat \<Rightarrow> ReceiverState \<Rightarrow> ReceiverState" where
  "register_finish now sid st =
     (let se = session_objects st ! sid;
          s1 = on_session_registered now (se_id se) (st\<lparr>registering := remove1 sid (registering st)\<rparr>);
          s2 = refresh_peer_display_identity now se s1;
          (name, addon) = (case dict_get (approved_peers s2) (se_id se) of
             None \<Rightarrow> ([], False)
           | Some p \<Rightarrow> (friendly_name p, ha_addon p))
      in fire_event (SESSION_OPENED (se_id se) name addon) (s2\<lparr>live_sessions := sid # live_sessions s2\<rparr>))"

definition register_peer_link_session :: "real \<Rightarrow> PeerLinkSession \<Rightarrow> ReceiverState \<Rightarrow> ReceiverState" where
  "register_peer_link_session now se st =
     (let sid = length (session_objects st);
          existing = dict_get (peer_link_sessions st) (se_id se);
          s1 = st\<lparr>session_objects := session_objects st @ [se],
                  peer_link_sessions := dict_set (se_id se) sid (peer_link_sessions st),
                  registering := sid # registering st\<rparr>
      in case existing of
           None \<Rightarrow> register_finish now sid s1
         | Some e \<Rightarrow> if closing (session_objects st ! e) then register_finish now sid s1 else terminate e s1)"

text \<open>The end of a session's loop; the uploads and downloads it drops belong to other components.\<close>

definition unregister_peer_link_session :: "real \<Rightarrow> nat \<Rightarrow> ReceiverState \<Rightarrow> ReceiverState" where
  "unregister_peer_link_session now sid st =
     (let k = se_id (session_objects st ! sid); s0 = st\<lparr>live_sessions := remove1 sid (live_sessions st)\<rparr>
      in if dict_get (peer_link_sessions s0) k = Some sid
         then fire_event (SESSION_CLOSED k)
                (on_session_unregistered now k (s0\<lparr>peer_link_sessions := dict_pop k (peer_link_sessions s0)\<rparr>))
         else s0)"

section \<open>The whole receiver\<close>

text \<open>
  What happened, newest first: a pair request with what it found (the window, the key that was armed, whether nobody
  was paired), and the administrator's decisions. It is written from the inputs and not from the answers.
\<close>

datatype pair_event =
    Asked DispatchInput bool "string option" bool
  | Admin_approved string
  | Admin_removed string

record pair_sys =
  recv :: ReceiverState
  pclock :: real
  trail :: "pair_event list"
  granted :: "DispatchInput list"
  booted :: bool

definition window_is_open :: "real \<Rightarrow> ReceiverState \<Rightarrow> bool" where
  "window_is_open now st \<longleftrightarrow> (\<exists>(c, deadline) \<in> set (pairing_window_clients st). now \<le> deadline)"

definition armed_key :: "ReceiverState \<Rightarrow> string option" where
  "armed_key st = (if auto_approve_first_pair st then bootstrap_pairing_key st else None)"

definition asked :: "real \<Rightarrow> DispatchInput \<Rightarrow> ReceiverState \<Rightarrow> pair_event list" where
  "asked now i st = (if in_intent i = PAIR_REQUEST
     then [Asked i (window_is_open now st) (armed_key st) (approved_peers st = [])] else [])"

definition decided :: "(string \<Rightarrow> pair_event) \<Rightarrow> json \<Rightarrow> pair_event list" where
  "decided e raw = (case validate_dashboard_id raw of Inl _ \<Rightarrow> [] | Inr k \<Rightarrow> [e k])"

definition upd :: "pair_sys \<Rightarrow> ReceiverState \<Rightarrow> pair_sys" where
  "upd s st = s\<lparr>recv := st\<rparr>"

inductive receiver_step ::
    "PairSettings \<Rightarrow> (DispatchInput \<Rightarrow> IntentOutcome) option \<Rightarrow> pair_sys \<Rightarrow> pair_sys \<Rightarrow> bool"
  for cfg off where
  time_passes: "pclock s \<le> now \<Longrightarrow> receiver_step cfg off s (s\<lparr>pclock := now\<rparr>)"
| handshake: "dispatch_intent cfg acc off (pclock s) wall n i (recv s) = (r, st) \<Longrightarrow> n \<notin> set (dict_keys (status_waits (recv s))) \<Longrightarrow>
    receiver_step cfg off s (s\<lparr>recv := st, trail := asked (pclock s) i (recv s) @ trail s,
      granted := (if in_intent i = PEER_LINK \<and> r = Some (OK, None) then i # granted s else granted s)\<rparr>)"
| poll_wakes: "(n, w) \<in> set (status_waits (recv s)) \<Longrightarrow> flip_event w \<Longrightarrow> receiver_step cfg off s (upd s (snd (status_resume n w (recv s))))"
| poll_dropped: "(n, w) \<in> set (status_waits (recv s)) \<Longrightarrow>
    receiver_step cfg off s (upd s ((recv s)\<lparr>status_waits := dict_pop n (status_waits (recv s))\<rparr>))"
| first_pair_written: "e \<in> set (auto_flushes (recv s)) \<Longrightarrow> fst e \<in> set (finished (peers_store (recv s))) \<Longrightarrow>
    receiver_step cfg off s (upd s (snd (auto_approve_resume e (recv s))))"
| window_command: "\<not> remote_build_only cfg \<Longrightarrow>
    receiver_step cfg off s (upd s (snd (set_pairing_window (pclock s) raw (WsConnection n) None (recv s))))"
| window_timer: "pairing_window_handle (recv s) = Some w \<Longrightarrow> w \<le> pclock s \<Longrightarrow>
    receiver_step cfg off s (upd s (on_pairing_window_deadline (pclock s) (recv s)))"
| approves: "\<not> remote_build_only cfg \<Longrightarrow>
    receiver_step cfg off s (s\<lparr>recv := snd (approve_peer (pclock s) raw (recv s)), trail := decided Admin_approved raw @ trail s\<rparr>)"
| removes: "\<not> remote_build_only cfg \<Longrightarrow>
    receiver_step cfg off s (s\<lparr>recv := snd (remove_peer (pclock s) raw (recv s)), trail := decided Admin_removed raw @ trail s\<rparr>)"
| arms: "remote_build_only cfg \<Longrightarrow> \<not> booted s \<Longrightarrow> approved_peers (recv s) = [] \<Longrightarrow>
    receiver_step cfg off s (s\<lparr>recv := bootstrap_arm (pclock s) chars (recv s), booted := True\<rparr>)"
| disarms: "booted s \<Longrightarrow> receiver_step cfg off s (upd s (bootstrap_disarm (recv s)))"
| closes: "booted s \<Longrightarrow> \<not> auto_approve_first_pair (recv s) \<Longrightarrow> receiver_step cfg off s (upd s (bootstrap_close (pclock s) (recv s)))"
| file_step: "internal_step (peers_store (recv s)) f \<Longrightarrow> receiver_step cfg off s (upd s ((recv s)\<lparr>peers_store := f\<rparr>))"
| session_opens: "i \<in> set (granted s) \<Longrightarrow> port < 65536 \<Longrightarrow>
    receiver_step cfg off s (s\<lparr>recv := register_peer_link_session (pclock s) (new_PeerLinkSession i port) (recv s),
                               granted := remove1 i (granted s)\<rparr>)"
| session_takes_over: "sid \<in> set (registering (recv s)) \<Longrightarrow> receiver_step cfg off s (upd s (register_finish (pclock s) sid (recv s)))"
| session_terminated: "sid \<in> set (live_sessions (recv s)) \<Longrightarrow> receiver_step cfg off s (upd s (terminate sid (recv s)))"
| session_ends: "sid \<in> set (live_sessions (recv s)) \<Longrightarrow>
    receiver_step cfg off s (upd s (unregister_peer_link_session (pclock s) sid (recv s)))"
| sweep: "receiver_step cfg off s (upd s (sweep_connect_back (pclock s) port role (recv s)))"
| dial_returns: "t \<in> set (running_dials (recv s)) \<Longrightarrow> receiver_step cfg off s (upd s (dial_peer_end (pclock s) u t e (recv s)))"
| dial_done: "t < length (dials (recv s)) \<Longrightarrow> t \<notin> set (running_dials (recv s)) \<Longrightarrow>
    receiver_step cfg off s (upd s (pop_dial_task (dial_id (dials (recv s) ! t)) t (recv s)))"
| restart: "receiver_step cfg off s (s\<lparr>recv := start_receiver (disk (peers_store (recv s))), granted := [], booted := False\<rparr>)"

inductive_cases receiver_stepE: "receiver_step cfg off s s'"

definition row_ok :: "string \<times> StoredPeer \<Rightarrow> bool" where
  "row_ok kp \<longleftrightarrow> dashboard_id (snd kp) = fst kp \<and> dashboard_id_ok (fst kp) \<and> connect_back_port (snd kp) < 65536"

definition rows_ok :: "peers_dict \<Rightarrow> bool" where
  "rows_ok d \<longleftrightarrow> dict_ok d \<and> (\<forall>kp \<in> set d. row_ok kp)"

definition identities :: "peers_dict \<Rightarrow> (string \<times> string) set" where
  "identities d = (\<lambda>(k, p). (k, pin_sha256 p)) ` set d"

text \<open>The process starts with a file that holds well-formed rows, or none.\<close>

definition receiver_init :: "peers_dict option \<Rightarrow> pair_sys \<Rightarrow> bool" where
  "receiver_init file s \<longleftrightarrow>
     (case file of None \<Rightarrow> True | Some d \<Rightarrow> rows_ok d) \<and> recv s = start_receiver file \<and> trail s = [] \<and> granted s = [] \<and> \<not> booted s"

section \<open>Who may be paired\<close>

text \<open>
  Why an identity (a dashboard id with the pin of its key) may be paired: the file had it, or it asked within an open
  window and the administrator approved its id later, or it was the first to ask a headless server, in the window, with
  the key and from an allowed address.
\<close>

definition asked_in_window :: "pair_event list \<Rightarrow> string \<times> string \<Rightarrow> bool" where
  "asked_in_window tr idy \<longleftrightarrow>
     (\<exists>i key none. Asked i True key none \<in> set tr \<and> (in_dashboard_id i, in_pin i) = idy)"

definition approved_by_admin :: "pair_event list \<Rightarrow> string \<times> string \<Rightarrow> bool" where
  "approved_by_admin tr idy \<longleftrightarrow>
     (\<exists>later earlier. tr = later @ Admin_approved (fst idy) # earlier \<and> asked_in_window earlier idy)"

definition approved_by_key :: "PairSettings \<Rightarrow> pair_event list \<Rightarrow> string \<times> string \<Rightarrow> bool" where
  "approved_by_key cfg tr idy \<longleftrightarrow> remote_build_only cfg \<and>
     (\<exists>i key. Asked i True (Some key) True \<in> set tr \<and> (in_dashboard_id i, in_pin i) = idy \<and>
        pairing_key_matches key (in_key i) \<and> pairing_source_allowed cfg (in_ip i))"

definition authority :: "PairSettings \<Rightarrow> peers_dict option \<Rightarrow> pair_event list \<Rightarrow> string \<times> string \<Rightarrow> bool" where
  "authority cfg file tr idy \<longleftrightarrow>
     (\<exists>d. file = Some d \<and> idy \<in> identities d) \<or> approved_by_admin tr idy \<or> approved_by_key cfg tr idy"

end
