(* ===== verification/ReceiverInv.thy ===== *)
theory ReceiverInv
  imports ReceiverSystem
begin

text \<open>
  The invariant of the receiver of remote builds: the rows in RAM, on their way to the disk and on it; the window, its
  timer and the polls that wait; the registry of sessions; the dials. Each group has a lemma per operation, and
  \<open>receiver_machine\<close> puts them together along every run.
\<close>

lemma asked_later: "asked_in_window tr idy \<Longrightarrow> asked_in_window (new @ tr) idy"
  by (auto simp: asked_in_window_def)

lemma authority_later:
  assumes "authority cfg file tr idy"
  shows "authority cfg file (new @ tr) idy"
proof -
  have "approved_by_admin (new @ tr) idy" if "approved_by_admin tr idy"
    using that unfolding approved_by_admin_def by (metis append.assoc)
  then show ?thesis using assms unfolding authority_def approved_by_key_def by auto
qed

lemma row_okD: "row_ok (k, p) \<Longrightarrow> dashboard_id p = k \<and> dashboard_id_ok k \<and> connect_back_port p < 65536"
  by (simp add: row_ok_def)

lemma rows_ok_Nil [simp]: "rows_ok []"
  by (simp add: rows_ok_def)

lemma identities_Nil [simp]: "identities [] = {}"
  by (simp add: identities_def)

lemma rows_ok_set: "rows_ok d \<Longrightarrow> row_ok (k, p) \<Longrightarrow> rows_ok (dict_set k p d)"
  using dict_set_member [where d = d and t = k and x = p] by (fastforce simp: rows_ok_def)

lemma rows_ok_pop: "rows_ok d \<Longrightarrow> rows_ok (dict_pop k d)"
  by (auto simp: rows_ok_def set_dict_pop)

lemma rows_ok_get: "rows_ok d \<Longrightarrow> dict_get d k = Some p \<Longrightarrow> row_ok (k, p)"
  using map_of_SomeD [of d k p] by (auto simp: rows_ok_def)

lemma identities_set: "rows_ok d \<Longrightarrow> identities (dict_set k p d) \<subseteq> insert (k, pin_sha256 p) (identities d)"
  using dict_set_member [where d = d and t = k and x = p] by (fastforce simp: identities_def rows_ok_def)

lemma identities_pop: "identities (dict_pop k d) \<subseteq> identities d"
  by (auto simp: identities_def set_dict_pop)

lemma identities_get: "dict_get d k = Some p \<Longrightarrow> (k, pin_sha256 p) \<in> identities d"
  using map_of_SomeD [of d k p] by (force simp: identities_def)

lemma fold_seed_keys:
  "(\<forall>kp \<in> set xs. dashboard_id (snd kp) = fst kp) \<Longrightarrow> distinct (map fst (d @ xs)) \<Longrightarrow>
   fold (\<lambda>p. dict_set (dashboard_id p) p) (map snd xs) d = d @ xs"
proof (induction xs arbitrary: d)
  case (Cons kp xs)
  have "dict_set (fst kp) (snd kp) d = d @ [kp]" using Cons.prems(2) by (induction d) (auto simp: prod_eq_iff)
  then show ?case using Cons.IH [of "d @ [kp]"] Cons.prems by simp
qed simp

lemma seed_serialized: "rows_ok d \<Longrightarrow> seed_peers (serialize_peers d) = d"
  using fold_seed_keys [of d "[]"] by (auto simp: seed_peers_def serialize_peers_def rows_ok_def row_ok_def dict_ok_def)

section \<open>The invariant of pairing\<close>

definition polls_ok :: "ReceiverState \<Rightarrow> bool" where
  "polls_ok st \<longleftrightarrow> (\<forall>(n, w) \<in> set (status_waits st). flip_event w \<or> wait_id w \<in> set (dict_keys (pending_peers st)))"

definition timer_ok :: "ReceiverState \<Rightarrow> bool" where
  "timer_ok st \<longleftrightarrow> (\<forall>(c, d) \<in> set (pairing_window_clients st). \<exists>w. pairing_window_handle st = Some w \<and> d \<le> w)"

definition boot_ok :: "PairSettings \<Rightarrow> bool \<Rightarrow> ReceiverState \<Rightarrow> bool" where
  "boot_ok cfg bt st \<longleftrightarrow>
     (auto_approve_first_pair st \<longrightarrow> remote_build_only cfg \<and> approved_peers st = [] \<and> pending_peers st = []) \<and>
     (remote_build_only cfg \<and> \<not> bt \<longrightarrow> pairing_window_clients st = [] \<and> pending_peers st = [])"

definition file_ok :: "(string \<times> string \<Rightarrow> bool) \<Rightarrow> peers_dict DStore \<Rightarrow> bool" where
  "file_ok may f \<longleftrightarrow> (\<forall>d \<in> copies f. rows_ok d \<and> (\<forall>idy \<in> identities d. may idy))"

definition pair_inv :: "PairSettings \<Rightarrow> peers_dict option \<Rightarrow> pair_event list \<Rightarrow> bool \<Rightarrow> ReceiverState \<Rightarrow> bool" where
  "pair_inv cfg file tr bt st \<longleftrightarrow>
     file_ok (authority cfg file tr) (peers_store st) \<and> rows_ok (pending_peers st) \<and>
     (\<forall>idy \<in> identities (pending_peers st). asked_in_window tr idy) \<and>
     set (dict_keys (pending_peers st)) \<inter> set (dict_keys (approved_peers st)) = {} \<and>
     polls_ok st \<and> timer_ok st \<and> boot_ok cfg bt st"

lemma pair_invD:
  assumes "pair_inv cfg file tr bt st"
  shows "file_ok (authority cfg file tr) (peers_store st)" "rows_ok (pending_peers st)"
    "idy \<in> identities (pending_peers st) \<Longrightarrow> asked_in_window tr idy"
    "set (dict_keys (pending_peers st)) \<inter> set (dict_keys (approved_peers st)) = {}" "polls_ok st" "timer_ok st"
    "boot_ok cfg bt st" "rows_ok (approved_peers st)"
    "idy \<in> identities (approved_peers st) \<Longrightarrow> authority cfg file tr idy"
  using assms by (auto simp: pair_inv_def file_ok_def copies_def)

lemma file_ok_mono: "file_ok may f \<Longrightarrow> (\<And>idy. may idy \<Longrightarrow> may' idy) \<Longrightarrow> file_ok may' f"
  by (auto simp: file_ok_def)

lemma file_ok_ram: "file_ok may f \<Longrightarrow> rows_ok d \<Longrightarrow> (\<And>idy. idy \<in> identities d \<Longrightarrow> may idy) \<Longrightarrow> file_ok may (f\<lparr>ram := d\<rparr>)"
  using copies_ram [where f = f and v = d] by (auto simp: file_ok_def)

lemma file_ok_quiet [simp]:
  "file_ok may (async_delay_save now delay f) = file_ok may f" "file_ok may (async_save_now f) = file_ok may f"
  by (simp_all add: file_ok_def)

lemma file_ok_step: "internal_step f f' \<Longrightarrow> file_ok may f \<Longrightarrow> file_ok may f'"
  using copies_internal [of f f'] by (auto simp: file_ok_def)

text \<open>A trail that grows, and operations that leave everything the invariant speaks about.\<close>

lemma pair_inv_later: "pair_inv cfg file tr bt st \<Longrightarrow> pair_inv cfg file (new @ tr) bt st"
  unfolding pair_inv_def by (auto intro: asked_later elim!: file_ok_mono authority_later)

definition same_pairing :: "ReceiverState \<Rightarrow> ReceiverState \<Rightarrow> bool" where
  "same_pairing st st' \<longleftrightarrow>
     pairing_window_clients st' = pairing_window_clients st \<and> pairing_window_handle st' = pairing_window_handle st \<and>
     auto_approve_first_pair st' = auto_approve_first_pair st \<and> pending_peers st' = pending_peers st \<and>
     peers_store st' = peers_store st \<and> status_waits st' = status_waits st"

lemma pair_inv_same: "same_pairing st st' \<Longrightarrow> pair_inv cfg file tr bt st \<Longrightarrow> pair_inv cfg file tr bt st'"
  by (simp add: same_pairing_def pair_inv_def polls_ok_def timer_ok_def boot_ok_def)

section \<open>The operations keep it\<close>

definition woken :: "string list \<Rightarrow> (nat, StatusWait) dict \<Rightarrow> (nat, StatusWait) dict" where
  "woken ks ws = map (\<lambda>(n, w). (n, if wait_id w \<in> set ks then w\<lparr>flip_event := True\<rparr> else w)) ws"

lemma woken_woken [simp]: "woken ks (woken [k] ws) = woken (k # ks) ws"
  by (auto simp: woken_def)

lemma fire_status_eq:
  "fire_pair_status_changed k v st =
     st\<lparr>fired := PAIR_STATUS_CHANGED k v # fired st, status_waits := woken [k] (status_waits st)\<rparr>"
  by (simp add: fire_pair_status_changed_def fire_event_def Let_def woken_def)

lemma fold_fire_eq:
  "fold (\<lambda>k. fire_pair_status_changed k v) ks st =
     st\<lparr>fired := rev (map (\<lambda>k. PAIR_STATUS_CHANGED k v) ks) @ fired st, status_waits := woken ks (status_waits st)\<rparr>"
proof (induction ks arbitrary: st)
  case Nil
  have "woken [] ws = ws" for ws by (simp add: woken_def case_prod_beta)
  then show ?case by simp
qed (simp add: fire_status_eq)

lemma clear_pending_eq:
  "clear_pending_peers_on_window_close st =
     st\<lparr>pending_peers := [], fired := rev (map (\<lambda>k. PAIR_STATUS_CHANGED k Status_removed) (dict_keys (pending_peers st))) @ fired st,
        status_waits := woken (dict_keys (pending_peers st)) (status_waits st)\<rparr>"
  by (simp add: clear_pending_peers_on_window_close_def fold_fire_eq)

lemma woken_mem: "(n, w) \<in> set (woken ks ws) \<Longrightarrow>
    \<exists>w0. (n, w0) \<in> set ws \<and> wait_id w = wait_id w0 \<and> (flip_event w \<longleftrightarrow> flip_event w0 \<or> wait_id w0 \<in> set ks)"
  by (fastforce simp: woken_def)

lemma polls_ok_woken:
  assumes "polls_ok st" "status_waits st' = woken ks (status_waits st)"
    "set (dict_keys (pending_peers st)) - set ks \<subseteq> set (dict_keys (pending_peers st'))"
  shows "polls_ok st'"
  unfolding polls_ok_def
proof clarify
  fix n w assume "(n, w) \<in> set (status_waits st')" and nf: "wait_id w \<notin> set (dict_keys (pending_peers st'))"
  then obtain w0 where w0: "(n, w0) \<in> set (status_waits st)" "wait_id w = wait_id w0"
      "flip_event w \<longleftrightarrow> flip_event w0 \<or> wait_id w0 \<in> set ks"
    using woken_mem assms(2) by metis
  then have "flip_event w0 \<or> wait_id w0 \<in> set (dict_keys (pending_peers st))"
    using assms(1) unfolding polls_ok_def by blast
  then show "flip_event w" using w0 nf assms(3) by auto
qed

lemma prune_eq: "prune_stale_pairing_window_clients now st =
    st\<lparr>pairing_window_clients := filter (\<lambda>(c, deadline). now \<le> deadline) (pairing_window_clients st)\<rparr>"
  by (simp add: prune_stale_pairing_window_clients_def)

text \<open>What a window command does to the pending rows and to the timer, in one step.\<close>

definition window_entries :: "real \<Rightarrow> bool \<Rightarrow> WindowClient \<Rightarrow> real \<Rightarrow> ReceiverState \<Rightarrow> (WindowClient, real) dict" where
  "window_entries now opn c secs st =
     (let cs = filter (\<lambda>(c, deadline). now \<le> deadline) (pairing_window_clients st)
      in filter (\<lambda>(c, deadline). now \<le> deadline) (if opn then dict_set c (now + secs) cs else dict_pop c cs))"

definition window_timer_for :: "real \<Rightarrow> (WindowClient, real) dict \<Rightarrow> real option" where
  "window_timer_for now cs = (if cs = [] then None else Some (now + max 0 (Max (set (dict_values cs)) - now)))"

lemma was_open_iff: "filter (\<lambda>(c, deadline). now \<le> deadline) (pairing_window_clients st) \<noteq> [] \<longleftrightarrow> window_is_open now st"
  by (auto simp: window_is_open_def filter_empty_conv)

lemma window_open_eq: "is_pairing_window_open now st = (window_is_open now st, prune_stale_pairing_window_clients now st)"
  using was_open_iff [of now st] by (simp add: is_pairing_window_open_def Let_def prune_eq)

lemma remaining_eq:
  "pairing_window_remaining now st =
     (map_option (\<lambda>w. w - now) (window_timer_for now (filter (\<lambda>(c, deadline). now \<le> deadline) (pairing_window_clients st))),
      prune_stale_pairing_window_clients now st)"
  by (simp add: pairing_window_remaining_def Let_def prune_eq window_timer_for_def)

lemma window_state_eq: "snd (pairing_window_state now st) = prune_stale_pairing_window_clients now st"
  by (simp add: pairing_window_state_def remaining_eq split: option.split)

lemma fire_window_eq:
  "\<exists>f. fire_pairing_window_changed now st = (prune_stale_pairing_window_clients now st)\<lparr>fired := f\<rparr>"
  using window_state_eq [of now st]
  by (auto simp: fire_pairing_window_changed_def fire_event_def Let_def split: prod.split)

lemma reschedule_eq:
  "reschedule_pairing_window_close now st =
     (let cs = filter (\<lambda>(c, deadline). now \<le> deadline) (pairing_window_clients st)
      in st\<lparr>pairing_window_clients := cs, pairing_window_handle := window_timer_for now cs\<rparr>)"
  by (simp add: reschedule_pairing_window_close_def remaining_eq prune_eq Let_def window_timer_for_def)

lemma filter_twice: "filter P (filter P xs) = filter P xs"
  by simp

lemma fired_any: "\<exists>g. st = st\<lparr>fired := g\<rparr>"
  by (intro exI [of _ "fired st"]) simp

lemma set_pairing_window_eq:
  "\<exists>f. snd (set_pairing_window now (JBool opn) c dur st) =
     (let cs = window_entries now opn c (case dur of None \<Rightarrow> PAIRING_WINDOW_DURATION_SECONDS | Some d \<Rightarrow> d) st
      in (if window_is_open now st \<and> cs = [] then clear_pending_peers_on_window_close st else st)
         \<lparr>pairing_window_clients := cs, pairing_window_handle := window_timer_for now cs, fired := f\<rparr>)"
proof -
  let ?secs = "case dur of None \<Rightarrow> PAIRING_WINDOW_DURATION_SECONDS | Some d \<Rightarrow> d"
  define cs where "cs = window_entries now opn c ?secs st"
  define h where "h = window_timer_for now cs"
  define t where "t = st\<lparr>pairing_window_clients := cs, pairing_window_handle := h\<rparr>"
  have s3: "reschedule_pairing_window_close now (put_window_client opn c (now + ?secs) (prune_stale_pairing_window_clients now st)) = t"
    by (simp add: reschedule_eq put_window_client_def window_entries_def Let_def prune_eq t_def h_def cs_def)
  have fcs: "filter (\<lambda>(c, deadline). now \<le> deadline) cs = cs" by (simp add: cs_def window_entries_def Let_def)
  have cl: "pairing_window_clients t = cs" "pairing_window_handle t = h" by (simp_all add: t_def)
  have pr: "prune_stale_pairing_window_clients now u = u" if "pairing_window_clients u = cs" for u
    using that fcs by (simp add: prune_eq)
  obtain f where f: "fire_pairing_window_changed now t = t\<lparr>fired := f\<rparr>"
    using fire_window_eq [of now t] pr [OF cl(1)] by auto
  have g: "\<exists>g. announce_window now opn (window_is_open now st) t =
      (if window_is_open now st \<and> cs = [] then clear_pending_peers_on_window_close st else st)
         \<lparr>pairing_window_clients := cs, pairing_window_handle := h, fired := g\<rparr>"
  proof (cases "window_is_open now st \<and> cs = []")
    case True
    let ?g = "rev (map (\<lambda>k. PAIR_STATUS_CHANGED k Status_removed) (dict_keys (pending_peers st))) @ f"
    have "announce_window now opn (window_is_open now st) t = clear_pending_peers_on_window_close (t\<lparr>fired := f\<rparr>)"
      using True by (simp add: announce_window_def cl f)
    also have "\<dots> = (clear_pending_peers_on_window_close st)
        \<lparr>pairing_window_clients := cs, pairing_window_handle := h, fired := ?g\<rparr>"
      by (rule ReceiverState.equality) (simp_all add: clear_pending_eq t_def)
    finally show ?thesis using True by auto
  next
    case False
    have "announce_window now opn (window_is_open now st) t \<in> {fire_pairing_window_changed now t, t}"
      using False unfolding announce_window_def Let_def cl by auto
    then have "\<exists>g. announce_window now opn (window_is_open now st) t = t\<lparr>fired := g\<rparr>"
      unfolding f by (elim insertE emptyE) (use fired_any [of t] in \<open>simp_all only: simp_thms exI\<close>)
    moreover have "t\<lparr>fired := g\<rparr> = st\<lparr>pairing_window_clients := cs, pairing_window_handle := h, fired := g\<rparr>" for g
      by (simp add: t_def)
    ultimately show ?thesis using False by auto
  qed
  have "snd (set_pairing_window now (JBool opn) c dur st) =
      snd (pairing_window_state now (announce_window now opn (window_is_open now st) t))"
    using s3 by (simp add: set_pairing_window_def window_open_eq case_prod_beta)
  also have "\<dots> = announce_window now opn (window_is_open now st) t"
    unfolding window_state_eq by (rule pr) (use g in \<open>auto simp: clear_pending_eq\<close>)
  finally show ?thesis using g unfolding Let_def cs_def h_def by simp
qed


lemma timer_covers: "(c, d) \<in> set cs \<Longrightarrow> \<exists>w. window_timer_for now cs = Some w \<and> d \<le> w"
proof -
  assume c: "(c, d) \<in> set cs"
  then have "d \<le> Max (set (dict_values cs))" by (intro Max_ge) force+
  then show ?thesis using c by (auto simp: window_timer_for_def)
qed

lemma pair_inv_clear:
  assumes "pair_inv cfg file tr bt st"
  shows "pair_inv cfg file tr bt (clear_pending_peers_on_window_close st)"
proof -
  have "polls_ok (clear_pending_peers_on_window_close st)"
    using pair_invD(5) [OF assms] by (rule polls_ok_woken [where ks = "dict_keys (pending_peers st)"]) (simp_all add: clear_pending_eq)
  then show ?thesis using assms by (auto simp: pair_inv_def clear_pending_eq timer_ok_def boot_ok_def)
qed

lemma pair_inv_clients:
  assumes "pair_inv cfg file tr bt st" "remote_build_only cfg \<longrightarrow> bt \<or> cs = []"
    "\<And>c d. (c, d) \<in> set cs \<Longrightarrow> \<exists>w. h = Some w \<and> d \<le> w"
  shows "pair_inv cfg file tr bt (st\<lparr>pairing_window_clients := cs, pairing_window_handle := h, fired := f\<rparr>)"
  using assms by (auto simp: pair_inv_def polls_ok_def timer_ok_def boot_ok_def)

lemma pair_inv_window:
  assumes "pair_inv cfg file tr bt st" "remote_build_only cfg \<longrightarrow> bt"
  shows "pair_inv cfg file tr bt (snd (set_pairing_window now raw c dur st))"
proof (cases "\<exists>b. raw = JBool b")
  case True
  then obtain b where b: "raw = JBool b" by blast
  show ?thesis
    using set_pairing_window_eq [of now b c dur st] pair_inv_clear [OF assms(1)] assms timer_covers
    by (auto simp: b Let_def intro!: pair_inv_clients)
next
  case False
  then have "snd (set_pairing_window now raw c dur st) = st" by (auto simp: set_pairing_window_def split: json.split)
  then show ?thesis using assms(1) by simp
qed

lemma pair_inv_deadline:
  assumes "pair_inv cfg file tr bt st"
  shows "pair_inv cfg file tr bt (on_pairing_window_deadline now st)"
proof -
  let ?t = "st\<lparr>pairing_window_handle := None, pairing_window_clients := []\<rparr>"
  obtain f where "fire_pairing_window_changed now ?t = (prune_stale_pairing_window_clients now ?t)\<lparr>fired := f\<rparr>"
    using fire_window_eq by blast
  moreover have "(prune_stale_pairing_window_clients now ?t)\<lparr>fired := f\<rparr> =
      st\<lparr>pairing_window_clients := [], pairing_window_handle := None, fired := f\<rparr>"
    by (rule ReceiverState.equality) (simp_all add: prune_eq)
  ultimately have "fire_pairing_window_changed now ?t =
      st\<lparr>pairing_window_clients := [], pairing_window_handle := None, fired := f\<rparr>" by simp
  then show ?thesis
    unfolding on_pairing_window_deadline_def using pair_inv_clients [OF assms, of "[]" None f] by (simp add: pair_inv_clear)
qed

lemma pair_inv_prune: "pair_inv cfg file tr bt st \<Longrightarrow> pair_inv cfg file tr bt (prune_stale_pairing_window_clients now st)"
  by (auto simp: pair_inv_def polls_ok_def timer_ok_def boot_ok_def prune_eq)

text \<open>A change of the approved rows, written later or at once.\<close>

lemma pair_inv_store:
  assumes "pair_inv cfg file tr bt st" "file_ok (authority cfg file tr) f"
    "set (dict_keys (pending_peers st)) \<inter> set (dict_keys (ram f)) = {}"
    "auto_approve_first_pair st \<longrightarrow> ram f = []"
  shows "pair_inv cfg file tr bt (st\<lparr>peers_store := f\<rparr>)"
  using assms by (auto simp: pair_inv_def polls_ok_def timer_ok_def boot_ok_def)

lemma pair_inv_woken:
  assumes "pair_inv cfg file tr bt st"
  shows "pair_inv cfg file tr bt (fire_pair_status_changed k v st)"
proof -
  have "polls_ok (fire_pair_status_changed k v st)"
    using pair_invD(5) [OF assms] by (rule polls_ok_woken) (auto simp: fire_status_eq simp del: set_map)
  then show ?thesis using assms by (auto simp: pair_inv_def fire_status_eq timer_ok_def boot_ok_def)
qed


lemma re_fullmatch_chars: "dashboard_id_ok k \<Longrightarrow> k \<noteq> []"
  by (auto simp: dashboard_id_ok_def)

lemma validated_ok: "validate_dashboard_id raw = Inr k \<Longrightarrow> dashboard_id_ok k"
  by (auto simp: validate_dashboard_id_def split: json.splits if_splits)

lemma set_approved_eq: "set_approved d st = st\<lparr>peers_store := (peers_store st)\<lparr>ram := d\<rparr>\<rparr>"
  by (simp add: set_approved_def)

lemma save_peers_eq: "save_peers now st = st\<lparr>peers_store := async_delay_save now PEERS_SAVE_DELAY_SECONDS (peers_store st)\<rparr>"
  by (simp add: save_peers_def)

lemma pair_inv_approved:
  assumes i: "pair_inv cfg file tr bt st" and "rows_ok d" "\<And>idy. idy \<in> identities d \<Longrightarrow> authority cfg file tr idy"
    "set (dict_keys (pending_peers st)) \<inter> set (dict_keys d) = {}" "auto_approve_first_pair st \<longrightarrow> d = []"
  shows "pair_inv cfg file tr bt (set_approved d st)" "pair_inv cfg file tr bt (save_peers now (set_approved d st))"
proof -
  have f: "file_ok (authority cfg file tr) ((peers_store st)\<lparr>ram := d\<rparr>)"
    using pair_invD(1) [OF i] assms(2,3) by (rule file_ok_ram)
  show "pair_inv cfg file tr bt (set_approved d st)"
    unfolding set_approved_eq by (rule pair_inv_store [OF i f]) (use assms in auto)
  have "pair_inv cfg file tr bt (st\<lparr>peers_store := async_delay_save now PEERS_SAVE_DELAY_SECONDS ((peers_store st)\<lparr>ram := d\<rparr>)\<rparr>)"
    by (rule pair_inv_store [OF i]) (use f assms in auto)
  then show "pair_inv cfg file tr bt (save_peers now (set_approved d st))"
    by (simp add: save_peers_eq set_approved_eq)
qed

lemma pair_inv_pending_pop:
  assumes "pair_inv cfg file tr bt st"
  shows "pair_inv cfg file tr bt (fire_pair_status_changed k v (st\<lparr>pending_peers := dict_pop k (pending_peers st)\<rparr>))"
proof -
  let ?t = "st\<lparr>pending_peers := dict_pop k (pending_peers st)\<rparr>"
  have "polls_ok (fire_pair_status_changed k v ?t)"
    using pair_invD(5) [OF assms] by (rule polls_ok_woken) (auto simp: fire_status_eq dict_keys_pop simp del: set_map)
  moreover have "rows_ok (dict_pop k (pending_peers st))" using pair_invD(2) [OF assms] by (rule rows_ok_pop)
  moreover have "set (dict_keys (dict_pop k (pending_peers st))) \<subseteq> set (dict_keys (pending_peers st))"
    by (auto simp: dict_keys_pop simp del: set_map)
  ultimately show ?thesis using assms identities_pop [of k "pending_peers st"]
    by (fastforce simp: pair_inv_def fire_status_eq timer_ok_def boot_ok_def simp del: set_map)
qed

lemma commands_eq:
  "fire_pair_status_changed k v (save_peers now (set_approved d (st\<lparr>pending_peers := q\<rparr>))) =
   save_peers now (set_approved d (fire_pair_status_changed k v (st\<lparr>pending_peers := q\<rparr>)))"
  by (rule ReceiverState.equality) (simp_all add: save_peers_eq set_approved_eq fire_status_eq)

lemma pair_inv_approve:
  assumes i: "pair_inv cfg file tr bt st" and m: "\<not> remote_build_only cfg"
  shows "pair_inv cfg file (decided Admin_approved raw @ tr) bt (snd (approve_peer now raw st))"
proof (cases "validate_dashboard_id raw")
  case (Inl e)
  then show ?thesis using i by (simp add: approve_peer_def decided_def)
next
  case (Inr k)
  let ?tr = "decided Admin_approved raw @ tr"
  have i': "pair_inv cfg file ?tr bt st" by (rule pair_inv_later [OF i])
  show ?thesis
  proof (cases "dict_get (pending_peers st) k")
    case None
    then show ?thesis using i' Inr by (simp add: approve_peer_def)
  next
    case (Some p)
    let ?t = "fire_pair_status_changed k Status_approved (st\<lparr>pending_peers := dict_pop k (pending_peers st)\<rparr>)"
    let ?d = "dict_set k p (approved_peers st)"
    have t: "pair_inv cfg file ?tr bt ?t" by (rule pair_inv_pending_pop [OF i'])
    have row: "row_ok (k, p)" using pair_invD(2) [OF i] Some by (rule rows_ok_get)
    have ask: "asked_in_window tr (k, pin_sha256 p)" using pair_invD(3) [OF i] identities_get [OF Some] by blast
    then have "approved_by_admin ?tr (k, pin_sha256 p)"
      unfolding approved_by_admin_def by (intro exI [of _ "[]"] exI [of _ tr]) (simp add: decided_def Inr)
    then have auth: "authority cfg file ?tr idy" if "idy \<in> identities ?d" for idy
    proof -
      have "idy = (k, pin_sha256 p) \<or> idy \<in> identities (approved_peers st)"
        using that identities_set [OF pair_invD(8) [OF i]] by blast
      then show ?thesis
      proof
        assume "idy = (k, pin_sha256 p)"
        then show ?thesis using \<open>approved_by_admin ?tr (k, pin_sha256 p)\<close> by (simp add: authority_def)
      qed (rule pair_invD(9) [OF i'])
    qed
    have "snd (approve_peer now raw st) = save_peers now (set_approved ?d ?t)"
      by (simp add: approve_peer_def Inr Some Let_def commands_eq)
    moreover have "pair_inv cfg file ?tr bt (save_peers now (set_approved ?d ?t))"
    proof (rule pair_inv_approved(2) [OF t rows_ok_set [OF pair_invD(8) [OF i] row] auth])
      show "set (dict_keys (pending_peers ?t)) \<inter> set (dict_keys ?d) = {}"
        using pair_invD(4) [OF i] by (auto simp: fire_status_eq dict_keys_pop dict_keys_set simp del: set_map)
      show "auto_approve_first_pair ?t \<longrightarrow> ?d = []"
        using pair_invD(7) [OF i] m by (auto simp: fire_status_eq boot_ok_def)
    qed
    ultimately show ?thesis by simp
  qed
qed


lemma dials_untouched:
  "peers_store (on_peer_removed k st) = peers_store st" "same_pairing st (on_peer_removed k st)"
  by (simp_all add: on_peer_removed_def cancel_dial_def same_pairing_def Let_def split: option.split)

lemma pair_inv_remove:
  assumes i: "pair_inv cfg file tr bt st" and m: "\<not> remote_build_only cfg"
  shows "pair_inv cfg file (decided Admin_removed raw @ tr) bt (snd (remove_peer now raw st))"
proof (cases "validate_dashboard_id raw")
  case (Inl e)
  then show ?thesis using i by (simp add: remove_peer_def decided_def)
next
  case (Inr k)
  let ?tr = "decided Admin_removed raw @ tr"
  have i': "pair_inv cfg file ?tr bt st" by (rule pair_inv_later [OF i])
  consider "dict_get (pending_peers st) k \<noteq> None" | "dict_get (pending_peers st) k = None" "dict_get (approved_peers st) k = None"
    | "dict_get (pending_peers st) k = None" "dict_get (approved_peers st) k \<noteq> None" by blast
  then show ?thesis
  proof cases
    case 1
    then show ?thesis using pair_inv_pending_pop [OF i'] Inr by (simp add: remove_peer_def)
  next
    case 2
    then show ?thesis using i' Inr by (simp add: remove_peer_def)
  next
    case 3
    let ?d = "dict_pop k (approved_peers st)"
    have keys: "set (dict_keys ?d) \<subseteq> set (dict_keys (approved_peers st))" by (auto simp: dict_keys_pop simp del: set_map)
    have "pair_inv cfg file ?tr bt (set_approved ?d st)"
    proof (rule pair_inv_approved(1) [OF i' rows_ok_pop [OF pair_invD(8) [OF i]]])
      show "authority cfg file ?tr idy" if "idy \<in> identities ?d" for idy
        using that identities_pop [of k "approved_peers st"] pair_invD(9) [OF i'] by blast
      show "set (dict_keys (pending_peers st)) \<inter> set (dict_keys ?d) = {}" using pair_invD(4) [OF i] keys by blast
      show "auto_approve_first_pair st \<longrightarrow> ?d = []" using pair_invD(7) [OF i] m by (auto simp: boot_ok_def)
    qed
    then have j: "pair_inv cfg file ?tr bt (on_peer_removed k (set_approved ?d st))"
      by (rule pair_inv_same [OF dials_untouched(2)])
    have "pair_inv cfg file ?tr bt (save_peers now (on_peer_removed k (set_approved ?d st)))"
      unfolding save_peers_eq
      by (rule pair_inv_store [OF j]) (use pair_invD(1,4,7) [OF j] in \<open>auto simp: boot_ok_def simp del: set_map\<close>)
    then show ?thesis using 3 Inr by (auto simp: remove_peer_def intro: pair_inv_woken)
  qed
qed

text \<open>A pair request: the three ways it changes the rows.\<close>

lemma asked_PAIR: "in_intent i = PAIR_REQUEST \<Longrightarrow>
    asked now i st = [Asked i (window_is_open now st) (armed_key st) (approved_peers st = [])]"
  by (simp add: asked_def)

lemma pair_inv_refresh:
  assumes i: "pair_inv cfg file tr bt st" and p: "dict_get (approved_peers st) k = Some p"
    and q: "dashboard_id q = dashboard_id p" "pin_sha256 q = pin_sha256 p" "connect_back_port q < 65536"
  shows "pair_inv cfg file tr bt (set_approved (dict_set k q (approved_peers st)) st)"
    "pair_inv cfg file tr bt (save_peers now (set_approved (dict_set k q (approved_peers st)) st))"
proof -
  let ?d = "dict_set k q (approved_peers st)"
  have r: "row_ok (k, q)" using rows_ok_get [OF pair_invD(8) [OF i] p] q by (simp add: row_ok_def)
  have a: "authority cfg file tr idy" if "idy \<in> identities ?d" for idy
  proof -
    have "idy \<in> identities (approved_peers st)"
      using that identities_set [OF pair_invD(8) [OF i], of k q] identities_get [OF p] q(2) by auto
    then show ?thesis by (rule pair_invD(9) [OF i])
  qed
  have k: "set (dict_keys ?d) = set (dict_keys (approved_peers st))"
    using p dict_get_None_iff [of "approved_peers st" k] by (auto simp: dict_keys_set simp del: set_map)
  have b: "auto_approve_first_pair st \<longrightarrow> ?d = []" using p pair_invD(7) [OF i] by (auto simp: boot_ok_def)
  show "pair_inv cfg file tr bt (set_approved ?d st)" "pair_inv cfg file tr bt (save_peers now (set_approved ?d st))"
    by (rule pair_inv_approved [OF i rows_ok_set [OF pair_invD(8) [OF i] r] a _ b]; use pair_invD(4) [OF i] k in simp)+
qed

lemma pair_inv_auto:
  assumes i: "pair_inv cfg file tr bt st" and b: "auto_approve_first_pair st" and ok: "dashboard_id_ok (in_dashboard_id i)"
    and a: "authority cfg file tr (in_dashboard_id i, in_pin i)"
  shows "pair_inv cfg file tr bt (snd (auto_approve_pair_request now wall i st))"
proof -
  note d = pair_invD [OF i]
  have e: "approved_peers st = []" "pending_peers st = []" using d(7) b by (auto simp: boot_ok_def)
  let ?d = "dict_set (in_dashboard_id i) (new_StoredPeer i wall) []"
  let ?s = "st\<lparr>auto_approve_first_pair := False, bootstrap_pairing_key := None, auto_flushes := fl\<rparr>"
  have s: "pair_inv cfg file tr bt (st\<lparr>auto_approve_first_pair := False, bootstrap_pairing_key := None, auto_flushes := fl\<rparr>)" for fl
    using i by (auto simp: pair_inv_def polls_ok_def timer_ok_def boot_ok_def)
  have f: "file_ok (authority cfg file tr) ((peers_store st)\<lparr>ram := ?d\<rparr>)"
    using d(1) by (rule file_ok_ram) (use ok a in \<open>auto simp: rows_ok_def row_ok_def new_StoredPeer_def dict_ok_def identities_def\<close>)
  have "snd (auto_approve_pair_request now wall i st) =
      (st\<lparr>auto_approve_first_pair := False, bootstrap_pairing_key := None, auto_flushes := (next_task (peers_store st), i) # auto_flushes st\<rparr>)
        \<lparr>peers_store := async_save_now (async_delay_save now 0 ((peers_store st)\<lparr>ram := ?d\<rparr>))\<rparr>"
    by (simp add: auto_approve_pair_request_def set_approved_eq e async_delay_save_def Let_def split: option.split)
  also have "pair_inv cfg file tr bt \<dots>"
    by (rule pair_inv_store [OF s]) (use f e in auto)
  finally show ?thesis .
qed


lemma pair_inv_pending_set:
  assumes i: "pair_inv cfg file tr bt st" and p: "row_ok (k, p)" "asked_in_window tr (k, pin_sha256 p)"
    and c: "dict_get (approved_peers st) k = None" "\<not> auto_approve_first_pair st" "remote_build_only cfg \<longrightarrow> bt"
  shows "pair_inv cfg file tr bt (fire_event e (st\<lparr>pending_peers := dict_set k p (pending_peers st)\<rparr>))"
proof -
  note d = pair_invD [OF i]
  have keys: "set (dict_keys (dict_set k p (pending_peers st))) = insert k (set (dict_keys (pending_peers st)))"
    using fst_image_dict_set [of k p "pending_peers st"] by simp
  have "k \<notin> set (dict_keys (approved_peers st))" using c(1) by (simp add: dict_get_None_iff)
  moreover have "asked_in_window tr idy" if "idy \<in> identities (dict_set k p (pending_peers st))" for idy
  proof -
    have "idy = (k, pin_sha256 p) \<or> idy \<in> identities (pending_peers st)" using that identities_set [OF d(2)] by blast
    then show ?thesis
    proof
      assume "idy = (k, pin_sha256 p)"
      then show ?thesis using p(2) by simp
    qed (rule d(3))
  qed
  ultimately show ?thesis
    using d(1,4,5,6,7) c rows_ok_set [OF d(2) p(1)]
    unfolding pair_inv_def fire_event_def polls_ok_def timer_ok_def boot_ok_def by (simp add: keys del: set_map) blast
qed

lemma pair_inv_request:
  assumes i: "pair_inv cfg file tr bt st" and ok: "dashboard_id_ok (in_dashboard_id i)" "in_intent i = PAIR_REQUEST"
  shows "pair_inv cfg file (asked now i st @ tr) bt (snd (record_pair_request cfg now wall i st))"
proof -
  let ?tr = "asked now i st @ tr" and ?k = "in_dashboard_id i"
  have j: "pair_inv cfg file ?tr bt st" by (rule pair_inv_later [OF i])
  show ?thesis
  proof (cases "dict_get (approved_peers st) ?k")
    case (Some p)
    obtain ch q where q: "refresh_from_pair_request i p = (ch, q)" by fastforce
    show ?thesis
    proof (cases "pin_sha256 p = in_pin i")
      case True
      have "row_ok (?k, p)" using pair_invD(8) [OF i] Some by (rule rows_ok_get)
      then have "dashboard_id q = dashboard_id p" "pin_sha256 q = pin_sha256 p" "connect_back_port q < 65536"
        using refresh_keeps [of i p] q True by (auto simp: row_ok_def)
      note r = pair_inv_refresh [OF j Some this]
      have "same_pairing s (fire_event e s)" for e s by (simp add: same_pairing_def fire_event_def)
      then show ?thesis using Some True q r by (auto simp: record_pair_request_def Let_def intro: pair_inv_same)
    qed (use Some j in \<open>simp add: record_pair_request_def\<close>)
  next
    case None
    let ?s = "prune_stale_pairing_window_clients now st"
    have s: "pair_inv cfg file ?tr bt ?s" by (rule pair_inv_prune [OF j])
    show ?thesis
    proof (cases "window_is_open now st")
      case False
      then show ?thesis using None s by (simp add: record_pair_request_def window_open_eq)
    next
      case True
      have tr: "Asked i True (armed_key st) (approved_peers st = []) \<in> set ?tr" using asked_PAIR [OF ok(2)] True by simp
      have booted: "remote_build_only cfg \<longrightarrow> bt"
        using pair_invD(7) [OF i] True by (auto simp: boot_ok_def window_is_open_def)
      show ?thesis
      proof (cases "auto_approve_first_pair st \<and> approved_peers st = []")
        case auto: True
        have eq: "snd (record_pair_request cfg now wall i st) = snd (auto_approve_or_refuse cfg now wall i ?s)"
          using None True auto by (simp add: record_pair_request_def window_open_eq prune_eq)
        show ?thesis
        proof (cases "\<exists>key. bootstrap_pairing_key st = Some key \<and> pairing_key_matches key (in_key i) \<and> pairing_source_allowed cfg (in_ip i)")
          case granted: True
          then obtain key where key: "bootstrap_pairing_key st = Some key" "pairing_key_matches key (in_key i)" "pairing_source_allowed cfg (in_ip i)"
            by blast
          have "approved_by_key cfg ?tr (?k, in_pin i)"
            using pair_invD(7) [OF i] auto tr key unfolding approved_by_key_def armed_key_def boot_ok_def by auto
          then have "pair_inv cfg file ?tr bt (snd (auto_approve_pair_request now wall i ?s))"
            by (intro pair_inv_auto [OF s _ ok(1)]) (use auto in \<open>auto simp: prune_eq authority_def\<close>)
          then show ?thesis using key by (simp add: eq auto_approve_or_refuse_def prune_eq)
        next
          case False
          then have "snd (auto_approve_or_refuse cfg now wall i ?s) = ?s"
            by (auto simp: auto_approve_or_refuse_def prune_eq split: option.split)
          then show ?thesis using s eq by simp
        qed
      next
        case manual: False
        then have na: "\<not> auto_approve_first_pair st" using pair_invD(7) [OF i] by (auto simp: boot_ok_def)
        have "row_ok (?k, new_StoredPeer i wall)" using ok(1) by (simp add: row_ok_def new_StoredPeer_def)
        moreover have "asked_in_window ?tr (?k, pin_sha256 (new_StoredPeer i wall))"
          using tr unfolding asked_in_window_def by (auto simp: new_StoredPeer_def)
        ultimately have "pair_inv cfg file ?tr bt (fire_event e (?s\<lparr>pending_peers := dict_set ?k (new_StoredPeer i wall) (pending_peers ?s)\<rparr>))" for e
          by (rule pair_inv_pending_set [OF s]) (use None na booted in \<open>auto simp: prune_eq\<close>)
        then show ?thesis using None True manual s by (auto simp: record_pair_request_def window_open_eq prune_eq [of now st] Let_def)
      qed
    qed
  qed
qed

lemma pair_inv_wait:
  assumes i: "pair_inv cfg file tr bt st"
  shows "pair_inv cfg file tr bt (snd (lookup_peer_for_status n k pin st))"
proof -
  have "polls_ok (snd (lookup_peer_for_status n k pin st))"
  proof (cases "dict_get (pending_peers st) k")
    case None
    then have "snd (lookup_peer_for_status n k pin st) = st"
      by (auto simp: lookup_peer_for_status_def lookup_peer_response_def Let_def split: option.split)
    then show ?thesis using pair_invD(5) [OF i] by simp
  next
    case (Some p)
    then have "k \<in> set (dict_keys (pending_peers st))" using dict_get_None_iff [of "pending_peers st" k] by auto
    then show ?thesis using pair_invD(5) [OF i] 
      by (auto simp: lookup_peer_for_status_def polls_ok_def Let_def simp del: set_map dest!: dict_set_member)
  qed
  then show ?thesis using i
    by (auto simp: pair_inv_def lookup_peer_for_status_def timer_ok_def boot_ok_def Let_def)
qed


section \<open>Sessions and dials\<close>

text \<open>
  Every entry of the registry names a session of its own id; of the sessions of one id that are not being closed,
  all but at most one have ended, and that one is in the registry.
\<close>

definition open_session :: "ReceiverState \<Rightarrow> nat \<Rightarrow> bool" where
  "open_session st sid \<longleftrightarrow>
     sid \<in> set (registering st) \<union> set (live_sessions st) \<and> \<not> closing (session_objects st ! sid)"

definition sessions_ok :: "ReceiverState \<Rightarrow> bool" where
  "sessions_ok st \<longleftrightarrow>
     dict_ok (peer_link_sessions st) \<and> distinct (registering st @ live_sessions st) \<and>
     (\<forall>sid \<in> set (registering st) \<union> set (live_sessions st). sid < length (session_objects st)) \<and>
     (\<forall>k sid. dict_get (peer_link_sessions st) k = Some sid \<longrightarrow>
        sid < length (session_objects st) \<and> se_id (session_objects st ! sid) = k \<and>
        sid \<in> set (registering st) \<union> set (live_sessions st)) \<and>
     (\<forall>sid. open_session st sid \<longrightarrow> dict_get (peer_link_sessions st) (se_id (session_objects st ! sid)) = Some sid)"

text \<open>
  A task in the dictionary is a dial of its own id that nobody cancelled; a dial that still runs uncancelled is in the
  dictionary, and its peer is approved.
\<close>

definition dials_within :: "string set \<Rightarrow> ReceiverState \<Rightarrow> bool" where
  "dials_within A st \<longleftrightarrow>
     distinct (running_dials st) \<and> (\<forall>t \<in> set (running_dials st). t < length (dials st)) \<and>
     (\<forall>k t. dict_get (connect_back_tasks st) k = Some t \<longrightarrow> t < length (dials st) \<and> dial_id (dials st ! t) = k) \<and>
     (\<forall>t \<in> set (running_dials st). \<not> dial_cancelled (dials st ! t) \<longrightarrow>
        dict_get (connect_back_tasks st) (dial_id (dials st ! t)) = Some t \<and> dial_id (dials st ! t) \<in> A)"

abbreviation dials_ok :: "ReceiverState \<Rightarrow> bool" where
  "dials_ok st \<equiv> dials_within (set (dict_keys (approved_peers st))) st"

definition same_sessions :: "ReceiverState \<Rightarrow> ReceiverState \<Rightarrow> bool" where
  "same_sessions st st' \<longleftrightarrow>
     peer_link_sessions st' = peer_link_sessions st \<and> session_objects st' = session_objects st \<and>
     registering st' = registering st \<and> live_sessions st' = live_sessions st"

definition same_dials :: "ReceiverState \<Rightarrow> ReceiverState \<Rightarrow> bool" where
  "same_dials st st' \<longleftrightarrow>
     connect_back_tasks st' = connect_back_tasks st \<and> dials st' = dials st \<and> running_dials st' = running_dials st \<and>
     set (dict_keys (approved_peers st)) \<subseteq> set (dict_keys (approved_peers st'))"

lemma sessions_ok_same: "same_sessions st st' \<Longrightarrow> sessions_ok st \<Longrightarrow> sessions_ok st'"
  by (simp add: same_sessions_def sessions_ok_def open_session_def)

lemma dials_within_mono: "dials_within A st \<Longrightarrow> A \<subseteq> B \<Longrightarrow> dials_within B st"
  unfolding dials_within_def by blast

lemma dials_ok_same: "same_dials st st' \<Longrightarrow> dials_ok st \<Longrightarrow> dials_ok st'"
  by (rule dials_within_mono [of "set (dict_keys (approved_peers st))"]) (simp_all add: same_dials_def dials_within_def)

lemma same_trans:
  "same_sessions a b \<Longrightarrow> same_sessions b c \<Longrightarrow> same_sessions a c"
  "same_dials a b \<Longrightarrow> same_dials b c \<Longrightarrow> same_dials a c"
  "same_pairing a b \<Longrightarrow> same_pairing b c \<Longrightarrow> same_pairing a c"
  by (auto simp: same_sessions_def same_dials_def same_pairing_def simp del: set_map)

named_theorems same_intros \<open>operations that leave the sessions or the dials alone\<close>

lemmas same_defs = same_sessions_def same_dials_def same_pairing_def

lemma same_window [same_intros]:
  "same_sessions st (snd (set_pairing_window now raw c dur st))" "same_dials st (snd (set_pairing_window now raw c dur st))"
proof -
  have "same_sessions st (snd (set_pairing_window now raw c dur st)) \<and> same_dials st (snd (set_pairing_window now raw c dur st))"
  proof (cases "\<exists>b. raw = JBool b")
    case True
    then obtain b where "raw = JBool b" by blast
    then show ?thesis using set_pairing_window_eq [of now b c dur st]
      by (auto simp: same_defs Let_def clear_pending_eq)
  qed (auto simp: set_pairing_window_def same_defs split: json.split)
  then show "same_sessions st (snd (set_pairing_window now raw c dur st))" "same_dials st (snd (set_pairing_window now raw c dur st))"
    by auto
qed

lemma same_deadline [same_intros]:
  "same_sessions st (on_pairing_window_deadline now st)" "same_dials st (on_pairing_window_deadline now st)"
proof -
  let ?t = "st\<lparr>pairing_window_handle := None, pairing_window_clients := []\<rparr>"
  obtain f where "fire_pairing_window_changed now ?t = (prune_stale_pairing_window_clients now ?t)\<lparr>fired := f\<rparr>"
    using fire_window_eq by blast
  then show "same_sessions st (on_pairing_window_deadline now st)" "same_dials st (on_pairing_window_deadline now st)"
    by (simp_all add: on_pairing_window_deadline_def clear_pending_eq same_defs prune_eq)
qed

lemma same_approve [same_intros]:
  "same_sessions st (snd (approve_peer now raw st))" "same_dials st (snd (approve_peer now raw st))"
  by (auto simp: approve_peer_def same_defs save_peers_eq set_approved_eq fire_status_eq Let_def fst_image_dict_set
      split: sum.split option.split intro: rev_image_eqI)

lemma same_store: "ram f = ram (peers_store st) \<Longrightarrow> same_sessions st (st\<lparr>peers_store := f\<rparr>) \<and> same_dials st (st\<lparr>peers_store := f\<rparr>)"
  by (simp add: same_defs)

lemma same_auto: 
  "same_sessions st (snd (auto_approve_pair_request now wall i st))" "same_dials st (snd (auto_approve_pair_request now wall i st))"
  by (auto simp: auto_approve_pair_request_def same_defs set_approved_eq Let_def fst_image_dict_set)

lemma same_request [same_intros]:
  "same_sessions st (snd (record_pair_request cfg now wall i st))" "same_dials st (snd (record_pair_request cfg now wall i st))"
proof -
  let ?s = "prune_stale_pairing_window_clients now st"
  have s: "same_sessions st ?s" "same_dials st ?s" by (simp_all add: prune_eq same_defs)
  have a: "same_sessions st (snd (auto_approve_or_refuse cfg now wall i ?s))" "same_dials st (snd (auto_approve_or_refuse cfg now wall i ?s))"
    using s same_trans(1) [OF s(1) same_auto(1)] same_trans(2) [OF s(2) same_auto(2)]
    by (auto simp: auto_approve_or_refuse_def split: option.split)
  have "same_sessions st (snd (record_pair_request cfg now wall i st)) \<and> same_dials st (snd (record_pair_request cfg now wall i st))"
  proof (cases "dict_get (approved_peers st) (in_dashboard_id i)")
    case None
    have p: "same_sessions st (fire_event e (?s\<lparr>pending_peers := q\<rparr>)) \<and> same_dials st (fire_event e (?s\<lparr>pending_peers := q\<rparr>))" for e q
      by (simp add: same_defs fire_event_def prune_eq)
    show ?thesis using None a s p by (cases "window_is_open now st") (simp_all add: record_pair_request_def window_open_eq Let_def)
  qed (auto simp: record_pair_request_def same_defs set_approved_eq save_peers_eq fire_event_def Let_def fst_image_dict_set
      split: prod.split intro: rev_image_eqI)
  then show "same_sessions st (snd (record_pair_request cfg now wall i st))" "same_dials st (snd (record_pair_request cfg now wall i st))"
    by auto
qed

lemma same_dispatch [same_intros]:
  "same_sessions st (snd (dispatch_intent cfg acc off now wall n i st))" "same_dials st (snd (dispatch_intent cfg acc off now wall n i st))"
  using same_request [of st cfg now wall i]
  by (auto simp: dispatch_intent_def lookup_peer_for_status_def Let_def split: option.split) (simp_all add: same_defs)


lemma sessions_same_dialer [same_intros]:
  "same_sessions st (cancel_dial k st)" "same_sessions st (on_peer_removed k st)" "same_sessions st (on_session_registered now k st)"
  "same_sessions st (on_session_unregistered now k st)" "same_sessions st (dial_peer_end now u t e st)"
  "same_sessions st (pop_dial_task k t st)"
  by (auto simp: cancel_dial_def on_peer_removed_def on_session_registered_def on_session_unregistered_def dial_peer_end_def
      apply_reply_def escalate_dial_def pop_dial_task_def same_defs Let_def split: option.split dial_end.split)

lemma same_sweep_peer:
  "same_sessions st (sweep_peer now kp st)" "same_pairing st (sweep_peer now kp st)"
  by (auto simp: sweep_peer_def same_defs Let_def split: option.split prod.split)

lemma same_fold_sweep:
  "same_sessions st (fold (sweep_peer now) kps st) \<and> same_pairing st (fold (sweep_peer now) kps st)"
proof (induction kps arbitrary: st)
  case (Cons kp kps)
  then show ?case using same_sweep_peer [of st now kp] same_trans by (metis fold_simps(2))
qed (simp add: same_defs)

lemma same_sweep [same_intros]:
  "same_sessions st (sweep_connect_back now port role st)" "same_pairing st (sweep_connect_back now port role st)"
  using same_fold_sweep by (auto simp: sweep_connect_back_def) (simp_all add: same_defs)

lemma pairing_same_dialer [same_intros]:
  "same_pairing st (cancel_dial k st)" "same_pairing st (on_session_registered now k st)"
  "same_pairing st (on_session_unregistered now k st)" "same_pairing st (dial_peer_end now u t e st)"
  "same_pairing st (pop_dial_task k t st)"
  by (auto simp: cancel_dial_def on_session_registered_def on_session_unregistered_def dial_peer_end_def
      apply_reply_def escalate_dial_def pop_dial_task_def same_defs Let_def split: option.split dial_end.split)

lemma dials_withinI:
  assumes "distinct (running_dials st)" "\<And>t. t \<in> set (running_dials st) \<Longrightarrow> t < length (dials st)"
    "\<And>k t. dict_get (connect_back_tasks st) k = Some t \<Longrightarrow> t < length (dials st) \<and> dial_id (dials st ! t) = k"
    "\<And>t. t \<in> set (running_dials st) \<Longrightarrow> \<not> dial_cancelled (dials st ! t) \<Longrightarrow>
       dict_get (connect_back_tasks st) (dial_id (dials st ! t)) = Some t \<and> dial_id (dials st ! t) \<in> A"
  shows "dials_within A st"
  using assms by (simp add: dials_within_def)

lemma dials_withinD:
  assumes "dials_within A st"
  shows "distinct (running_dials st)" "t \<in> set (running_dials st) \<Longrightarrow> t < length (dials st)"
    "dict_get (connect_back_tasks st) k = Some t \<Longrightarrow> t < length (dials st) \<and> dial_id (dials st ! t) = k"
    "t \<in> set (running_dials st) \<Longrightarrow> \<not> dial_cancelled (dials st ! t) \<Longrightarrow>
       dict_get (connect_back_tasks st) (dial_id (dials st ! t)) = Some t \<and> dial_id (dials st ! t) \<in> A"
  using assms by (simp_all add: dials_within_def)

text \<open>Cancelling the dial of an id leaves no live one for it.\<close>

lemma dials_cancel:
  assumes "dials_within A st"
  shows "dials_within (A - {k}) (cancel_dial k st)"
proof (cases "dict_get (connect_back_tasks st) k")
  case None
  then have "dial_id (dials st ! t) \<noteq> k" if "t \<in> set (running_dials st)" "\<not> dial_cancelled (dials st ! t)" for t
    using dials_withinD(4) [OF assms that] by auto
  then show ?thesis
    by (intro dials_withinI) (use None dials_withinD [OF assms] in \<open>simp_all add: cancel_dial_def\<close>)
next
  case (Some n)
  have n: "n < length (dials st)" "dial_id (dials st ! n) = k" using dials_withinD(3) [OF assms Some] by auto
  define ds where "ds = (dials st)[n := (dials st ! n)\<lparr>dial_cancelled := True\<rparr>]"
  have same: "dial_id (ds ! t) = dial_id (dials st ! t)" "length ds = length (dials st)" for t
    using n by (cases "t = n"; simp add: ds_def)+
  have live: "dict_get (connect_back_tasks st) (dial_id (dials st ! t)) = Some t \<and> dial_id (dials st ! t) \<in> A - {k}"
    if t: "t \<in> set (running_dials st)" "\<not> dial_cancelled (ds ! t)" for t
  proof -
    have "t \<noteq> n" using t(2) n(1) by (auto simp: ds_def)
    then have "\<not> dial_cancelled (dials st ! t)" using t(2) by (simp add: ds_def)
    then show ?thesis using dials_withinD(4) [OF assms t(1)] \<open>t \<noteq> n\<close> Some by auto
  qed
  have eq: "cancel_dial k st = st\<lparr>connect_back_tasks := dict_pop k (connect_back_tasks st), dials := ds,
      connect_back_cooldowns := cd_discard k (connect_back_cooldowns st)\<rparr>"
    by (simp add: cancel_dial_def Some ds_def)
  show ?thesis
    unfolding eq by (intro dials_withinI) (use dials_withinD(1-3) [OF assms] live in \<open>auto simp: same split: if_splits\<close>)
qed

lemma dials_removed: "dials_within A st \<Longrightarrow> dials_within (A - {k}) (on_peer_removed k st)"
  using dials_cancel [of A st k] by (simp add: on_peer_removed_def dials_within_def Let_def)

lemma dials_registered: "dials_within A st \<Longrightarrow> dials_within (A - {k}) (on_session_registered now k st)"
  using dials_cancel [of A st k] by (simp add: on_session_registered_def dials_within_def Let_def)

lemma dials_contact: "dials_within A st \<Longrightarrow> dials_within A (on_session_unregistered now k st)"
  by (simp add: on_session_unregistered_def dials_within_def)

lemma dials_fewer:
  assumes "dials_within A st" "connect_back_tasks st' = connect_back_tasks st" "dials st' = dials st"
    "running_dials st' = remove1 t (running_dials st)"
  shows "dials_within A st'"
  using assms set_remove1_subset [of t "running_dials st"] unfolding dials_within_def by (simp add: subset_iff)

lemma dials_end: "dials_within A st \<Longrightarrow> dials_within A (dial_peer_end now u t e st)"
  by (rule dials_fewer [of A st _ t])
    (auto simp: dial_peer_end_def apply_reply_def escalate_dial_def Let_def split: dial_end.split)

lemma dials_pop:
  assumes "dials_within A st" "t \<notin> set (running_dials st)"
  shows "dials_within A (pop_dial_task k t st)"
proof (cases "dict_get (connect_back_tasks st) k = Some t")
  case True
  have "dict_get (dict_pop k (connect_back_tasks st)) (dial_id (dials st ! r)) = Some r \<and> dial_id (dials st ! r) \<in> A"
    if r: "r \<in> set (running_dials st)" "\<not> dial_cancelled (dials st ! r)" for r
    using dials_withinD(4) [OF assms(1) r] r(1) assms(2) True by auto
  then show ?thesis
    by (intro dials_withinI)
      (use True dials_withinD(1-3) [OF assms(1)] in \<open>auto simp: pop_dial_task_def split: if_splits\<close>)
qed (use assms in \<open>simp add: pop_dial_task_def\<close>)

lemma dials_sweep_peer:
  assumes "dials_within A st" "fst kp \<in> A"
  shows "dials_within A (sweep_peer now kp st)"
proof -
  obtain k p where kp: "kp = (k, p)" by fastforce
  obtain last s1 where s1: "(case dict_get (connect_back_last_contact st) k of
             Some t \<Rightarrow> (t, st)
           | None \<Rightarrow> (now, st\<lparr>connect_back_last_contact := dict_set k now (connect_back_last_contact st)\<rparr>)) = (last, s1)" by fastforce
  then have f: "dials_within A s1" using assms(1) by (auto simp: dials_within_def split: option.splits)
  show ?thesis
  proof (cases "dial_blocked now last k p s1")
    case True
    then show ?thesis using f s1 by (simp add: sweep_peer_def kp)
  next
    case False
    then have free: "dict_get (connect_back_tasks s1) k = None" by (simp add: dial_blocked_def)
    note d = dials_withinD [OF f]
    have new: "length (dials s1) \<notin> set (running_dials s1)" using d(2) by blast
    have eq: "sweep_peer now kp st = s1\<lparr>dials := dials s1 @ [\<lparr>dial_id = k, dial_cancelled = False\<rparr>],
        running_dials := running_dials s1 @ [length (dials s1)],
        connect_back_tasks := dict_set k (length (dials s1)) (connect_back_tasks s1)\<rparr>"
      using False s1 by (simp add: sweep_peer_def kp)
    have old: "dict_get (connect_back_tasks s1) (dial_id (dials s1 ! t)) = Some t \<and> dial_id (dials s1 ! t) \<in> A \<and> dial_id (dials s1 ! t) \<noteq> k"
      if "t \<in> set (running_dials s1)" "\<not> dial_cancelled (dials s1 ! t)" for t
      using d(4) [OF that] free by auto
    show ?thesis
      unfolding eq
    proof (intro dials_withinI)
      show "distinct (running_dials (s1\<lparr>dials := dials s1 @ [\<lparr>dial_id = k, dial_cancelled = False\<rparr>],
        running_dials := running_dials s1 @ [length (dials s1)],
        connect_back_tasks := dict_set k (length (dials s1)) (connect_back_tasks s1)\<rparr>))" using d(1) new by simp
    qed (use d(2,3) old assms(2) kp in \<open>fastforce simp: nth_append split: if_splits\<close>)+
  qed
qed

lemma dials_fold_sweep: "dials_within A st \<Longrightarrow> set (map fst kps) \<subseteq> A \<Longrightarrow> dials_within A (fold (sweep_peer now) kps st)"
  by (induction kps arbitrary: st) (simp_all add: dials_sweep_peer)

lemma dials_sweep: "dials_ok st \<Longrightarrow> dials_ok (sweep_connect_back now port role st)"
proof -
  assume d: "dials_ok st"
  have "approved_peers (sweep_connect_back now port role st) = approved_peers st"
    using same_sweep(2) [of st now port role] by (simp add: same_pairing_def)
  moreover have "dials_within (set (dict_keys (approved_peers st))) (sweep_connect_back now port role st)"
    using dials_fold_sweep [OF d, of "approved_peers st"] d by (simp add: sweep_connect_back_def)
  ultimately show ?thesis by simp
qed


lemma sessions_okI:
  assumes "dict_ok (peer_link_sessions st)" "distinct (registering st @ live_sessions st)"
    "\<And>sid. sid \<in> set (registering st) \<union> set (live_sessions st) \<Longrightarrow> sid < length (session_objects st)"
    "\<And>k sid. dict_get (peer_link_sessions st) k = Some sid \<Longrightarrow> sid < length (session_objects st) \<and>
       se_id (session_objects st ! sid) = k \<and> sid \<in> set (registering st) \<union> set (live_sessions st)"
    "\<And>sid. open_session st sid \<Longrightarrow> dict_get (peer_link_sessions st) (se_id (session_objects st ! sid)) = Some sid"
  shows "sessions_ok st"
  using assms by (simp add: sessions_ok_def)

lemma sessions_okD:
  assumes "sessions_ok st"
  shows "dict_ok (peer_link_sessions st)" "distinct (registering st @ live_sessions st)"
    "sid \<in> set (registering st) \<union> set (live_sessions st) \<Longrightarrow> sid < length (session_objects st)"
    "dict_get (peer_link_sessions st) k = Some sid \<Longrightarrow> sid < length (session_objects st) \<and>
       se_id (session_objects st ! sid) = k \<and> sid \<in> set (registering st) \<union> set (live_sessions st)"
    "open_session st sid \<Longrightarrow> dict_get (peer_link_sessions st) (se_id (session_objects st ! sid)) = Some sid"
  using assms unfolding sessions_ok_def by blast+

lemma closed_objects:
  assumes "e < length objs"
  shows "se_id (objs[e := (objs ! e)\<lparr>closing := True\<rparr>] ! sid) = se_id (objs ! sid)"
    "closing (objs[e := (objs ! e)\<lparr>closing := True\<rparr>] ! sid) = (sid = e \<or> closing (objs ! sid))"
  using assms by (cases "sid = e"; simp)+

lemma sessions_terminate:
  assumes "sessions_ok st" "e < length (session_objects st)"
  shows "sessions_ok (terminate e st)"
proof -
  note d = sessions_okD [OF assms(1)] and c = closed_objects [OF assms(2)]
  show ?thesis
    by (intro sessions_okI) (use d in \<open>auto simp: terminate_def open_session_def c\<close>)
qed

text \<open>What registering does to the registry; the dialer and the row come after it.\<close>

lemma refresh_frame:
  "same_sessions st (refresh_peer_display_identity now se st)"
  by (simp add: refresh_peer_display_identity_def same_defs set_approved_eq save_peers_eq Let_def split: option.split)

lemma register_finish_sessions:
  "peer_link_sessions (register_finish now sid st) = peer_link_sessions st"
  "session_objects (register_finish now sid st) = session_objects st"
  "registering (register_finish now sid st) = remove1 sid (registering st)"
  "live_sessions (register_finish now sid st) = sid # live_sessions st"
proof -
  let ?t = "st\<lparr>registering := remove1 sid (registering st)\<rparr>" and ?se = "session_objects st ! sid"
  let ?u = "refresh_peer_display_identity now ?se (on_session_registered now (se_id ?se) ?t)"
  have "same_sessions ?t ?u" by (rule same_trans(1) [OF sessions_same_dialer(3) refresh_frame])
  then show "peer_link_sessions (register_finish now sid st) = peer_link_sessions st"
    "session_objects (register_finish now sid st) = session_objects st"
    "registering (register_finish now sid st) = remove1 sid (registering st)"
    "live_sessions (register_finish now sid st) = sid # live_sessions st"
    by (simp_all add: register_finish_def fire_event_def same_sessions_def Let_def case_prod_beta)
qed

lemma sessions_finish:
  assumes "sessions_ok st" "sid \<in> set (registering st)"
  shows "sessions_ok (register_finish now sid st)"
proof -
  note d = sessions_okD [OF assms(1)] and f = register_finish_sessions [of now sid st]
  have reg: "distinct (registering st)" using d(2) by simp
  have all: "set (remove1 sid (registering st)) \<union> set (sid # live_sessions st) = set (registering st) \<union> set (live_sessions st)"
    using assms(2) reg by (auto simp: set_remove1_eq)
  have o: "open_session (register_finish now sid st) r = open_session st r" for r
    unfolding open_session_def f all by simp
  show ?thesis
  proof (rule sessions_okI)
    show "distinct (registering (register_finish now sid st) @ live_sessions (register_finish now sid st))"
      using d(2) assms(2) by (auto simp: f set_remove1_eq distinct_remove1)
  qed (use d in \<open>simp_all only: f all o\<close>)
qed

lemma sessions_register:
  assumes "sessions_ok st" "\<not> closing se"
  shows "sessions_ok (register_peer_link_session now se st)"
proof -
  note d = sessions_okD [OF assms(1)]
  let ?n = "length (session_objects st)" and ?k = "se_id se"
  define s1 where "s1 = st\<lparr>session_objects := session_objects st @ [se],
    peer_link_sessions := dict_set ?k ?n (peer_link_sessions st), registering := ?n # registering st\<rparr>"
  have fresh: "sid \<noteq> ?n" if "sid \<in> set (registering st) \<union> set (live_sessions st)" for sid using d(3) [OF that] by simp
  have obj: "session_objects s1 ! sid = (if sid = ?n then se else session_objects st ! sid)" if "sid \<le> ?n" for sid
    using that by (auto simp: s1_def nth_append)
  have sel: "length (session_objects s1) = Suc ?n" "registering s1 = ?n # registering st" "live_sessions s1 = live_sessions st"
    "peer_link_sessions s1 = dict_set ?k ?n (peer_link_sessions st)" by (simp_all add: s1_def)
  have old_open: "open_session st sid \<and> sid < ?n" if "open_session s1 sid" "sid \<noteq> ?n" for sid
    using that d(3) [of sid] obj [of sid] by (auto simp: open_session_def sel)
  show ?thesis
  proof (cases "\<exists>e. dict_get (peer_link_sessions st) ?k = Some e \<and> \<not> closing (session_objects st ! e)")
    case True
    then obtain e where e: "dict_get (peer_link_sessions st) ?k = Some e" "\<not> closing (session_objects st ! e)" by blast
    have en: "e < ?n" using d(4) [OF e(1)] by blast
    have eq: "register_peer_link_session now se st = terminate e s1"
      using e by (simp add: register_peer_link_session_def s1_def Let_def)
    have c: "se_id (session_objects (terminate e s1) ! sid) = se_id (session_objects s1 ! sid)"
      "closing (session_objects (terminate e s1) ! sid) = (sid = e \<or> closing (session_objects s1 ! sid))" for sid
      using closed_objects [of e "session_objects s1"] en sel(1) by (simp_all add: terminate_def)
    have t: "peer_link_sessions (terminate e s1) = peer_link_sessions s1" "registering (terminate e s1) = registering s1"
      "live_sessions (terminate e s1) = live_sessions s1" "length (session_objects (terminate e s1)) = Suc ?n"
      by (simp_all add: terminate_def sel)
    show ?thesis unfolding eq
    proof (rule sessions_okI)
      fix sid assume o: "open_session (terminate e s1) sid"
      then have "open_session s1 sid" "sid \<noteq> e" by (auto simp: open_session_def t c)
      then show "dict_get (peer_link_sessions (terminate e s1)) (se_id (session_objects (terminate e s1) ! sid)) = Some sid"
        using d(5) [of sid] old_open [of sid] e(1) obj [of sid] by (cases "sid = ?n") (auto simp: t c sel)
    next
      fix k sid assume k: "dict_get (peer_link_sessions (terminate e s1)) k = Some sid"
      then show "sid < length (session_objects (terminate e s1)) \<and> se_id (session_objects (terminate e s1) ! sid) = k \<and>
          sid \<in> set (registering (terminate e s1)) \<union> set (live_sessions (terminate e s1))"
        using d(4) [of k sid] obj [of sid] by (cases "k = ?k") (auto simp: t c sel)
    next
      fix sid assume "sid \<in> set (registering (terminate e s1)) \<union> set (live_sessions (terminate e s1))"
      then show "sid < length (session_objects (terminate e s1))" using d(3) [of sid] by (auto simp: t sel)
    qed (use d(1,2) fresh in \<open>auto simp: t sel\<close>)
  next
    case False
    have s1: "sessions_ok s1"
    proof (rule sessions_okI)
      fix sid assume o: "open_session s1 sid"
      show "dict_get (peer_link_sessions s1) (se_id (session_objects s1 ! sid)) = Some sid"
      proof (cases "sid = ?n")
        case old: False
        note op = old_open [OF o old]
        then have "dict_get (peer_link_sessions st) (se_id (session_objects st ! sid)) = Some sid" using d(5) by blast
        moreover have "se_id (session_objects st ! sid) \<noteq> ?k"
          using False calculation op by (auto simp: open_session_def)
        ultimately show ?thesis using obj [of sid] op old by (simp add: sel)
      qed (simp add: obj sel)
    next
      fix k sid assume k: "dict_get (peer_link_sessions s1) k = Some sid"
      then show "sid < length (session_objects s1) \<and> se_id (session_objects s1 ! sid) = k \<and>
          sid \<in> set (registering s1) \<union> set (live_sessions s1)"
        using d(4) [of k sid] obj [of sid] by (cases "k = ?k") (auto simp: sel)
    next
      fix sid assume "sid \<in> set (registering s1) \<union> set (live_sessions s1)"
      then show "sid < length (session_objects s1)" using d(3) [of sid] by (auto simp: sel)
    qed (use d(1,2) fresh in \<open>auto simp: sel\<close>)
    have "register_peer_link_session now se st = register_finish now ?n s1"
      using False by (auto simp: register_peer_link_session_def s1_def Let_def split: option.split)
    then show ?thesis using sessions_finish [OF s1] by (simp add: sel)
  qed
qed

lemma sessions_unregister:
  assumes "sessions_ok st" "sid \<in> set (live_sessions st)"
  shows "sessions_ok (unregister_peer_link_session now sid st)"
proof -
  note d = sessions_okD [OF assms(1)]
  let ?k = "se_id (session_objects st ! sid)" and ?t = "unregister_peer_link_session now sid st"
  have live: "set (remove1 sid (live_sessions st)) = set (live_sessions st) - {sid}" "sid \<notin> set (registering st)"
    using d(2) assms(2) by (auto simp: set_remove1_eq)
  have sel: "session_objects ?t = session_objects st" "registering ?t = registering st"
    "live_sessions ?t = remove1 sid (live_sessions st)"
    "peer_link_sessions ?t = (if dict_get (peer_link_sessions st) ?k = Some sid then dict_pop ?k (peer_link_sessions st) else peer_link_sessions st)"
    by (simp_all add: unregister_peer_link_session_def fire_event_def on_session_unregistered_def Let_def)
  have o: "open_session st r \<and> r \<noteq> sid" if "open_session ?t r" for r
    using that live by (auto simp: open_session_def sel)
  show ?thesis
  proof (rule sessions_okI)
    fix r assume "open_session ?t r"
    then show "dict_get (peer_link_sessions ?t) (se_id (session_objects ?t ! r)) = Some r"
      using o [of r] d(5) [of r] by (auto simp: sel)
  next
    fix k r assume "dict_get (peer_link_sessions ?t) k = Some r"
    then have "dict_get (peer_link_sessions st) k = Some r" "r \<noteq> sid"
      using d(4) [of k r] by (auto simp: sel split: if_splits)
    then show "r < length (session_objects ?t) \<and> se_id (session_objects ?t ! r) = k \<and>
        r \<in> set (registering ?t) \<union> set (live_sessions ?t)"
      using d(4) [of k r] live by (auto simp: sel)
  next
    fix r assume "r \<in> set (registering ?t) \<union> set (live_sessions ?t)"
    then show "r < length (session_objects ?t)" using d(3) [of r] live by (auto simp: sel)
  qed (use d(1,2) live in \<open>auto simp: sel distinct_remove1\<close>)
qed


section \<open>The invariant of the receiver\<close>

definition sessions_may :: "(string \<times> string \<Rightarrow> bool) \<Rightarrow> ReceiverState \<Rightarrow> bool" where
  "sessions_may may st \<longleftrightarrow> (\<forall>se \<in> set (session_objects st). se_port se < 65536 \<and> (\<exists>pin. may (se_id se, pin)))"

definition receiver_inv :: "PairSettings \<Rightarrow> peers_dict option \<Rightarrow> pair_sys \<Rightarrow> bool" where
  "receiver_inv cfg file s \<longleftrightarrow>
     pair_inv cfg file (trail s) (booted s) (recv s) \<and> sessions_ok (recv s) \<and> dials_ok (recv s) \<and>
     sessions_may (authority cfg file (trail s)) (recv s) \<and>
     (\<forall>i \<in> set (granted s). authority cfg file (trail s) (in_dashboard_id i, in_pin i))"

lemma receiver_invD:
  assumes "receiver_inv cfg file s"
  shows "pair_inv cfg file (trail s) (booted s) (recv s)" "sessions_ok (recv s)" "dials_ok (recv s)"
    "sessions_may (authority cfg file (trail s)) (recv s)"
    "i \<in> set (granted s) \<Longrightarrow> authority cfg file (trail s) (in_dashboard_id i, in_pin i)"
  using assms by (auto simp: receiver_inv_def)

lemma sessions_may_same: "same_sessions st st' \<Longrightarrow> sessions_may may st \<Longrightarrow> sessions_may may st'"
  by (simp add: sessions_may_def same_sessions_def)

lemma sessions_may_mono: "sessions_may may st \<Longrightarrow> (\<And>idy. may idy \<Longrightarrow> may' idy) \<Longrightarrow> sessions_may may' st"
  by (auto simp: sessions_may_def) blast

text \<open>A step that leaves the sessions alone, and the grants as they are.\<close>

lemma receiver_inv_pairing:
  assumes i: "receiver_inv cfg file s" and s': "trail s' = new @ trail s" "granted s' = granted s"
    and p: "pair_inv cfg file (trail s') (booted s') (recv s')" and se: "same_sessions (recv s) (recv s')" and d: "dials_ok (recv s')"
  shows "receiver_inv cfg file s'"
proof -
  note r = receiver_invD [OF i]
  have "sessions_may (authority cfg file (trail s')) (recv s')"
    unfolding s' by (rule sessions_may_same [OF se sessions_may_mono [OF r(4) authority_later]])
  moreover have "authority cfg file (trail s') (in_dashboard_id i, in_pin i)" if "i \<in> set (granted s')" for i
    unfolding s' using that s'(2) r(5) by (auto intro: authority_later)
  ultimately show ?thesis using p d sessions_ok_same [OF se r(2)] by (simp add: receiver_inv_def)
qed

lemma lookup_granted:
  assumes "lookup_peer_response r k pin st = (r, None)" "r \<noteq> REJECTED" "r \<noteq> PENDING"
  shows "(k, pin) \<in> identities (approved_peers st)"
  using assms identities_get [of "approved_peers st" k] by (auto simp: lookup_peer_response_def split: option.splits if_splits)

lemma dispatch_granted:
  assumes "dispatch_intent cfg acc off now wall n i st = (Some (OK, None), st')" "in_intent i = PEER_LINK"
  shows "(in_dashboard_id i, in_pin i) \<in> identities (approved_peers st)"
  using assms lookup_granted [of OK "in_dashboard_id i" "in_pin i" st]
  by (auto simp: dispatch_intent_def lookup_peer_for_session_def split: if_splits)

lemma pair_inv_dispatch:
  assumes i: "pair_inv cfg file tr bt st"
  shows "pair_inv cfg file (asked now i st @ tr) bt (snd (dispatch_intent cfg acc off now wall n i st))"
proof -
  have j: "pair_inv cfg file (asked now i st @ tr) bt st" by (rule pair_inv_later [OF i])
  show ?thesis
  proof (cases "acc \<and> in_intent i = PAIR_REQUEST \<and> dashboard_id_ok (in_dashboard_id i)")
    case True
    then show ?thesis using pair_inv_request [OF i] by (simp add: dispatch_intent_def)
  next
    case False
    then show ?thesis using j pair_inv_wait [OF j] by (auto simp: dispatch_intent_def split: option.split)
  qed
qed

lemma handshake_inv:
  assumes i: "receiver_inv cfg file s" and d: "dispatch_intent cfg acc off (pclock s) wall n i (recv s) = (r, st)"
  shows "receiver_inv cfg file (s\<lparr>recv := st, trail := asked (pclock s) i (recv s) @ trail s,
      granted := (if in_intent i = PEER_LINK \<and> r = Some (OK, None) then i # granted s else granted s)\<rparr>)"
proof -
  note inv = receiver_invD [OF i]
  have st: "st = snd (dispatch_intent cfg acc off (pclock s) wall n i (recv s))" using d by simp
  let ?t = "s\<lparr>recv := st, trail := asked (pclock s) i (recv s) @ trail s\<rparr>"
  have t: "receiver_inv cfg file ?t"
    by (rule receiver_inv_pairing [OF i, where new = "asked (pclock s) i (recv s)"])
      (use pair_inv_dispatch [OF inv(1)] same_dispatch(1) dials_ok_same [OF same_dispatch(2) inv(3)] st in simp_all)
  show ?thesis
  proof (cases "in_intent i = PEER_LINK \<and> r = Some (OK, None)")
    case True
    then have "authority cfg file (trail s) (in_dashboard_id i, in_pin i)"
      using dispatch_granted [of cfg acc off "pclock s" wall n i "recv s" st] d pair_invD(9) [OF inv(1)] by simp
    then have "authority cfg file (trail ?t) (in_dashboard_id i, in_pin i)" by (simp add: authority_later)
    then show ?thesis using t True unfolding receiver_inv_def by simp
  next
    case False
    then show ?thesis using t unfolding receiver_inv_def if_not_P [OF False] by simp
  qed
qed

lemma pair_inv_waits:
  assumes "pair_inv cfg file tr bt st" "set ws \<subseteq> set (status_waits st)"
  shows "pair_inv cfg file tr bt (st\<lparr>status_waits := ws\<rparr>)"
  using assms unfolding pair_inv_def polls_ok_def timer_ok_def boot_ok_def by (simp add: subset_iff) blast

lemma pair_inv_arm:
  assumes i: "pair_inv cfg file tr False st" and m: "remote_build_only cfg" "approved_peers st = []"
  shows "pair_inv cfg file tr True (bootstrap_arm now chars st)"
proof -
  let ?t = "st\<lparr>auto_approve_first_pair := True, bootstrap_pairing_key := Some (generate_pairing_key chars)\<rparr>"
  have "pair_inv cfg file tr True ?t"
    using i m by (auto simp: pair_inv_def polls_ok_def timer_ok_def boot_ok_def)
  then show ?thesis unfolding bootstrap_arm_def by (rule pair_inv_window) simp
qed

lemma pair_inv_disarm: "pair_inv cfg file tr bt st \<Longrightarrow> pair_inv cfg file tr bt (bootstrap_disarm st)"
  by (auto simp: bootstrap_disarm_def pair_inv_def polls_ok_def timer_ok_def boot_ok_def)

lemma pair_inv_start:
  assumes "\<And>d. f = Some d \<Longrightarrow> rows_ok d" "\<And>d idy. f = Some d \<Longrightarrow> idy \<in> identities d \<Longrightarrow> authority cfg file tr idy"
  shows "pair_inv cfg file tr bt (start_receiver f)"
proof -
  have "file_ok (authority cfg file tr) (peers_store (start_receiver f))"
    using assms seed_serialized
    by (cases f) (auto simp: start_receiver_def file_ok_def copies_def new_DStore_def)
  then show ?thesis by (simp add: pair_inv_def start_receiver_def polls_ok_def timer_ok_def boot_ok_def)
qed

lemma start_quiet: "sessions_ok (start_receiver f)" "dials_ok (start_receiver f)" "sessions_may may (start_receiver f)"
  by (simp_all add: start_receiver_def sessions_ok_def open_session_def dials_within_def sessions_may_def)

lemma restart_inv:
  assumes i: "receiver_inv cfg file s"
  shows "receiver_inv cfg file (s\<lparr>recv := start_receiver (disk (peers_store (recv s))), granted := [], booted := False\<rparr>)"
proof -
  have "file_ok (authority cfg file (trail s)) (peers_store (recv s))" by (rule pair_invD(1) [OF receiver_invD(1) [OF i]])
  then have "rows_ok d" "idy \<in> identities d \<Longrightarrow> authority cfg file (trail s) idy" if "disk (peers_store (recv s)) = Some d" for d idy
    using that by (auto simp: file_ok_def copies_def)
  then show ?thesis using start_quiet by (simp add: receiver_inv_def pair_inv_start)
qed

text \<open>The row of a session, and the session itself.\<close>

lemma refresh_row_keeps: "dashboard_id (refresh_row se p) = dashboard_id p" "pin_sha256 (refresh_row se p) = pin_sha256 p"
  "se_port se < 65536 \<Longrightarrow> connect_back_port p < 65536 \<Longrightarrow> connect_back_port (refresh_row se p) < 65536"
  by (simp_all add: refresh_row_def Let_def)

lemma refresh_identity_inv:
  assumes i: "pair_inv cfg file tr bt st" and p: "se_port se < 65536"
  shows "pair_inv cfg file tr bt (refresh_peer_display_identity now se st)"
    "same_dials st (refresh_peer_display_identity now se st)"
proof -
  show "pair_inv cfg file tr bt (refresh_peer_display_identity now se st)"
  proof (cases "dict_get (approved_peers st) (se_id se)")
    case (Some q)
    have "connect_back_port q < 65536" using rows_ok_get [OF pair_invD(8) [OF i] Some] by (simp add: row_ok_def)
    then have "connect_back_port (refresh_row se q) < 65536" by (rule refresh_row_keeps(3) [OF p])
    note r = pair_inv_refresh [OF i Some refresh_row_keeps(1,2) this]
    show ?thesis
      using r Some by (cases "refresh_row se q = q") (simp_all add: refresh_peer_display_identity_def Let_def)
  qed (use i in \<open>simp add: refresh_peer_display_identity_def\<close>)
  show "same_dials st (refresh_peer_display_identity now se st)"
    by (auto simp: refresh_peer_display_identity_def same_defs save_peers_eq set_approved_eq Let_def fst_image_dict_set
        split: option.split intro: rev_image_eqI)
qed


lemma finish_inv:
  assumes i: "pair_inv cfg file tr bt st" "dials_ok st" and p: "se_port (session_objects st ! sid) < 65536"
  shows "pair_inv cfg file tr bt (register_finish now sid st)" "dials_ok (register_finish now sid st)"
proof -
  let ?se = "session_objects st ! sid"
  let ?t = "st\<lparr>registering := remove1 sid (registering st)\<rparr>"
  let ?u = "on_session_registered now (se_id ?se) ?t" let ?v = "refresh_peer_display_identity now ?se ?u"
  have t: "pair_inv cfg file tr bt ?t" by (rule pair_inv_same [OF _ i(1)]) (simp add: same_pairing_def)
  then have u: "pair_inv cfg file tr bt ?u" by (rule pair_inv_same [OF pairing_same_dialer(2)])
  note v = refresh_identity_inv [OF u p, of now]
  have "dials_ok ?t" using i(2) by (simp add: dials_within_def)
  then have "dials_within (set (dict_keys (approved_peers st))) ?u"
    by (intro dials_within_mono [OF dials_registered [of "set (dict_keys (approved_peers st))"]]) auto
  moreover have "approved_peers ?u = approved_peers st"
    using pairing_same_dialer(2) [of ?t now "se_id ?se"] by (simp add: same_pairing_def)
  ultimately have dv: "dials_ok ?v" using dials_ok_same [OF v(2)] by simp
  have eq: "\<exists>e. register_finish now sid st = ?v\<lparr>live_sessions := sid # live_sessions ?v, fired := e # fired ?v\<rparr>"
    by (auto simp: register_finish_def fire_event_def Let_def case_prod_beta)
  then obtain e where eq: "register_finish now sid st = ?v\<lparr>live_sessions := sid # live_sessions ?v, fired := e # fired ?v\<rparr>" by blast
  show "pair_inv cfg file tr bt (register_finish now sid st)"
    unfolding eq by (rule pair_inv_same [OF _ v(1)]) (simp add: same_pairing_def)
  show "dials_ok (register_finish now sid st)" unfolding eq using dv by (simp add: dials_within_def)
qed

lemma terminate_inv:
  assumes "pair_inv cfg file tr bt st" "dials_ok st" "sessions_may may st" "e < length (session_objects st)"
  shows "pair_inv cfg file tr bt (terminate e st)" "dials_ok (terminate e st)" "sessions_may may (terminate e st)"
proof -
  show "pair_inv cfg file tr bt (terminate e st)"
    by (rule pair_inv_same [OF _ assms(1)]) (simp add: terminate_def same_pairing_def)
  show "dials_ok (terminate e st)" using assms(2) by (simp add: terminate_def dials_within_def)
  show "sessions_may may (terminate e st)"
    using assms(3) nth_mem [OF assms(4)] unfolding sessions_may_def terminate_def
    by (auto dest!: set_update_subset_insert [THEN subsetD])
qed

lemma opens_inv:
  assumes r: "receiver_inv cfg file s" and i: "i \<in> set (granted s)" "port < 65536"
  shows "receiver_inv cfg file (s\<lparr>recv := register_peer_link_session (pclock s) (new_PeerLinkSession i port) (recv s),
                                 granted := remove1 i (granted s)\<rparr>)"
proof -
  note inv = receiver_invD [OF r]
  let ?st = "recv s" let ?n = "length (session_objects ?st)" let ?se = "new_PeerLinkSession i port"
  let ?may = "authority cfg file (trail s)"
  define s1 where "s1 = ?st\<lparr>session_objects := session_objects ?st @ [?se],
    peer_link_sessions := dict_set (se_id ?se) ?n (peer_link_sessions ?st), registering := ?n # registering ?st\<rparr>"
  have p1: "pair_inv cfg file (trail s) (booted s) s1" by (rule pair_inv_same [OF _ inv(1)]) (simp add: s1_def same_pairing_def)
  have d1: "dials_ok s1" using inv(3) by (simp add: s1_def dials_within_def)
  have m1: "sessions_may ?may s1" "session_objects s1 ! ?n = ?se" "?n < length (session_objects s1)"
    using inv(4) inv(5) [OF i(1)] i(2) by (auto simp: s1_def sessions_may_def new_PeerLinkSession_def)
  have port: "se_port (session_objects s1 ! ?n) < 65536" unfolding m1(2) using i(2) by (simp add: new_PeerLinkSession_def)
  note f = finish_inv [OF p1 d1 port, of "pclock s"]
  have fm: "sessions_may ?may (register_finish (pclock s) ?n s1)"
    using m1(1) by (simp add: sessions_may_def register_finish_sessions)
  let ?r = "register_peer_link_session (pclock s) ?se ?st"
  have "pair_inv cfg file (trail s) (booted s) ?r \<and> dials_ok ?r \<and> sessions_may ?may ?r"
  proof (cases "dict_get (peer_link_sessions ?st) (se_id ?se)")
    case (Some e)
    have "e < length (session_objects s1)" using sessions_okD(4) [OF inv(2) Some] m1(3) by auto
    note t = terminate_inv [OF p1 d1 m1(1) this]
    have "?r = (if closing (session_objects ?st ! e) then register_finish (pclock s) ?n s1 else terminate e s1)"
      using Some by (simp add: register_peer_link_session_def s1_def Let_def)
    then show ?thesis using t f fm by simp
  next
    case None
    then have "?r = register_finish (pclock s) ?n s1" by (simp add: register_peer_link_session_def s1_def Let_def)
    then show ?thesis using f fm by simp
  qed
  moreover have "sessions_ok ?r" by (rule sessions_register [OF inv(2)]) (simp add: new_PeerLinkSession_def)
  moreover have "authority cfg file (trail s) (in_dashboard_id j, in_pin j)" if "j \<in> set (remove1 i (granted s))" for j
    using inv(5) that set_remove1_subset [of i "granted s"] by blast
  ultimately show ?thesis unfolding receiver_inv_def by simp
qed

lemma dials_remove:
  assumes d: "dials_ok st"
  shows "dials_ok (snd (remove_peer now raw st))" and "same_sessions st (snd (remove_peer now raw st))"
proof -
  have "dials_ok (snd (remove_peer now raw st)) \<and> same_sessions st (snd (remove_peer now raw st))"
  proof (cases "validate_dashboard_id raw")
    case (Inr k)
    show ?thesis
    proof (cases "dict_get (pending_peers st) k = None \<and> dict_get (approved_peers st) k \<noteq> None")
      case True
      let ?t = "set_approved (dict_pop k (approved_peers st)) st"
      let ?u = "on_peer_removed k ?t"
      have "dials_within (set (dict_keys (approved_peers st))) ?t" using d by (simp add: set_approved_eq dials_within_def)
      then have "dials_within (set (dict_keys (approved_peers st)) - {k}) ?u" by (rule dials_removed)
      moreover have "approved_peers ?u = dict_pop k (approved_peers st)"
        using dials_untouched(1) [of k ?t] by (simp add: set_approved_eq)
      ultimately have u: "dials_within (set (dict_keys (approved_peers ?u))) ?u"
        by (rule_tac dials_within_mono) (auto simp: dict_keys_pop simp del: set_map)
      have r: "snd (remove_peer now raw st) = fire_pair_status_changed k Status_removed (save_peers now ?u)"
        using True Inr by (auto simp: remove_peer_def)
      have s: "same_sessions st ?t" by (simp add: set_approved_eq same_sessions_def)
      have "same_sessions st ?u" by (rule same_trans(1) [OF s sessions_same_dialer(2)])
      then show ?thesis unfolding r using u by (simp add: fire_status_eq save_peers_eq same_sessions_def dials_within_def)
    qed (use Inr d in \<open>auto simp: remove_peer_def fire_status_eq same_sessions_def dials_within_def\<close>)
  qed (use d in \<open>simp add: remove_peer_def same_sessions_def\<close>)
  then show "dials_ok (snd (remove_peer now raw st))" "same_sessions st (snd (remove_peer now raw st))" by auto
qed


lemma receiver_inv_step:
  assumes st: "receiver_step cfg off s s'" and i: "receiver_inv cfg file s"
  shows "receiver_inv cfg file s'"
  using st
proof cases
  note inv = receiver_invD [OF i]
  note keep = receiver_inv_pairing [OF i, where new = "[]"]
  {
    case (time_passes now)
    then show ?thesis using i by (simp add: receiver_inv_def)
  next
    case (handshake acc wall n i r st)
    then show ?thesis using handshake_inv [OF i] by simp
  next
    case (poll_wakes n w)
    have "set (dict_pop n (status_waits (recv s))) \<subseteq> set (status_waits (recv s))" by (auto simp: set_dict_pop)
    then show ?thesis using pair_inv_waits [OF inv(1)] inv(3)
      by (intro keep) (simp_all add: poll_wakes upd_def status_resume_def same_sessions_def dials_within_def)
  next
    case (poll_dropped n w)
    have "set (dict_pop n (status_waits (recv s))) \<subseteq> set (status_waits (recv s))" by (auto simp: set_dict_pop)
    then show ?thesis using pair_inv_waits [OF inv(1)] inv(3)
      by (intro keep) (simp_all add: poll_dropped upd_def same_sessions_def dials_within_def)
  next
    case (first_pair_written e)
    let ?t = "(recv s)\<lparr>auto_flushes := remove1 e (auto_flushes (recv s))\<rparr>"
    have "pair_inv cfg file (trail s) (booted s) ?t" by (rule pair_inv_same [OF _ inv(1)]) (simp add: same_pairing_def)
    then have "pair_inv cfg file (trail s) (booted s) (snd (auto_approve_resume e (recv s)))"
      by (simp add: auto_approve_resume_def pair_inv_woken)
    then show ?thesis using inv(3)
      by (intro keep) (simp_all add: first_pair_written upd_def auto_approve_resume_def fire_status_eq same_sessions_def dials_within_def)
  next
    case (window_command raw n)
    then show ?thesis using pair_inv_window [OF inv(1)] same_window dials_ok_same [OF same_window(2) inv(3)]
      by (intro keep) (simp_all add: upd_def)
  next
    case (window_timer w)
    then show ?thesis using pair_inv_deadline [OF inv(1)] same_deadline dials_ok_same [OF same_deadline(2) inv(3)]
      by (intro keep) (simp_all add: upd_def)
  next
    case (approves raw)
    then show ?thesis using pair_inv_approve [OF inv(1)] same_approve dials_ok_same [OF same_approve(2) inv(3)]
      by (intro receiver_inv_pairing [OF i, where new = "decided Admin_approved raw"]) simp_all
  next
    case (removes raw)
    then show ?thesis using pair_inv_remove [OF inv(1)] dials_remove [OF inv(3)]
      by (intro receiver_inv_pairing [OF i, where new = "decided Admin_removed raw"]) simp_all
  next
    case (arms chars)
    have b: "pair_inv cfg file (trail s) False (recv s)" using inv(1) arms by simp
    let ?t = "(recv s)\<lparr>auto_approve_first_pair := True, bootstrap_pairing_key := Some (generate_pairing_key chars)\<rparr>"
    have t: "same_sessions (recv s) ?t" "same_dials (recv s) ?t" by (simp_all add: same_defs)
    have "same_sessions (recv s) (bootstrap_arm (pclock s) chars (recv s))" "same_dials (recv s) (bootstrap_arm (pclock s) chars (recv s))"
      unfolding bootstrap_arm_def by (rule same_trans(1) [OF t(1) same_window(1)], rule same_trans(2) [OF t(2) same_window(2)])
    then show ?thesis using pair_inv_arm [OF b] arms dials_ok_same [OF _ inv(3)]
      by (intro receiver_inv_pairing [OF i, where new = "[]"]) simp_all
  next
    case disarms
    then show ?thesis using pair_inv_disarm [OF inv(1)] inv(3)
      by (intro keep) (simp_all add: upd_def bootstrap_disarm_def same_sessions_def dials_within_def)
  next
    case closes
    then show ?thesis using pair_inv_window [OF inv(1)] same_window dials_ok_same [OF same_window(2) inv(3)]
      by (intro keep) (simp_all add: upd_def bootstrap_close_def)
  next
    case (file_step f)
    have r: "ram f = ram (peers_store (recv s))" using copies_internal [OF file_step(2)] by simp
    have "pair_inv cfg file (trail s) (booted s) ((recv s)\<lparr>peers_store := f\<rparr>)"
      by (rule pair_inv_store [OF inv(1) file_ok_step [OF file_step(2) pair_invD(1) [OF inv(1)]]])
        (use pair_invD(4,7) [OF inv(1)] in \<open>auto simp: r boot_ok_def simp del: set_map\<close>)
    then show ?thesis using inv(3)
      by (intro keep) (simp_all add: file_step upd_def same_sessions_def dials_within_def r)
  next
    case (session_opens i port)
    then show ?thesis using opens_inv [OF i] by simp
  next
    case (session_takes_over sid)
    have n: "sid < length (session_objects (recv s))" using sessions_okD(3) [OF inv(2)] session_takes_over by auto
    then have "se_port (session_objects (recv s) ! sid) < 65536" using inv(4) nth_mem by (auto simp: sessions_may_def)
    note f = finish_inv [OF inv(1,3) this, of "pclock s"]
    show ?thesis using f inv(4,5) sessions_finish [OF inv(2) session_takes_over(2)]
      by (simp add: session_takes_over upd_def receiver_inv_def sessions_may_def register_finish_sessions)
  next
    case (session_terminated sid)
    have n: "sid < length (session_objects (recv s))" using sessions_okD(3) [OF inv(2)] session_terminated by auto
    show ?thesis using terminate_inv [OF inv(1,3,4) n] sessions_terminate [OF inv(2) n] inv(5)
      by (simp add: session_terminated upd_def receiver_inv_def)
  next
    case (session_ends sid)
    let ?t = "unregister_peer_link_session (pclock s) sid (recv s)"
    have "same_pairing (recv s) ?t" "connect_back_tasks ?t = connect_back_tasks (recv s)" "dials ?t = dials (recv s)"
      "running_dials ?t = running_dials (recv s)" "session_objects ?t = session_objects (recv s)"
      by (simp_all add: unregister_peer_link_session_def fire_event_def on_session_unregistered_def Let_def same_pairing_def)
    then show ?thesis using pair_inv_same [OF _ inv(1)] inv(3,4,5) sessions_unregister [OF inv(2) session_ends(2)]
      by (simp add: session_ends upd_def receiver_inv_def sessions_may_def dials_within_def same_pairing_def)
  next
    case (sweep port role)
    then show ?thesis using pair_inv_same [OF same_sweep(2) inv(1)] same_sweep(1) dials_sweep [OF inv(3)]
      by (intro keep) (simp_all add: upd_def)
  next
    case (dial_returns t u e)
    have "peers_store (dial_peer_end (pclock s) u t e (recv s)) = peers_store (recv s)"
      using pairing_same_dialer(4) [of "recv s" "pclock s" u t e] by (simp add: same_pairing_def)
    then show ?thesis using dial_returns pair_inv_same [OF pairing_same_dialer(4) inv(1)] sessions_same_dialer(5) dials_end [OF inv(3)]
      by (intro keep) (simp_all add: upd_def)
  next
    case (dial_done t)
    let ?k = "dial_id (dials (recv s) ! t)"
    have "peers_store (pop_dial_task ?k t (recv s)) = peers_store (recv s)"
      using pairing_same_dialer(5) [of "recv s" ?k t] by (simp add: same_pairing_def)
    then show ?thesis using dial_done pair_inv_same [OF pairing_same_dialer(5) inv(1)] sessions_same_dialer(6) dials_pop [OF inv(3)]
      by (intro keep) (simp_all add: upd_def)
  next
    case restart
    then show ?thesis using restart_inv [OF i] by simp
  }
qed

lemma receiver_inv_init:
  assumes "receiver_init file s"
  shows "receiver_inv cfg file s"
proof -
  have "rows_ok d" "idy \<in> identities d \<Longrightarrow> authority cfg file tr idy" if "file = Some d" for d idy tr
    using assms that by (auto simp: receiver_init_def authority_def)
  then show ?thesis using assms start_quiet by (simp add: receiver_init_def receiver_inv_def pair_inv_start)
qed

interpretation receiver_machine: state_machine "receiver_init file" "receiver_step cfg off" "receiver_inv cfg file"
  by unfold_locales (auto intro: receiver_inv_init receiver_inv_step)

end
