(* ===== verification/ReceiverPromises.thy ===== *)
theory ReceiverPromises
  imports ReceiverInv
begin

text \<open>What the receiver of remote builds promises in every run, and two things it does not keep.\<close>

section \<open>What the receiver promises\<close>

text \<open>Two runs on concrete inputs: a tab opens the window, a peer asks, and then the administrator decides, or the tab closes late.\<close>

definition ex_cfg :: PairSettings where
  "ex_cfg = \<lparr>remote_build_only = False, allow_pairing_sources = [], parse_ip = (\<lambda>_. None)\<rparr>"

definition ex_input :: "PeerLinkIntent \<Rightarrow> DispatchInput" where
  "ex_input it = \<lparr>in_intent = it, in_dashboard_id = ''a'', in_label = ''lab'', in_pin = ''pin'', in_pub = [1], in_ip = ''10.0.0.2'',
     in_key = None, in_friendly = [], in_addon = False, in_label_auto = False, in_port = 0\<rparr>"

definition ex_row :: StoredPeer where
  "ex_row = new_StoredPeer (ex_input PAIR_REQUEST) 7"

definition ex_start :: "peers_dict option \<Rightarrow> pair_sys" where
  "ex_start file = \<lparr>recv = start_receiver file, pclock = 0, trail = [], granted = [], booted = False\<rparr>"

definition ex_window :: pair_sys where
  "ex_window = upd (ex_start None) (snd (set_pairing_window 0 (JBool True) (WsConnection 0) None (start_receiver None)))"

definition ex_asked :: pair_sys where
  "ex_asked = ex_window\<lparr>recv := snd (dispatch_intent ex_cfg True None 0 7 0 (ex_input PAIR_REQUEST) (recv ex_window)),
     trail := asked 0 (ex_input PAIR_REQUEST) (recv ex_window) @ trail ex_window, granted := []\<rparr>"

definition ex_approved :: pair_sys where
  "ex_approved = ex_asked\<lparr>recv := snd (approve_peer 0 (JStr ''a'') (recv ex_asked)), trail := decided Admin_approved (JStr ''a'') @ trail ex_asked\<rparr>"

definition ex_late :: pair_sys where
  "ex_late = ex_asked\<lparr>pclock := 301\<rparr>"

definition ex_lapsed :: pair_sys where
  "ex_lapsed = upd ex_late (snd (set_pairing_window 301 (JBool False) (WsConnection 0) None (recv ex_late)))"

lemma ex_id_ok: "dashboard_id_ok ''a''" "validate_dashboard_id (JStr ''a'') = Inr ''a''"
proof -
  show "dashboard_id_ok ''a''" by code_simp
  then show "validate_dashboard_id (JStr ''a'') = Inr ''a''"
    by (simp add: validate_dashboard_id_def strip_def is_space_def)
qed

lemma ex_input_fields: "in_intent (ex_input it) = it" "in_dashboard_id (ex_input it) = ''a''" "in_pin (ex_input it) = ''pin''"
  by (simp_all add: ex_input_def)

lemma ex_window_recv:
  "pairing_window_clients (recv ex_window) = [(WsConnection 0, 300)]" "pairing_window_handle (recv ex_window) = Some 300"
  "approved_peers (recv ex_window) = []" "pending_peers (recv ex_window) = []" "auto_approve_first_pair (recv ex_window) = False"
  "trail ex_window = []" "granted ex_window = []" "pclock ex_window = 0" "status_waits (recv ex_window) = []"
proof -
  have cs: "window_entries 0 True (WsConnection 0) PAIRING_WINDOW_DURATION_SECONDS (start_receiver None) = [(WsConnection 0, 300)]"
    by (simp add: window_entries_def start_receiver_def PAIRING_WINDOW_DURATION_SECONDS_def)
  have h: "window_timer_for 0 [(WsConnection 0, 300)] = Some 300" by (simp add: window_timer_for_def)
  obtain f where "snd (set_pairing_window 0 (JBool True) (WsConnection 0) None (start_receiver None)) =
      (start_receiver None)\<lparr>pairing_window_clients := [(WsConnection 0, 300)], pairing_window_handle := Some 300, fired := f\<rparr>"
    using set_pairing_window_eq [of 0 True "WsConnection 0" None "start_receiver None"] by (auto simp: cs h Let_def)
  then have r: "recv ex_window = (start_receiver None)
      \<lparr>pairing_window_clients := [(WsConnection 0, 300)], pairing_window_handle := Some 300, fired := f\<rparr>"
    by (simp add: ex_window_def upd_def)
  show "pairing_window_clients (recv ex_window) = [(WsConnection 0, 300)]" "pairing_window_handle (recv ex_window) = Some 300"
    "approved_peers (recv ex_window) = []" "pending_peers (recv ex_window) = []" "auto_approve_first_pair (recv ex_window) = False"
    "status_waits (recv ex_window) = []"
    by (simp_all add: r start_receiver_def new_DStore_def)
  show "trail ex_window = []" "granted ex_window = []" "pclock ex_window = 0" by (simp_all add: ex_window_def ex_start_def upd_def)
qed

lemma ex_asked_recv:
  "pairing_window_clients (recv ex_asked) = [(WsConnection 0, 300)]" "pairing_window_handle (recv ex_asked) = Some 300"
  "approved_peers (recv ex_asked) = []" "pending_peers (recv ex_asked) = [(''a'', ex_row)]"
  "trail ex_asked = [Asked (ex_input PAIR_REQUEST) True None True]" "pclock ex_asked = 0" "status_waits (recv ex_asked) = []"
proof -
  let ?i = "ex_input PAIR_REQUEST" and ?w = "recv ex_window"
  have clock: "pclock ex_asked = 0" by (simp add: ex_asked_def ex_window_recv)
  have w: "window_is_open 0 ?w" by (simp add: window_is_open_def ex_window_recv)
  have pr: "prune_stale_pairing_window_clients 0 ?w = ?w" by (simp add: prune_eq ex_window_recv)
  have "record_pair_request ex_cfg 0 7 ?i ?w =
      (Some (PENDING, None), fire_event (PAIR_REQUEST_RECEIVED ex_row) (?w\<lparr>pending_peers := [(''a'', ex_row)]\<rparr>))"
    by (simp add: record_pair_request_def window_open_eq w pr ex_window_recv ex_input_fields rival_pending_def ex_row_def Let_def)
  then have "recv ex_asked = fire_event (PAIR_REQUEST_RECEIVED ex_row) (?w\<lparr>pending_peers := [(''a'', ex_row)]\<rparr>)"
    using ex_id_ok(1) by (simp add: ex_asked_def dispatch_intent_def ex_input_fields)
  moreover have "trail ex_asked = [Asked ?i True None True]"
    using ex_window_recv w by (simp add: ex_asked_def asked_def ex_input_fields armed_key_def)
  ultimately show "pairing_window_clients (recv ex_asked) = [(WsConnection 0, 300)]" "pairing_window_handle (recv ex_asked) = Some 300"
  "approved_peers (recv ex_asked) = []" "pending_peers (recv ex_asked) = [(''a'', ex_row)]"
  "trail ex_asked = [Asked (ex_input PAIR_REQUEST) True None True]" "pclock ex_asked = 0" "status_waits (recv ex_asked) = []"
    using clock ex_window_recv by (simp_all add: fire_event_def)
qed

lemma ex_reachable:
  "reachable (receiver_init None) (receiver_step ex_cfg off) ex_window"
  "reachable (receiver_init None) (receiver_step ex_cfg off) ex_asked"
  "reachable (receiver_init None) (receiver_step ex_cfg off) ex_approved"
  "reachable (receiver_init None) (receiver_step ex_cfg off) ex_lapsed"
proof -
  have m: "\<not> remote_build_only ex_cfg" by (simp add: ex_cfg_def)
  have 0: "reachable (receiver_init None) (receiver_step ex_cfg off) (ex_start None)"
    by (rule reachable_init) (simp add: receiver_init_def ex_start_def)
  show 1: "reachable (receiver_init None) (receiver_step ex_cfg off) ex_window"
    using receiver_step.window_command [where s = "ex_start None", OF m, of off "JBool True" 0]
    by (intro reachable_step [OF 0]) (simp add: ex_window_def ex_start_def)
  have "dispatch_intent ex_cfg True off 0 7 0 (ex_input PAIR_REQUEST) (recv ex_window) =
      dispatch_intent ex_cfg True None 0 7 0 (ex_input PAIR_REQUEST) (recv ex_window)"
    by (simp add: dispatch_intent_def ex_input_fields)
  then have d: "dispatch_intent ex_cfg True off (pclock ex_window) 7 0 (ex_input PAIR_REQUEST) (recv ex_window) =
      (fst (dispatch_intent ex_cfg True None 0 7 0 (ex_input PAIR_REQUEST) (recv ex_window)), recv ex_asked)"
    using ex_window_recv by (simp add: ex_asked_def)
  show 2: "reachable (receiver_init None) (receiver_step ex_cfg off) ex_asked"
    using receiver_step.handshake [OF d] ex_window_recv
    by (intro reachable_step [OF 1]) (simp add: ex_asked_def ex_input_fields)
  show "reachable (receiver_init None) (receiver_step ex_cfg off) ex_approved"
    using receiver_step.approves [where s = ex_asked, OF m, of off "JStr ''a''"] ex_asked_recv
    by (intro reachable_step [OF 2]) (simp add: ex_approved_def)
  have 3: "reachable (receiver_init None) (receiver_step ex_cfg off) ex_late"
    using receiver_step.time_passes [of ex_asked 301 ex_cfg off] ex_asked_recv
    by (intro reachable_step [OF 2]) (simp add: ex_late_def)
  show "reachable (receiver_init None) (receiver_step ex_cfg off) ex_lapsed"
    using receiver_step.window_command [where s = ex_late, OF m, of off "JBool False" 0]
    by (intro reachable_step [OF 3]) (simp add: ex_lapsed_def ex_late_def)
qed

lemma ex_approved_recv: "approved_peers (recv ex_approved) = [(''a'', ex_row)]"
  "trail ex_approved = [Admin_approved ''a'', Asked (ex_input PAIR_REQUEST) True None True]"
  using ex_asked_recv ex_id_ok(2)
  by (simp_all add: ex_approved_def approve_peer_def fire_status_eq save_peers_eq set_approved_eq decided_def Let_def)

text \<open>
  C8. In every run of the receiver, with any handshakes, commands, timers, crashes and restarts: who is in the table of
  paired peers, who has a session, and whose \<open>peer_link\<close> handshake is granted, was paired before by the file, asked
  with its key within an open window and was approved by the administrator afterwards, or presented the one-time key of
  a headless server from an allowed address when nobody was paired.
\<close>
theorem only_authorized_peers:
  assumes "reachable (receiver_init file) (receiver_step cfg off) s"
  shows "(\<forall>(k, p) \<in> set (approved_peers (recv s)). authority cfg file (trail s) (k, pin_sha256 p)) \<and>
    (\<forall>k sid. dict_get (peer_link_sessions (recv s)) k = Some sid \<longrightarrow> (\<exists>pin. authority cfg file (trail s) (k, pin))) \<and>
    (\<forall>acc now wall n i st. dispatch_intent cfg acc off now wall n i (recv s) = (Some (OK, None), st) \<and> in_intent i = PEER_LINK \<longrightarrow>
       authority cfg file (trail s) (in_dashboard_id i, in_pin i))"
proof -
  note inv = receiver_invD [OF receiver_machine.invariant [OF assms]]
  have "authority cfg file (trail s) (k, pin_sha256 p)" if "(k, p) \<in> set (approved_peers (recv s))" for k p
    using that by (intro pair_invD(9) [OF inv(1)]) (force simp: identities_def)
  moreover have "\<exists>pin. authority cfg file (trail s) (k, pin)" if "dict_get (peer_link_sessions (recv s)) k = Some sid" for k sid
    using sessions_okD(4) [OF inv(2) that] inv(4) nth_mem by (auto simp: sessions_may_def)
  moreover have "authority cfg file (trail s) (in_dashboard_id i, in_pin i)"
    if "dispatch_intent cfg acc off now wall n i (recv s) = (Some (OK, None), st)" "in_intent i = PEER_LINK" for acc now wall n i st
    using dispatch_granted [OF that] by (rule pair_invD(9) [OF inv(1)])
  ultimately show ?thesis by blast
qed

lemma only_authorized_peers_witness:
  "authority ex_cfg None (trail ex_approved) (''a'', ''pin'') \<and> approved_peers (recv ex_approved) = [(''a'', ex_row)]"
  using only_authorized_peers [OF ex_reachable(3)] ex_approved_recv(1)
  by (auto simp: ex_row_def new_StoredPeer_def ex_input_def)




text \<open>
  C9. A status poll is never stranded and the window always closes: in every run a poll whose request was decided or
  dropped has been woken, and its answer is then final, an approval exactly when the peer is approved with the pin of the
  poll; a window with an open entry has its timer at or after that entry's deadline, and when the timer fires every entry has run out, nothing waits and
  every poll is woken.
\<close>
theorem polls_always_woken:
  assumes "reachable (receiver_init file) (receiver_step cfg off) s"
  shows "(\<forall>(n, w) \<in> set (status_waits (recv s)). dict_get (pending_peers (recv s)) (wait_id w) = None \<longrightarrow>
      flip_event w \<and>
      (fst (status_resume n w (recv s)) = (APPROVED, None) \<longleftrightarrow>
         (\<exists>p. dict_get (approved_peers (recv s)) (wait_id w) = Some p \<and> pin_sha256 p = wait_pin w)) \<and>
      fst (fst (status_resume n w (recv s))) \<in> {APPROVED, REJECTED}) \<and>
    (\<forall>(c, d) \<in> set (pairing_window_clients (recv s)). \<exists>t. pairing_window_handle (recv s) = Some t \<and> d \<le> t) \<and>
    (let st = on_pairing_window_deadline (pclock s) (recv s)
     in pending_peers st = [] \<and> pairing_window_clients st = [] \<and> (\<forall>(n, w) \<in> set (status_waits st). flip_event w))"
proof -
  note inv = receiver_invD [OF receiver_machine.invariant [OF assms]]
  let ?st = "on_pairing_window_deadline (pclock s) (recv s)"
  have "flip_event w \<and> (fst (status_resume n w (recv s)) = (APPROVED, None) \<longleftrightarrow>
         (\<exists>p. dict_get (approved_peers (recv s)) (wait_id w) = Some p \<and> pin_sha256 p = wait_pin w)) \<and>
      fst (fst (status_resume n w (recv s))) \<in> {APPROVED, REJECTED}"
    if "(n, w) \<in> set (status_waits (recv s))" "dict_get (pending_peers (recv s)) (wait_id w) = None" for n w
  proof -
    have "wait_id w \<notin> set (dict_keys (pending_peers (recv s)))" using that(2) by (simp add: dict_get_None_iff)
    then have "flip_event w" using pair_invD(5) [OF inv(1)] that(1) unfolding polls_ok_def by blast
    then show ?thesis using that(2) by (simp add: status_resume_def lookup_peer_response_def split: option.split)
  qed
  moreover have "pending_peers ?st = [] \<and> pairing_window_clients ?st = []"
  proof -
    let ?t = "(recv s)\<lparr>pairing_window_handle := None, pairing_window_clients := []\<rparr>"
    obtain f where "fire_pairing_window_changed (pclock s) ?t = (prune_stale_pairing_window_clients (pclock s) ?t)\<lparr>fired := f\<rparr>"
      using fire_window_eq by blast
    then show ?thesis by (simp add: on_pairing_window_deadline_def clear_pending_eq prune_eq)
  qed
  moreover have "flip_event w" if "(n, w) \<in> set (status_waits ?st)" for n w
    using pair_invD(5) [OF pair_inv_deadline [OF inv(1), of "pclock s"]] that calculation(2) unfolding polls_ok_def by fastforce
  ultimately show ?thesis using pair_invD(6) [OF inv(1)] unfolding timer_ok_def Let_def by blast
qed

lemma polls_always_woken_witness:
  "\<exists>t. pairing_window_handle (recv ex_asked) = Some t \<and> 300 \<le> t \<and> pending_peers (on_pairing_window_deadline 0 (recv ex_asked)) = []"
proof -
  note p = polls_always_woken [OF ex_reachable(2), unfolded Let_def]
  have "(WsConnection 0, 300) \<in> set (pairing_window_clients (recv ex_asked))" by (simp add: ex_asked_recv)
  then have "\<exists>t. pairing_window_handle (recv ex_asked) = Some t \<and> 300 \<le> t" using p by blast
  then show ?thesis using p ex_asked_recv(6) by auto
qed

text \<open>
  C10. At most one session and one dial per peer: of the sessions of an id that are open (registered or being registered,
  and not closing) there is one, the registry holds it, and of the dials of an id that still run and were not cancelled
  there is one, to an approved peer.
\<close>
theorem one_session_one_dial:
  assumes "reachable (receiver_init file) (receiver_step cfg off) s"
  shows "(\<forall>a b. open_session (recv s) a \<and> open_session (recv s) b \<and>
        se_id (session_objects (recv s) ! a) = se_id (session_objects (recv s) ! b) \<longrightarrow> a = b) \<and>
    (\<forall>a. open_session (recv s) a \<longrightarrow> dict_get (peer_link_sessions (recv s)) (se_id (session_objects (recv s) ! a)) = Some a) \<and>
    (\<forall>t \<in> set (running_dials (recv s)). \<not> dial_cancelled (dials (recv s) ! t) \<longrightarrow>
       dict_get (approved_peers (recv s)) (dial_id (dials (recv s) ! t)) \<noteq> None \<and>
       (\<forall>r \<in> set (running_dials (recv s)). \<not> dial_cancelled (dials (recv s) ! r) \<and>
          dial_id (dials (recv s) ! r) = dial_id (dials (recv s) ! t) \<longrightarrow> r = t))"
proof -
  note inv = receiver_invD [OF receiver_machine.invariant [OF assms]]
  note o = sessions_okD(5) [OF inv(2)] and d = dials_withinD(4) [OF inv(3)]
  show ?thesis
  proof (intro conjI allI ballI impI)
    show "a = b" if "open_session (recv s) a \<and> open_session (recv s) b \<and>
        se_id (session_objects (recv s) ! a) = se_id (session_objects (recv s) ! b)" for a b
      using o [of a] o [of b] that by (metis option.inject)
    show "dict_get (peer_link_sessions (recv s)) (se_id (session_objects (recv s) ! a)) = Some a" if "open_session (recv s) a" for a
      using that by (rule o)
    fix t assume t: "t \<in> set (running_dials (recv s))" "\<not> dial_cancelled (dials (recv s) ! t)"
    show "dict_get (approved_peers (recv s)) (dial_id (dials (recv s) ! t)) \<noteq> None"
      using d [OF t] by (simp add: dict_get_None_iff)
    show "r = t" if "r \<in> set (running_dials (recv s))"
      "\<not> dial_cancelled (dials (recv s) ! r) \<and> dial_id (dials (recv s) ! r) = dial_id (dials (recv s) ! t)" for r
      using conjunct1 [OF d [OF t]] conjunct1 [OF d [OF that(1) conjunct1 [OF that(2)]]] conjunct2 [OF that(2)] by (metis option.inject)
  qed
qed

text \<open>A peer of the file opens a session, and then the administrator removes it.\<close>

definition ex_file :: peers_dict where
  "ex_file = [(''a'', ex_row)]"

definition ex_granted :: pair_sys where
  "ex_granted = (ex_start (Some ex_file))\<lparr>granted := [ex_input PEER_LINK]\<rparr>"

definition ex_linked :: pair_sys where
  "ex_linked = ex_granted\<lparr>recv := register_peer_link_session 0 (new_PeerLinkSession (ex_input PEER_LINK) 0) (recv ex_granted), granted := []\<rparr>"

definition ex_revoked :: pair_sys where
  "ex_revoked = ex_linked\<lparr>recv := snd (remove_peer 0 (JStr ''a'') (recv ex_linked)), trail := [Admin_removed ''a'']\<rparr>"

lemma ex_file_ok: "rows_ok ex_file" "seed_peers (serialize_peers ex_file) = ex_file"
proof -
  show "rows_ok ex_file" using ex_id_ok(1)
    by (simp add: rows_ok_def row_ok_def ex_file_def dict_ok_def ex_row_def new_StoredPeer_def ex_input_fields)
  then show "seed_peers (serialize_peers ex_file) = ex_file" by (rule seed_serialized)
qed

lemma ex_linked_recv:
  "peer_link_sessions (recv ex_linked) = [(''a'', 0)]" "live_sessions (recv ex_linked) = [0]" "registering (recv ex_linked) = []"
  "session_objects (recv ex_linked) = [new_PeerLinkSession (ex_input PEER_LINK) 0]" "trail ex_linked = []" "pclock ex_linked = 0"
proof -
  let ?se = "new_PeerLinkSession (ex_input PEER_LINK) 0"
  define st where "st = start_receiver (Some ex_file)"
  have e: "peer_link_sessions st = []" "session_objects st = []" "registering st = []" "live_sessions st = []"
    by (simp_all add: st_def start_receiver_def)
  have id: "se_id ?se = ''a''" by (simp add: new_PeerLinkSession_def ex_input_fields)
  have "recv ex_linked = register_finish 0 0 (st\<lparr>session_objects := [?se], peer_link_sessions := [(''a'', 0)], registering := [0]\<rparr>)"
    by (simp add: ex_linked_def ex_granted_def ex_start_def register_peer_link_session_def id e Let_def flip: st_def)
  then show "peer_link_sessions (recv ex_linked) = [(''a'', 0)]" "live_sessions (recv ex_linked) = [0]" "registering (recv ex_linked) = []"
    "session_objects (recv ex_linked) = [?se]" "trail ex_linked = []" "pclock ex_linked = 0"
    by (simp_all add: register_finish_sessions e ex_linked_def ex_granted_def ex_start_def)
qed

lemma ex_linked_reachable: "reachable (receiver_init (Some ex_file)) (receiver_step ex_cfg off) ex_linked"
proof -
  let ?i = "ex_input PEER_LINK" and ?s = "ex_start (Some ex_file)"
  have 0: "reachable (receiver_init (Some ex_file)) (receiver_step ex_cfg off) ?s"
    by (rule reachable_init) (simp add: receiver_init_def ex_start_def ex_file_ok)
  have "lookup_peer_for_session ''a'' ''pin'' (start_receiver (Some ex_file)) = (OK, None)"
    by (simp add: lookup_peer_for_session_def lookup_peer_response_def start_receiver_def new_DStore_def ex_file_ok(2))
      (simp add: ex_file_def ex_row_def new_StoredPeer_def ex_input_fields)
  then have d: "dispatch_intent ex_cfg True off (pclock ?s) 7 0 ?i (recv ?s) = (Some (OK, None), recv ?s)"
    using ex_id_ok(1) by (simp add: dispatch_intent_def ex_input_fields ex_start_def)
  have 1: "reachable (receiver_init (Some ex_file)) (receiver_step ex_cfg off) ex_granted"
    using receiver_step.handshake [OF d]
    by (intro reachable_step [OF 0]) (simp add: ex_granted_def ex_input_fields ex_start_def start_receiver_def asked_def)
  show ?thesis
    using receiver_step.session_opens [of ?i ex_granted 0 ex_cfg off]
    by (intro reachable_step [OF 1]) (simp add: ex_linked_def ex_granted_def ex_start_def)
qed

lemma one_session_one_dial_witness:
  "open_session (recv ex_linked) 0 \<and> dict_get (peer_link_sessions (recv ex_linked)) (se_id (session_objects (recv ex_linked) ! 0)) = Some 0"
proof -
  have "open_session (recv ex_linked) 0" by (simp add: open_session_def ex_linked_recv new_PeerLinkSession_def)
  then show ?thesis using one_session_one_dial [OF ex_linked_reachable] by blast
qed

lemma removed_gone:
  assumes "validate_dashboard_id raw = Inr k" "dict_get (pending_peers st) k = None"
  shows "dict_get (approved_peers (snd (remove_peer now raw st))) k = None"
  using assms dials_untouched(1) [of k "set_approved (dict_pop k (approved_peers st)) st"]
  by (simp add: remove_peer_def fire_status_eq save_peers_eq set_approved_eq)

lemma removed_pending: "validate_dashboard_id raw = Inr k \<Longrightarrow>
    dict_get (pending_peers (snd (remove_peer now raw st))) k = None"
  using dials_untouched(2) [where k = k and st = "set_approved (dict_pop k (approved_peers st)) st"]
  by (simp add: remove_peer_def fire_status_eq save_peers_eq same_pairing_def) (simp add: set_approved_eq)

lemma register_pending: "pending_peers (register_peer_link_session now se st) = pending_peers st"
proof -
  have "pending_peers (register_finish now sid t) = pending_peers t" for sid t
    using pairing_same_dialer(2) [of "t\<lparr>registering := remove1 sid (registering t)\<rparr>" now]
    by (simp add: register_finish_def fire_event_def refresh_peer_display_identity_def save_peers_eq set_approved_eq
        same_pairing_def Let_def case_prod_beta split: option.split)
  then show ?thesis by (simp add: register_peer_link_session_def terminate_def Let_def split: option.split)
qed

text \<open>
  C13. Removing a paired peer does not end its session: in a run in which the administrator removed a peer, its session is
  still registered, open and read from, although nobody is paired under its id any more.
\<close>
theorem revoked_session_survives:
  "\<exists>file s sid. reachable (receiver_init file) (receiver_step ex_cfg off) s \<and> Admin_removed ''a'' \<in> set (trail s) \<and>
     dict_get (approved_peers (recv s)) ''a'' = None \<and> dict_get (pending_peers (recv s)) ''a'' = None \<and>
     dict_get (peer_link_sessions (recv s)) ''a'' = Some sid \<and> sid \<in> set (live_sessions (recv s)) \<and> open_session (recv s) sid"
proof -
  note inv = receiver_invD [OF receiver_machine.invariant [OF ex_linked_reachable [of undefined]]]
  have m: "\<not> remote_build_only ex_cfg" by (simp add: ex_cfg_def)
  have r: "reachable (receiver_init (Some ex_file)) (receiver_step ex_cfg off) ex_revoked"
    using receiver_step.removes [where s = ex_linked, OF m, of off "JStr ''a''"] ex_linked_recv
    by (intro reachable_step [OF ex_linked_reachable]) (simp add: ex_revoked_def decided_def ex_id_ok(2))
  have same: "same_sessions (recv ex_linked) (recv ex_revoked)" using dials_remove(2) [OF inv(3)] by (simp add: ex_revoked_def)
  have np: "pending_peers (recv ex_linked) = []"
    by (simp add: ex_linked_def ex_granted_def ex_start_def register_pending start_receiver_def)
  have "dict_get (approved_peers (recv ex_revoked)) ''a'' = None"
    using removed_gone [OF ex_id_ok(2)] np by (simp add: ex_revoked_def)
  moreover have "dict_get (pending_peers (recv ex_revoked)) ''a'' = None"
    using np by (simp add: ex_revoked_def removed_pending [OF ex_id_ok(2)])
  moreover have "open_session (recv ex_revoked) 0" "dict_get (peer_link_sessions (recv ex_revoked)) ''a'' = Some 0"
    "0 \<in> set (live_sessions (recv ex_revoked))" "Admin_removed ''a'' \<in> set (trail ex_revoked)"
    using same ex_linked_recv by (simp_all add: same_sessions_def open_session_def new_PeerLinkSession_def ex_revoked_def)
  ultimately show ?thesis using r by blast
qed

text \<open>
  C12. Closing the window does not always clear the requests that wait: when the last tab closes after its entry ran out
  and before the timer has run, the timer is cancelled, the window is closed and refuses requests, and the row stays,
  with nothing left that would clear it, and can still be approved.
\<close>
theorem lapsed_close_keeps_pending:
  "\<exists>s. reachable (receiver_init None) (receiver_step ex_cfg off) s \<and> pairing_window_clients (recv s) = [] \<and>
     pairing_window_handle (recv s) = None \<and> pending_peers (recv s) = [(''a'', ex_row)] \<and>
     fst (record_pair_request ex_cfg (pclock s) 7 (ex_input PAIR_REQUEST) (recv s)) = Some refuse \<and>
     fst (approve_peer (pclock s) (JStr ''a'') (recv s)) = Inr ()"
proof -
  have late: "pairing_window_clients (recv ex_late) = [(WsConnection 0, 300)]" "pending_peers (recv ex_late) = [(''a'', ex_row)]"
    "approved_peers (recv ex_late) = []"
    using ex_asked_recv by (simp_all add: ex_late_def)
  then have w: "\<not> window_is_open 301 (recv ex_late)" "window_entries 301 False (WsConnection 0) d (recv ex_late) = []" for d
    by (simp_all add: window_is_open_def window_entries_def)
  obtain f where r: "recv ex_lapsed = (recv ex_late)\<lparr>pairing_window_clients := [], pairing_window_handle := None, fired := f\<rparr>"
    using set_pairing_window_eq [of 301 False "WsConnection 0" None "recv ex_late"] w
    by (auto simp: ex_lapsed_def upd_def window_timer_for_def Let_def)
  have l: "pairing_window_clients (recv ex_lapsed) = []" "pairing_window_handle (recv ex_lapsed) = None"
    "pending_peers (recv ex_lapsed) = [(''a'', ex_row)]" "approved_peers (recv ex_lapsed) = []"
    by (simp_all add: r late)
  have "fst (record_pair_request ex_cfg t 7 (ex_input PAIR_REQUEST) (recv ex_lapsed)) = Some refuse" for t
    by (simp add: record_pair_request_def l window_open_eq window_is_open_def)
  moreover have "fst (approve_peer t (JStr ''a'') (recv ex_lapsed)) = Inr ()" for t
    by (simp add: approve_peer_def l ex_id_ok(2) Let_def)
  ultimately show ?thesis using ex_reachable(4) l by blast
qed

end
